(* ===== verification/Prelude.thy ===== *)
theory Prelude
  imports Main "HOL-Library.Word" "HOL-Library.AList"
begin

text \<open>
  Shared ground of the development: the machine integers and byte strings of the
  source, results with an early return (Rust's \<open>?\<close> operator), the little- and
  big-endian codecs of the standard library (\<open>to_le_bytes\<close>, \<open>from_le_bytes\<close>, \<open>from_be_bytes\<close>),
  slices of byte strings, and finite hash maps as association lists with distinct keys.
  The lemmas here are generic; they are declared for the simplifier or collected in the
  named collections \<open>res_simps\<close> (results) and \<open>codec\<close> (byte codecs).
\<close>

unbundle bit_operations_syntax

named_theorems res_simps \<open>unfolding of sequenced results\<close>
named_theorems codec \<open>round trips and lengths of the byte codecs\<close>

type_synonym u8 = "8 word"
type_synonym u16 = "16 word"
type_synonym u32 = "32 word"
type_synonym u64 = "64 word"
type_synonym bytes = "8 word list"


section \<open>Results with early return\<close>

text \<open>
  \<open>and_then m f\<close> is \<open>let x = m?; f(x)\<close>: the fault of \<open>m\<close> is returned as it is,
  otherwise the computation goes on with the value.
\<close>

definition and_then :: "'e + 'a \<Rightarrow> ('a \<Rightarrow> 'e + 'b) \<Rightarrow> 'e + 'b" where
  "and_then m f = (case m of Inl e \<Rightarrow> Inl e | Inr x \<Rightarrow> f x)"

definition ensure :: "bool \<Rightarrow> 'e \<Rightarrow> 'e + unit" where
  "ensure b e = (if b then Inr () else Inl e)"

lemma and_then_simps [simp]:
  "and_then (Inl e) f = Inl e"
  "and_then (Inr x) f = f x"
  by (simp_all add: and_then_def)

lemma and_then_eq_Inr [res_simps]:
  "and_then m f = Inr y \<longleftrightarrow> (\<exists>x. m = Inr x \<and> f x = Inr y)"
  by (cases m) auto

lemma and_then_eq_Inl [res_simps]:
  "and_then m f = Inl e \<longleftrightarrow> m = Inl e \<or> (\<exists>x. m = Inr x \<and> f x = Inl e)"
  by (cases m) auto

lemma and_then_assoc [simp]:
  "and_then (and_then m f) g = and_then m (\<lambda>x. and_then (f x) g)"
  by (cases m) auto

lemma and_then_cong [fundef_cong]:
  assumes "m = m'" and "\<And>x. m' = Inr x \<Longrightarrow> f x = g x"
  shows "and_then m f = and_then m' g"
  using assms by (cases m') auto

lemma ensure_simps [simp]:
  "ensure True e = Inr ()"
  "ensure False e = Inl e"
  by (simp_all add: ensure_def)

lemma ensure_eq_Inr [res_simps]: "ensure b e = Inr u \<longleftrightarrow> b"
  by (simp add: ensure_def)


section \<open>Slices\<close>

text \<open>\<open>xs[a..b]\<close>; the callers check the bounds that the source checks.\<close>

definition slice_of :: "nat \<Rightarrow> nat \<Rightarrow> 'a list \<Rightarrow> 'a list" where
  "slice_of a b xs = take (b - a) (drop a xs)"

lemma length_slice [simp]: "b \<le> length xs \<Longrightarrow> length (slice_of a b xs) = b - a"
  by (simp add: slice_of_def)

lemma slice_0 [simp]: "slice_of 0 n xs = take n xs"
  by (simp add: slice_of_def)

lemma slice_append_left: "b \<le> length xs \<Longrightarrow> slice_of a b (xs @ ys) = slice_of a b xs"
  by (simp add: slice_of_def)

lemma slice_append_exact: "length xs = a \<Longrightarrow> length ys = b - a \<Longrightarrow> slice_of a b (xs @ ys @ zs) = ys"
  by (simp add: slice_of_def)

lemma nth_slice: "a + i < b \<Longrightarrow> b \<le> length xs \<Longrightarrow> slice_of a b xs ! i = xs ! (a + i)"
  by (simp add: slice_of_def)

text \<open>\<open>xs[a..a+len ys].copy_from_slice(ys)\<close>: overwrite in place.\<close>

definition overwrite :: "nat \<Rightarrow> 'a list \<Rightarrow> 'a list \<Rightarrow> 'a list" where
  "overwrite a ys xs = take a xs @ ys @ drop (a + length ys) xs"

lemma length_overwrite [simp]: "a + length ys \<le> length xs \<Longrightarrow> length (overwrite a ys xs) = length xs"
  by (simp add: overwrite_def)

lemma slice_overwrite_same:
  "a + length ys \<le> length xs \<Longrightarrow> slice_of a (a + length ys) (overwrite a ys xs) = ys"
  by (simp add: slice_of_def overwrite_def)

lemma slice_overwrite_before:
  assumes "d \<le> a" and "a + length ys \<le> length xs"
  shows "slice_of c d (overwrite a ys xs) = slice_of c d xs"
  using assms by (auto simp: slice_of_def overwrite_def drop_take min_def)

lemma slice_overwrite_after:
  assumes "a + length ys \<le> c" and "c \<le> d" and "d \<le> length xs"
  shows "slice_of c d (overwrite a ys xs) = slice_of c d xs"
proof -
  have "drop c (overwrite a ys xs) = drop c xs"
    using assms by (simp add: overwrite_def)
  then show ?thesis by (simp add: slice_of_def)
qed


section \<open>Little-endian and big-endian integers\<close>

definition to_le :: "nat \<Rightarrow> 'a::len word \<Rightarrow> bytes" where
  "to_le n w = map (\<lambda>i. ucast (drop_bit (8 * i) w)) [0..<n]"

primrec from_le :: "bytes \<Rightarrow> 'a::len word" where
  "from_le [] = 0"
| "from_le (b # bs) = ucast b OR push_bit 8 (from_le bs)"

definition to_be :: "nat \<Rightarrow> 'a::len word \<Rightarrow> bytes" where
  "to_be n w = rev (to_le n w)"

definition from_be :: "bytes \<Rightarrow> 'a::len word" where
  "from_be bs = from_le (rev bs)"

lemma length_to_le [simp, codec]: "length (to_le n w) = n"
  by (simp add: to_le_def)

lemma length_to_be [simp, codec]: "length (to_be n w) = n"
  by (simp add: to_be_def)

lemma nth_to_le: "i < n \<Longrightarrow> to_le n w ! i = ucast (drop_bit (8 * i) w)"
  by (simp add: to_le_def)

lemma bit_from_le:
  "bit (from_le bs :: 'a::len word) i \<longleftrightarrow>
     i < LENGTH('a) \<and> i div 8 < length bs \<and> bit (bs ! (i div 8)) (i mod 8)"
proof (induction bs arbitrary: i)
  case Nil
  then show ?case by simp
next
  case (Cons b bs)
  show ?case
  proof (cases "i < 8")
    case True
    then show ?thesis
      by (auto simp: bit_simps)
  next
    case False
    then have "i div 8 = Suc ((i - 8) div 8)" and "(i - 8) mod 8 = i mod 8"
      by (auto simp: le_div_geq le_mod_geq)
    moreover have "\<not> bit b i"
      using False bit_imp_le_length [of b i] by auto
    ultimately show ?thesis
      using False Cons.IH [of "i - 8"] bit_imp_le_length [of "from_le (b # bs) :: 'a word" i]
      by (auto simp: bit_simps)
  qed
qed

lemma from_le_to_le [simp, codec]:
  assumes "LENGTH('a) \<le> 8 * n"
  shows "from_le (to_le n (w :: 'a::len word)) = w"
proof (rule bit_eqI)
  fix i
  have "i < LENGTH('a) \<Longrightarrow> i div 8 < n"
    using assms by (simp add: less_mult_imp_div_less mult.commute)
  moreover have "bit w i \<Longrightarrow> i < LENGTH('a)"
    by (rule bit_imp_le_length)
  ultimately show "bit (from_le (to_le n w) :: 'a word) i = bit w i"
    by (auto simp: bit_from_le nth_to_le bit_simps)
qed

lemma to_le_from_le [simp, codec]:
  assumes "n = length bs" and "8 * n \<le> LENGTH('a)"
  shows "to_le n (from_le bs :: 'a::len word) = bs"
proof (rule nth_equalityI)
  show "length (to_le n (from_le bs :: 'a word)) = length bs"
    using assms by simp
next
  fix i assume "i < length (to_le n (from_le bs :: 'a word))"
  then have i: "i < length bs" using assms by simp
  show "to_le n (from_le bs :: 'a word) ! i = bs ! i"
  proof (rule bit_word_eqI)
    fix k assume k: "k < LENGTH(8)"
    then have "(8 * i + k) div 8 = i" and "(8 * i + k) mod 8 = k"
      by auto
    moreover have "8 * i + k < LENGTH('a)"
      using assms i k by (simp add: less_le_trans)
    ultimately show "bit (to_le n (from_le bs :: 'a word) ! i) k = bit (bs ! i) k"
      using i k assms by (simp add: nth_to_le bit_simps bit_from_le)
  qed
qed

lemma from_be_to_be [simp, codec]:
  "LENGTH('a) \<le> 8 * n \<Longrightarrow> from_be (to_be n (w :: 'a::len word)) = w"
  by (simp add: from_be_def to_be_def)

lemma from_le_inject:
  assumes "length xs = length ys" and "8 * length xs \<le> LENGTH('a)"
    and "(from_le xs :: 'a::len word) = from_le ys"
  shows "xs = ys"
  using assms by (metis to_le_from_le)


section \<open>Machine arithmetic\<close>

lemma unat_add_no_overflow:
  "unat a + unat b < 2 ^ LENGTH('a) \<Longrightarrow> unat (a + b :: 'a::len word) = unat a + unat b"
  by (simp add: unat_word_ariths)

lemma unat_mult_no_overflow:
  "unat a * unat b < 2 ^ LENGTH('a) \<Longrightarrow> unat (a * b :: 'a::len word) = unat a * unat b"
  by (simp add: unat_word_ariths)

lemma unat_ucast_up [simp]:
  assumes "LENGTH('a) \<le> LENGTH('b)"
  shows "unat (ucast (w :: 'a::len word) :: 'b::len word) = unat w"
proof -
  have "unat w < 2 ^ LENGTH('a)" by (rule unsigned_less)
  also have "\<dots> \<le> 2 ^ LENGTH('b)" using assms by (simp add: power_increasing)
  finally show ?thesis by (simp add: unsigned_ucast_eq take_bit_nat_eq_self)
qed

lemma unat_of_nat_small: "n < 2 ^ LENGTH('a) \<Longrightarrow> unat (of_nat n :: 'a::len word) = n"
  by (simp add: unsigned_of_nat take_bit_nat_eq_self)


section \<open>Hash maps as association lists\<close>

text \<open>
  A \<open>HashMap\<close> is an association list with distinct keys. Its iteration order, which the
  standard library leaves open, is the order of the list; every theorem is stated for an
  arbitrary list, so for every order.
\<close>

type_synonym ('k, 'v) hmap = "('k \<times> 'v) list"

definition hm_wf :: "('k, 'v) hmap \<Rightarrow> bool" where
  "hm_wf m \<longleftrightarrow> distinct (map fst m)"

definition hm_extend :: "('k, 'v) hmap \<Rightarrow> ('k, 'v) hmap \<Rightarrow> ('k, 'v) hmap" where
  "hm_extend m new = fold (\<lambda>(k, v). AList.update k v) new m"

lemma hm_wf_Nil [simp]: "hm_wf []"
  by (simp add: hm_wf_def)

lemma hm_wf_update [simp]: "hm_wf m \<Longrightarrow> hm_wf (AList.update k v m)"
  by (simp add: hm_wf_def distinct_update)

lemma hm_wf_delete [simp]: "hm_wf m \<Longrightarrow> hm_wf (AList.delete k m)"
  by (simp add: hm_wf_def distinct_delete)

lemma hm_wf_extend [simp]: "hm_wf m \<Longrightarrow> hm_wf (hm_extend m new)"
  unfolding hm_extend_def
  by (induction new arbitrary: m) (auto split: prod.splits)

lemma map_of_extend_notin:
  "k \<notin> fst ` set new \<Longrightarrow> map_of (hm_extend m new) k = map_of m k"
  unfolding hm_extend_def
  by (induction new arbitrary: m) (auto simp: update_conv')

lemma map_of_extend:
  "hm_wf new \<Longrightarrow> map_of (hm_extend m new) = map_of m ++ map_of new"
proof (induction new arbitrary: m)
  case Nil
  then show ?case by (simp add: hm_extend_def)
next
  case (Cons kv new)
  obtain k v where kv: "kv = (k, v)" by (cases kv)
  from Cons.prems kv have "hm_wf new" and "k \<notin> fst ` set new"
    by (auto simp: hm_wf_def)
  moreover have "hm_extend m (kv # new) = hm_extend (AList.update k v m) new"
    by (simp add: hm_extend_def kv)
  ultimately show ?case
    using Cons.IH [of "AList.update k v m"]
    by (auto simp: kv fun_eq_iff update_conv' map_add_def split: option.splits)
       (metis domI dom_map_of_conv_image_fst)+
qed

end
