(* ===== verification/Display.thy ===== *)
theory Display
  imports Prelude
begin

text \<open>
  The errors of \<open>src/src/error.rs\<close> and their messages, the faults a modelled operation can
  end with, and the textual formats of \<open>src/src/display.rs\<close> (\<open>hex\<close>) and of the standard
  library (\<open>{}\<close>, \<open>{:02}\<close> and \<open>FromStr\<close> of unsigned integers) that file names and metadata use.
\<close>

section \<open>Errors and faults\<close>

text \<open>The kinds of \<open>std::io::Error\<close> that the modelled code distinguishes or raises.\<close>

datatype io_error = NotFound | UnexpectedEof | AlreadyExists | WouldBlock | OtherIo

datatype error =
    Io io_error
  | Corruption string
  | InvalidConfiguration string
  | InvalidInput string
  | Background error
  | Locked io_error
  | Migration string

text \<open>
  A modelled operation ends with a value, with an error of the source's \<open>Error\<close> type, with a
  panic (\<open>assert!\<close>, \<open>unwrap\<close>, an index out of range, a read of memory that was never
  initialised), or not at all (\<open>Diverge\<close>, a loop that runs for ever).
\<close>

datatype fault = Err error | Panic string | Diverge

type_synonym 'a res = "fault + 'a"

text \<open>\<open>impl Display for Error\<close>; the text of an I/O error comes from the standard library.\<close>

primrec error_fmt :: "(io_error \<Rightarrow> string) \<Rightarrow> error \<Rightarrow> string" where
  "error_fmt io (Io e) = ''IO Error: '' @ io e"
| "error_fmt io (Corruption e) = ''Corruption: '' @ e"
| "error_fmt io (InvalidConfiguration e) = ''Invalid configuration: '' @ e"
| "error_fmt io (InvalidInput e) = ''Invalid input: '' @ e"
| "error_fmt io (Background e) = ''Background worker error: '' @ error_fmt io e"
| "error_fmt io (Locked e) = ''Database file is in use. ('' @ io e @ '')''"
| "error_fmt io (Migration e) = ''Migration error: '' @ e"

text \<open>\<open>impl From<std::io::Error> for Error\<close>: what \<open>?\<close> does to an I/O error.\<close>

definition error_from_io :: "io_error \<Rightarrow> error" where
  "error_from_io e = Io e"


section \<open>Hexadecimal display\<close>

definition hex_digit :: "nat \<Rightarrow> char" where
  "hex_digit d = ''0123456789abcdef'' ! d"

definition hex_byte :: "u8 \<Rightarrow> string" where
  "hex_byte b = [hex_digit (unat b div 16), hex_digit (unat b mod 16)]"

definition hex :: "bytes \<Rightarrow> string" where
  "hex bs = concat (map hex_byte bs)"

lemma hex_digit_inject:
  assumes "a < 16" and "b < 16"
  shows "hex_digit a = hex_digit b \<longleftrightarrow> a = b"
proof -
  have "distinct ''0123456789abcdef''" by simp
  then show ?thesis
    unfolding hex_digit_def using assms by (subst nth_eq_iff_index_eq) simp_all
qed

lemma hex_byte_inject: "hex_byte a = hex_byte b \<longleftrightarrow> a = b"
proof
  assume eq: "hex_byte a = hex_byte b"
  have "unat a < 256" and "unat b < 256"
    using unsigned_less [of a] unsigned_less [of b] by simp_all
  then have "unat a div 16 < 16" and "unat b div 16 < 16" by linarith+
  with eq have "unat a div 16 = unat b div 16" and "unat a mod 16 = unat b mod 16"
    by (auto simp: hex_byte_def hex_digit_inject)
  then have "unat a = unat b" by (metis div_mult_mod_eq)
  then show "a = b" by (simp add: unsigned_word_eqI)
qed simp

lemma length_hex [simp]: "length (hex bs) = 2 * length bs"
  by (induction bs) (auto simp: hex_def hex_byte_def)

lemma hex_inject: "hex xs = hex ys \<longleftrightarrow> xs = ys"
proof (induction xs arbitrary: ys)
  case Nil
  then show ?case by (cases ys) (auto simp: hex_def hex_byte_def)
next
  case (Cons x xs)
  show ?case
  proof (cases ys)
    case Nil
    then show ?thesis by (auto simp: hex_def hex_byte_def)
  next
    case (Cons y ys')
    have "hex (x # xs) = hex ys \<longleftrightarrow> hex_byte x = hex_byte y \<and> hex xs = hex ys'"
      by (auto simp: hex_def Cons hex_byte_def)
    then show ?thesis
      using Cons.IH Cons hex_byte_inject by auto
  qed
qed


section \<open>Decimal numbers\<close>

definition digit :: "nat \<Rightarrow> char" where
  "digit d = ''0123456789'' ! d"

fun dec :: "nat \<Rightarrow> string" where
  "dec n = (if n < 10 then [digit n] else dec (n div 10) @ [digit (n mod 10)])"

declare dec.simps [simp del]

text \<open>\<open>format!("{:02}", n)\<close>.\<close>

definition dec02 :: "nat \<Rightarrow> string" where
  "dec02 n = (if n < 10 then digit 0 # dec n else dec n)"

definition digit_val :: "char \<Rightarrow> nat option" where
  "digit_val c =
     (let d = length (takeWhile (\<lambda>x. x \<noteq> c) ''0123456789'') in if d < 10 then Some d else None)"

fun parse_digits :: "nat \<Rightarrow> nat \<Rightarrow> string \<Rightarrow> nat option" where
  "parse_digits limit acc [] = Some acc"
| "parse_digits limit acc (c # cs) =
     (case digit_val c of
        None \<Rightarrow> None
      | Some d \<Rightarrow> if acc * 10 + d < limit then parse_digits limit (acc * 10 + d) cs else None)"

text \<open>
  \<open>str::parse\<close> of an unsigned integer type with \<open>limit\<close> values: an optional plus sign, at
  least one digit, nothing else, and no overflow.
\<close>

definition parse_uint :: "nat \<Rightarrow> string \<Rightarrow> nat option" where
  "parse_uint limit s =
     (let ds = (case s of [] \<Rightarrow> [] | c # cs \<Rightarrow> if c = CHR ''+'' then cs else s)
      in if ds = [] then None else parse_digits limit 0 ds)"

lemma digit_val_digit [simp]: "d < 10 \<Longrightarrow> digit_val (digit d) = Some d"
proof -
  assume "d < 10"
  then have "d \<in> {0,1,2,3,4,5,6,7,8,9}" by auto
  then show ?thesis by (auto simp: digit_val_def digit_def)
qed

lemma dec_nonempty [simp]: "dec n \<noteq> []"
  by (subst dec.simps) simp

lemma dec_digits: "c \<in> set (dec n) \<Longrightarrow> \<exists>d<10. c = digit d"
proof (induction n rule: dec.induct)
  case (1 n)
  show ?case
  proof (cases "n < 10")
    case True
    with "1.prems" show ?thesis by (subst (asm) dec.simps) auto
  next
    case False
    with "1.prems" have "c \<in> set (dec (n div 10)) \<or> c = digit (n mod 10)"
      by (subst (asm) dec.simps) auto
    with "1.IH" [OF False] show ?thesis by force
  qed
qed

lemma parse_digits_append:
  "parse_digits limit acc (xs @ ys) =
     (case parse_digits limit acc xs of None \<Rightarrow> None | Some a \<Rightarrow> parse_digits limit a ys)"
  by (induction xs arbitrary: acc) (auto split: option.splits)

lemma parse_digits_dec: "n < limit \<Longrightarrow> parse_digits limit 0 (dec n) = Some n"
proof (induction n rule: dec.induct)
  case (1 n)
  show ?case
  proof (cases "n < 10")
    case True
    with "1.prems" show ?thesis by (subst dec.simps) simp
  next
    case False
    from "1.prems" have "n div 10 < limit" by linarith
    with "1.IH" False have "parse_digits limit 0 (dec (n div 10)) = Some (n div 10)" by simp
    with False "1.prems" show ?thesis
      by (subst dec.simps) (simp add: parse_digits_append)
  qed
qed

lemma dec_inject: "dec m = dec n \<longleftrightarrow> m = n"
proof
  assume "dec m = dec n"
  moreover have "parse_digits (Suc (max m n)) 0 (dec m) = Some m"
    and "parse_digits (Suc (max m n)) 0 (dec n) = Some n"
    by (simp_all add: parse_digits_dec)
  ultimately show "m = n" by (metis option.inject)
qed simp

lemma digit_neq: "d < 10 \<Longrightarrow> c \<notin> set ''0123456789'' \<Longrightarrow> digit d \<noteq> c"
proof
  assume "d < 10" "c \<notin> set ''0123456789''" "digit d = c"
  moreover have "digit d \<in> set ''0123456789''"
    unfolding digit_def by (rule nth_mem) (use \<open>d < 10\<close> in simp)
  ultimately show False by simp
qed

lemma dec_notin: "c \<notin> set ''0123456789'' \<Longrightarrow> c \<notin> set (dec n)"
  using dec_digits digit_neq by metis

lemma parse_uint_dec:
  assumes "n < limit"
  shows "parse_uint limit (dec n) = Some n"
proof -
  obtain c cs where d: "dec n = c # cs" by (cases "dec n") auto
  have "CHR ''+'' \<notin> set (dec n)" by (rule dec_notin) simp
  then have "c \<noteq> CHR ''+''" using d by auto
  then show ?thesis
    using d parse_digits_dec [OF assms] by (auto simp: parse_uint_def)
qed

lemma dec02_inject: "dec02 m = dec02 n \<longleftrightarrow> m = n"
proof -
  have len1: "k < 10 \<Longrightarrow> dec k = [digit k]" for k
    by (simp add: dec.simps)
  have hd: "10 \<le> k \<Longrightarrow> hd (dec k) \<noteq> digit 0" for k
  proof (induction k rule: dec.induct)
    case (1 k)
    show ?case
    proof (cases "k div 10 < 10")
      case True
      with "1.prems" have "dec k = [digit (k div 10), digit (k mod 10)]"
        by (simp add: dec.simps [of k] len1)
      moreover have "digit (k div 10) \<noteq> digit 0"
        using True "1.prems" digit_val_digit [of "k div 10"] digit_val_digit [of 0]
        by (metis div_greater_zero_iff less_numeral_extra(3) option.inject zero_less_numeral)
      ultimately show ?thesis by simp
    next
      case False
      with "1.IH" "1.prems" have "hd (dec (k div 10)) \<noteq> digit 0" by simp
      with "1.prems" show ?thesis by (simp add: dec.simps [of k])
    qed
  qed
  show ?thesis
    using hd [of m] hd [of n] by (auto simp: dec02_def dec_inject) (metis list.sel(1) not_less)+
qed

end
