(* ===== verification/Table_Ids.thy ===== *)
theory Table_Ids
  imports Display
begin

text \<open>
  Identifiers of value tables (\<open>TableId\<close> of \<open>src/src/table.rs\<close>) and of index tables
  (\<open>TableId\<close> of \<open>src/src/index.rs\<close>): 16 bits with the column in the upper byte and the size
  tier, respectively the index size, in the lower one, and the file names made from them.
  A locale states what the log needs of both: the 16-bit form determines the identifier.
\<close>

type_synonym ColId = u8

datatype vtable_id = VTableId u16
datatype itable_id = ITableId u16


section \<open>Value table identifiers\<close>

definition VTableId_new :: "ColId \<Rightarrow> u8 \<Rightarrow> vtable_id" where
  "VTableId_new col size_tier = VTableId (push_bit 8 (ucast col) OR ucast size_tier)"

definition VTableId_from_u16 :: "u16 \<Rightarrow> vtable_id" where
  "VTableId_from_u16 i = VTableId i"

primrec VTableId_as_u16 :: "vtable_id \<Rightarrow> u16" where
  "VTableId_as_u16 (VTableId i) = i"

definition VTableId_col :: "vtable_id \<Rightarrow> ColId" where
  "VTableId_col t = ucast (drop_bit 8 (VTableId_as_u16 t))"

definition VTableId_size_tier :: "vtable_id \<Rightarrow> u8" where
  "VTableId_size_tier t = ucast (VTableId_as_u16 t AND 0xff)"

definition VTableId_file_name :: "vtable_id \<Rightarrow> string" where
  "VTableId_file_name t =
     ''table_'' @ dec02 (unat (VTableId_col t)) @ ''_'' @ hex [VTableId_size_tier t]"

definition starts_with :: "string \<Rightarrow> string \<Rightarrow> bool" where
  "starts_with p s \<longleftrightarrow> take (length p) s = p"

definition VTableId_is_file_name :: "ColId \<Rightarrow> string \<Rightarrow> bool" where
  "VTableId_is_file_name col name = starts_with (''table_'' @ dec02 (unat col) @ ''_'') name"

definition VTableId_fmt :: "vtable_id \<Rightarrow> string" where
  "VTableId_fmt t = dec02 (unat (VTableId_col t)) @ ''-'' @ hex [VTableId_size_tier t]"


section \<open>Index table identifiers\<close>

definition ITableId_new :: "ColId \<Rightarrow> u8 \<Rightarrow> itable_id" where
  "ITableId_new col index_bits = ITableId (push_bit 8 (ucast col) OR ucast index_bits)"

definition ITableId_from_u16 :: "u16 \<Rightarrow> itable_id" where
  "ITableId_from_u16 i = ITableId i"

primrec ITableId_as_u16 :: "itable_id \<Rightarrow> u16" where
  "ITableId_as_u16 (ITableId i) = i"

definition ITableId_col :: "itable_id \<Rightarrow> ColId" where
  "ITableId_col t = ucast (drop_bit 8 (ITableId_as_u16 t))"

definition ITableId_index_bits :: "itable_id \<Rightarrow> u8" where
  "ITableId_index_bits t = ucast (ITableId_as_u16 t AND 0xff)"

definition ITableId_file_name :: "itable_id \<Rightarrow> string" where
  "ITableId_file_name t =
     ''index_'' @ dec02 (unat (ITableId_col t)) @ ''_'' @ dec (unat (ITableId_index_bits t))"

definition ITableId_is_file_name :: "ColId \<Rightarrow> string \<Rightarrow> bool" where
  "ITableId_is_file_name col name = starts_with (''index_'' @ dec02 (unat col) @ ''_'') name"

definition ITableId_fmt :: "itable_id \<Rightarrow> string" where
  "ITableId_fmt t = dec02 (unat (ITableId_col t)) @ ''-'' @ dec02 (unat (ITableId_index_bits t))"

text \<open>
  Geometry of an index: \<open>2 ^ index_bits\<close> chunks of 64 entries of 8 bytes after 16 KiB of
  metadata. \<open>shl\<close> and \<open>shr\<close> are \<open><<\<close> and \<open>>>\<close> on \<open>u64\<close>: the release build masks the shift amount.
\<close>

definition shl :: "u64 \<Rightarrow> nat \<Rightarrow> u64" where
  "shl x n = push_bit (n mod 64) x"

definition shr :: "u64 \<Rightarrow> nat \<Rightarrow> u64" where
  "shr x n = drop_bit (n mod 64) x"

lemma bit_shl: "n < 64 \<Longrightarrow> bit (shl x n) i \<longleftrightarrow> n \<le> i \<and> i < 64 \<and> bit x (i - n)"
  by (auto simp: shl_def bit_push_bit_iff dest: bit_imp_le_length)

lemma bit_shr: "n < 64 \<Longrightarrow> bit (shr x n) i \<longleftrightarrow> bit x (n + i)"
  by (simp add: shr_def bit_drop_bit_eq)

definition CHUNK_ENTRIES_BITS :: nat where "CHUNK_ENTRIES_BITS = 6"
definition CHUNK_ENTRIES :: nat where "CHUNK_ENTRIES = 64"
definition ENTRY_LEN :: nat where "ENTRY_LEN = 64"
definition ENTRY_BYTES :: nat where "ENTRY_BYTES = 8"
definition CHUNK_LEN :: nat where "CHUNK_LEN = 512"
definition META_SIZE :: nat where "META_SIZE = 16 * 1024"
definition HEADER_SIZE :: nat where "HEADER_SIZE = 512"

definition total_chunks :: "u8 \<Rightarrow> u64" where
  "total_chunks index_bits = shl 1 (unat index_bits)"

definition total_entries :: "u8 \<Rightarrow> u64" where
  "total_entries index_bits = total_chunks index_bits * of_nat CHUNK_ENTRIES"

definition file_size :: "u8 \<Rightarrow> u64" where
  "file_size index_bits = total_entries index_bits * 8 + of_nat META_SIZE"

definition ITableId_total_chunks :: "itable_id \<Rightarrow> u64" where
  "ITableId_total_chunks t = total_chunks (ITableId_index_bits t)"

definition ITableId_total_entries :: "itable_id \<Rightarrow> u64" where
  "ITableId_total_entries t = total_entries (ITableId_index_bits t)"


section \<open>The packing is a bijection\<close>

lemma pack_upper: "ucast (drop_bit 8 (push_bit 8 (ucast (c :: u8) :: u16) OR ucast (t :: u8))) = c"
  by (rule bit_word_eqI) (auto simp: bit_simps dest: bit_imp_le_length)

lemma mask_255: "(0xff :: 'a::len word) = mask 8"
  by (simp add: mask_eq_exp_minus_1)

lemma pack_lower: "ucast ((push_bit 8 (ucast (c :: u8) :: u16) OR ucast (t :: u8)) AND 0xff) = t"
  unfolding mask_255 by (rule bit_word_eqI) (auto simp: bit_simps)

lemma unpack_pack:
  "push_bit 8 (ucast (ucast (drop_bit 8 i) :: u8)) OR ucast (ucast (i AND 0xff) :: u8) = (i :: u16)"
  unfolding mask_255
proof (rule bit_word_eqI)
  fix n assume "n < LENGTH(16)"
  then show "bit (push_bit 8 (ucast (ucast (drop_bit 8 i) :: u8)) OR
      (ucast (ucast (i AND mask 8) :: u8) :: u16)) n = bit i n"
    by (cases "n < 8") (auto simp: bit_simps)
qed

lemma VTableId_parts [simp]:
  "VTableId_col (VTableId_new c t) = c"
  "VTableId_size_tier (VTableId_new c t) = t"
  by (simp_all only: VTableId_col_def VTableId_size_tier_def VTableId_new_def
      VTableId_as_u16.simps pack_upper pack_lower)

lemma VTableId_new_parts [simp]: "VTableId_new (VTableId_col i) (VTableId_size_tier i) = i"
  by (cases i) (simp only: VTableId_col_def VTableId_size_tier_def VTableId_new_def
      VTableId_as_u16.simps unpack_pack)

lemma ITableId_parts [simp]:
  "ITableId_col (ITableId_new c t) = c"
  "ITableId_index_bits (ITableId_new c t) = t"
  by (simp_all only: ITableId_col_def ITableId_index_bits_def ITableId_new_def
      ITableId_as_u16.simps pack_upper pack_lower)

lemma ITableId_new_parts [simp]: "ITableId_new (ITableId_col i) (ITableId_index_bits i) = i"
  by (cases i) (simp only: ITableId_col_def ITableId_index_bits_def ITableId_new_def
      ITableId_as_u16.simps unpack_pack)


section \<open>File names belong to one column\<close>

lemma starts_with_append [simp]: "starts_with p (p @ s)"
  by (simp add: starts_with_def)

lemma dec02_no_underscore: "CHR ''_'' \<notin> set (dec02 n)"
proof -
  have "CHR ''_'' \<noteq> digit 0" by (simp add: digit_def)
  then show ?thesis using dec_notin [of "CHR ''_''" n] by (auto simp: dec02_def)
qed

lemma append_sep_unique:
  assumes "xs @ c # us = ys @ c # vs" and "c \<notin> set xs" and "c \<notin> set ys"
  shows "xs = ys"
  using assms
proof (induction xs arbitrary: ys)
  case Nil
  then show ?case by (cases ys) auto
next
  case (Cons x xs)
  then show ?case by (cases ys) auto
qed

lemma column_prefix_unique:
  assumes "starts_with (p @ dec02 m @ ''_'') (p @ dec02 n @ ''_'' @ s)"
  shows "m = n"
proof -
  define q where "q = p @ dec02 m @ ''_''"
  define t where "t = p @ dec02 n @ ''_'' @ s"
  from assms have "t = q @ drop (length q) t"
    using append_take_drop_id [of "length q" t] by (simp add: starts_with_def q_def t_def)
  then obtain r where "t = q @ r" ..
  then have "dec02 n @ CHR ''_'' # s = dec02 m @ CHR ''_'' # r"
    by (simp add: q_def t_def)
  then have "dec02 n = dec02 m"
    by (rule append_sep_unique) (rule dec02_no_underscore)+
  then show ?thesis by (simp add: dec02_inject)
qed

lemma VTableId_file_name_column:
  "VTableId_is_file_name col (VTableId_file_name t) \<longleftrightarrow> col = VTableId_col t"
proof
  assume "VTableId_is_file_name col (VTableId_file_name t)"
  then have "unat col = unat (VTableId_col t)"
    unfolding VTableId_is_file_name_def VTableId_file_name_def by (rule column_prefix_unique)
  then show "col = VTableId_col t" by (simp add: unsigned_word_eqI)
next
  assume "col = VTableId_col t"
  then show "VTableId_is_file_name col (VTableId_file_name t)"
    using starts_with_append [of "''table_'' @ dec02 (unat col) @ ''_''"]
    by (simp add: VTableId_is_file_name_def VTableId_file_name_def)
qed

lemma ITableId_file_name_column:
  "ITableId_is_file_name col (ITableId_file_name t) \<longleftrightarrow> col = ITableId_col t"
proof
  assume "ITableId_is_file_name col (ITableId_file_name t)"
  then have "unat col = unat (ITableId_col t)"
    unfolding ITableId_is_file_name_def ITableId_file_name_def by (rule column_prefix_unique)
  then show "col = ITableId_col t" by (simp add: unsigned_word_eqI)
next
  assume "col = ITableId_col t"
  then show "ITableId_is_file_name col (ITableId_file_name t)"
    using starts_with_append [of "''index_'' @ dec02 (unat col) @ ''_''"]
    by (simp add: ITableId_is_file_name_def ITableId_file_name_def)
qed


section \<open>Interface: identifiers the log can store\<close>

text \<open>
  The log stores an identifier as two bytes and rebuilds it from them; several tables share
  one directory, so distinct identifiers must have distinct file names.
\<close>

locale stored_id =
  fixes as_u16 :: "'id \<Rightarrow> u16"
    and of_u16 :: "u16 \<Rightarrow> 'id"
    and name :: "'id \<Rightarrow> string"
  assumes of_as: "of_u16 (as_u16 i) = i"
    and as_of: "as_u16 (of_u16 w) = w"
    and name_inj: "name i = name j \<Longrightarrow> i = j"
begin

lemma stored_id_roundtrip: "of_u16 (from_le (to_le 2 (as_u16 i))) = i"
  by (simp add: of_as)

lemma stored_bytes_inject: "to_le 2 (as_u16 i) = to_le 2 (as_u16 j) \<longleftrightarrow> i = j"
  using stored_id_roundtrip by metis

end

lemma VTableId_file_name_inject: "VTableId_file_name i = VTableId_file_name j \<Longrightarrow> i = j"
proof -
  assume eq: "VTableId_file_name i = VTableId_file_name j"
  then have col: "VTableId_col i = VTableId_col j"
    by (metis VTableId_file_name_column)
  with eq have "hex [VTableId_size_tier i] = hex [VTableId_size_tier j]"
    by (simp add: VTableId_file_name_def)
  then have "VTableId_size_tier i = VTableId_size_tier j"
    by (simp add: hex_inject)
  with col show "i = j" by (metis VTableId_new_parts)
qed

lemma ITableId_file_name_inject: "ITableId_file_name i = ITableId_file_name j \<Longrightarrow> i = j"
proof -
  assume eq: "ITableId_file_name i = ITableId_file_name j"
  then have col: "ITableId_col i = ITableId_col j"
    by (metis ITableId_file_name_column)
  with eq have "unat (ITableId_index_bits i) = unat (ITableId_index_bits j)"
    by (simp add: ITableId_file_name_def dec_inject)
  then have "ITableId_index_bits i = ITableId_index_bits j"
    by (simp add: unsigned_word_eqI)
  with col show "i = j" by (metis ITableId_new_parts)
qed

interpretation vid: stored_id VTableId_as_u16 VTableId_from_u16 VTableId_file_name
proof unfold_locales
  show "VTableId_from_u16 (VTableId_as_u16 i) = i" for i
    by (cases i) (simp add: VTableId_from_u16_def)
qed (simp_all add: VTableId_from_u16_def VTableId_file_name_inject)

interpretation iid: stored_id ITableId_as_u16 ITableId_from_u16 ITableId_file_name
proof unfold_locales
  show "ITableId_from_u16 (ITableId_as_u16 i) = i" for i
    by (cases i) (simp add: ITableId_from_u16_def)
qed (simp_all add: ITableId_from_u16_def ITableId_file_name_inject)

end
