(* ===== verification/Table_File.thy ===== *)
theory Table_File
  imports Table_Ids
begin

text \<open>
  Files, and the value table files of \<open>src/src/file.rs\<close>. A file is its length and its bytes.
  Reads past the end fail with \<open>UnexpectedEof\<close> (\<open>read_exact_at\<close>); writes past the end and
  \<open>set_len\<close> extend with zeros. Apart from that I/O succeeds: the model has no full disk.
  Integers wrap, as in the release profile of \<open>Cargo.toml\<close>.
\<close>

section \<open>Files\<close>

record disk_file =
  flen :: nat
  fbyte :: "nat \<Rightarrow> u8"

definition file_new :: disk_file where
  "file_new = \<lparr>flen = 0, fbyte = (\<lambda>_. 0)\<rparr>"

definition file_bytes :: "disk_file \<Rightarrow> nat \<Rightarrow> nat \<Rightarrow> bytes" where
  "file_bytes f off n = map (fbyte f) [off..<off + n]"

definition file_set_len :: "nat \<Rightarrow> disk_file \<Rightarrow> disk_file" where
  "file_set_len n f = \<lparr>flen = n, fbyte = (\<lambda>i. if i < flen f \<and> i < n then fbyte f i else 0)\<rparr>"

definition file_read_at :: "disk_file \<Rightarrow> nat \<Rightarrow> nat \<Rightarrow> bytes res" where
  "file_read_at f off n =
     (if off + n \<le> flen f then Inr (file_bytes f off n) else Inl (Err (Io UnexpectedEof)))"

definition file_write_at :: "disk_file \<Rightarrow> nat \<Rightarrow> bytes \<Rightarrow> disk_file" where
  "file_write_at f off bs =
     (if bs = [] then f
      else \<lparr>flen = max (flen f) (off + length bs),
            fbyte = (\<lambda>i. if off \<le> i \<and> i < off + length bs then bs ! (i - off)
                         else if i < flen f then fbyte f i else 0)\<rparr>)"

lemma length_file_bytes [simp]: "length (file_bytes f off n) = n"
  by (simp add: file_bytes_def)

lemma take_file_bytes: "k \<le> n \<Longrightarrow> take k (file_bytes f off n) = file_bytes f off k"
  by (simp add: file_bytes_def take_map)

lemma file_bytes_write_same:
  "file_bytes (file_write_at f off bs) off (length bs) = bs"
  by (rule nth_equalityI) (auto simp: file_bytes_def file_write_at_def)

lemma file_bytes_write_other:
  assumes "o2 + n \<le> off \<or> off + length bs \<le> o2" and "o2 + n \<le> flen f"
  shows "file_bytes (file_write_at f off bs) o2 n = file_bytes f o2 n"
  using assms by (auto simp: file_bytes_def file_write_at_def)

lemma flen_write_at: "flen (file_write_at f off bs) \<ge> flen f"
  by (simp add: file_write_at_def)

lemma flen_write_at_within: "off + length bs \<le> flen f \<Longrightarrow> flen (file_write_at f off bs) = flen f"
  by (auto simp: file_write_at_def)

lemma file_bytes_set_len:
  "off + n \<le> flen f \<Longrightarrow> off + n \<le> l \<Longrightarrow> file_bytes (file_set_len l f) off n = file_bytes f off n"
  by (auto simp: file_bytes_def file_set_len_def)

lemma flen_set_len [simp]: "flen (file_set_len l f) = l"
  by (simp add: file_set_len_def)


section \<open>Value table files\<close>

definition GROW_SIZE_BYTES :: u64 where
  "GROW_SIZE_BYTES = 256 * 1024"

record TableFile =
  tf_file :: "disk_file option"
  tf_path :: string
  tf_capacity :: u64
  tf_dirty :: bool
  tf_id :: vtable_id

text \<open>
  \<open>TableFile::open\<close>; \<open>disk\<close> is the file found at the path. Note that a file that is not
  empty is opened with capacity 0.
\<close>

definition TableFile_open :: "string \<Rightarrow> disk_file option \<Rightarrow> u16 \<Rightarrow> vtable_id \<Rightarrow> TableFile res" where
  "TableFile_open path disk entry_size tid =
     (case disk of
        Some f \<Rightarrow>
          if flen f = 0 then
            if entry_size = 0 then Inl (Panic ''attempt to divide by zero'')
            else
              let capacity = 0 + GROW_SIZE_BYTES div ucast entry_size
              in Inr \<lparr>tf_file = Some (file_set_len (unat (capacity * ucast entry_size)) f),
                      tf_path = path, tf_capacity = capacity, tf_dirty = False, tf_id = tid\<rparr>
          else Inr \<lparr>tf_file = Some f, tf_path = path, tf_capacity = 0, tf_dirty = False, tf_id = tid\<rparr>
      | None \<Rightarrow>
          Inr \<lparr>tf_file = None, tf_path = path, tf_capacity = 0, tf_dirty = False, tf_id = tid\<rparr>)"

definition TableFile_read_at :: "TableFile \<Rightarrow> nat \<Rightarrow> u64 \<Rightarrow> bytes res" where
  "TableFile_read_at t len offset =
     (case tf_file t of
        None \<Rightarrow> Inl (Panic ''called Option::unwrap() on a None value'')
      | Some f \<Rightarrow> file_read_at f (unat offset) len)"

definition TableFile_write_at :: "TableFile \<Rightarrow> bytes \<Rightarrow> u64 \<Rightarrow> TableFile res" where
  "TableFile_write_at t buf offset =
     (let t1 = t\<lparr>tf_dirty := True\<rparr>
      in case tf_file t1 of
           None \<Rightarrow> Inl (Panic ''called Option::unwrap() on a None value'')
         | Some f \<Rightarrow> Inr (t1\<lparr>tf_file := Some (file_write_at f (unat offset) buf)\<rparr>))"

text \<open>\<open>TableFile::create_file\<close>: opened with \<open>create(true)\<close> when no handle exists yet.\<close>

definition TableFile_create_file :: "TableFile \<Rightarrow> disk_file" where
  "TableFile_create_file t = file_new"

definition TableFile_grow :: "TableFile \<Rightarrow> u16 \<Rightarrow> TableFile res" where
  "TableFile_grow t entry_size =
     (if entry_size = 0 then Inl (Panic ''attempt to divide by zero'')
      else
        let capacity = tf_capacity t + GROW_SIZE_BYTES div ucast entry_size;
            t1 = t\<lparr>tf_capacity := capacity\<rparr>;
            file = (case tf_file t1 of None \<Rightarrow> TableFile_create_file t1 | Some f \<Rightarrow> f)
        in Inr (t1\<lparr>tf_file := Some (file_set_len (unat (capacity * ucast entry_size)) file)\<rparr>))"

definition TableFile_flush :: "TableFile \<Rightarrow> TableFile" where
  "TableFile_flush t = (if tf_dirty t then t\<lparr>tf_dirty := False\<rparr> else t)"

text \<open>
  The loop \<open>while index >= capacity { grow }\<close> of \<open>ValueTable::enact_plan\<close>. Its state is the
  capacity, a 64-bit number, so a run of \<open>2 ^ 64\<close> iterations repeats a state and never ends.
\<close>

definition u64_states :: nat where
  "u64_states = 2 ^ 64"

primrec TableFile_grow_to :: "nat \<Rightarrow> u64 \<Rightarrow> u16 \<Rightarrow> TableFile \<Rightarrow> TableFile res" where
  "TableFile_grow_to 0 index entry_size t = Inl Diverge"
| "TableFile_grow_to (Suc n) index entry_size t =
     (if tf_capacity t \<le> index
      then and_then (TableFile_grow t entry_size) (TableFile_grow_to n index entry_size)
      else Inr t)"


section \<open>Growing\<close>

text \<open>
  The capacity and the file agree: the file holds exactly \<open>capacity\<close> entries. \<open>open\<close>
  establishes this for a new or an empty file only.
\<close>

definition tf_wf :: "u16 \<Rightarrow> TableFile \<Rightarrow> bool" where
  "tf_wf es t \<longleftrightarrow>
     (case tf_file t of
        None \<Rightarrow> tf_capacity t = 0
      | Some f \<Rightarrow> flen f = unat (tf_capacity t) * unat es)"

definition tf_len :: "TableFile \<Rightarrow> nat" where
  "tf_len t = (case tf_file t of None \<Rightarrow> 0 | Some f \<Rightarrow> flen f)"

definition tf_bytes :: "TableFile \<Rightarrow> nat \<Rightarrow> nat \<Rightarrow> bytes" where
  "tf_bytes t off n = (case tf_file t of None \<Rightarrow> [] | Some f \<Rightarrow> file_bytes f off n)"

definition grow_step :: "u16 \<Rightarrow> nat" where
  "grow_step es = 262144 div unat es"

lemma unat_grow_step: "unat (GROW_SIZE_BYTES div ucast (es :: u16)) = grow_step es"
  by (simp add: GROW_SIZE_BYTES_def grow_step_def unat_div)

lemma grow_step_pos: "0 < unat es \<Longrightarrow> 4 \<le> grow_step es"
proof -
  assume "0 < unat es"
  moreover have "unat es < 2 ^ 16"
    using unsigned_less [of es] by simp
  ultimately show ?thesis
    unfolding grow_step_def by (simp add: less_eq_div_iff_mult_less_eq)
qed

lemma TableFile_grow_ok:
  assumes wf: "tf_wf es t" and es: "0 < unat es"
    and room: "(unat (tf_capacity t) + grow_step es) * unat es < 2 ^ 64"
  obtains t' where "TableFile_grow t es = Inr t'"
    and "tf_wf es t'"
    and "unat (tf_capacity t') = unat (tf_capacity t) + grow_step es"
    and "tf_file t' \<noteq> None"
    and "\<And>off n. off + n \<le> tf_len t \<Longrightarrow> tf_bytes t' off n = tf_bytes t off n"
    and "tf_id t' = tf_id t" and "tf_path t' = tf_path t"
proof -
  let ?c = "tf_capacity t + GROW_SIZE_BYTES div ucast es"
  have "unat (tf_capacity t) + grow_step es \<le> (unat (tf_capacity t) + grow_step es) * unat es"
    using es by simp
  also note room
  finally have c: "unat ?c = unat (tf_capacity t) + grow_step es"
    by (subst unat_add_no_overflow) (simp_all add: unat_grow_step)
  have l: "unat (?c * ucast es) = (unat (tf_capacity t) + grow_step es) * unat es"
    by (subst unat_mult_no_overflow) (use room c in simp_all)
  define f where "f = (case tf_file t of None \<Rightarrow> file_new | Some f \<Rightarrow> f)"
  define t' where "t' = t\<lparr>tf_capacity := ?c, tf_file := Some (file_set_len (unat (?c * ucast es)) f)\<rparr>"
  have "es \<noteq> 0" using es by auto
  then have eq: "TableFile_grow t es = Inr t'"
    by (simp add: TableFile_grow_def t'_def f_def TableFile_create_file_def Let_def split: option.split)
  have fl: "flen f = tf_len t" "tf_file t \<noteq> None \<Longrightarrow> tf_file t = Some f"
    by (auto simp: f_def tf_len_def file_new_def split: option.splits)
  have le: "tf_len t \<le> (unat (tf_capacity t) + grow_step es) * unat es"
    using wf by (auto simp: tf_wf_def tf_len_def split: option.splits)
  show thesis
  proof (rule that [OF eq])
    show "tf_wf es t'" by (simp add: tf_wf_def t'_def l c)
    show "unat (tf_capacity t') = unat (tf_capacity t) + grow_step es" by (simp add: t'_def c)
    show "tf_file t' \<noteq> None" by (simp add: t'_def)
    fix off n assume r: "off + n \<le> tf_len t"
    show "tf_bytes t' off n = tf_bytes t off n"
    proof (cases "tf_file t")
      case None
      with r have "n = 0" by (simp add: tf_len_def)
      with None show ?thesis by (simp add: tf_bytes_def t'_def file_bytes_def)
    next
      case (Some g)
      then have "g = f" using fl(2) by simp
      have "tf_bytes t' off n = file_bytes (file_set_len (unat (?c * ucast es)) f) off n"
        by (simp add: tf_bytes_def t'_def)
      also have "\<dots> = file_bytes f off n"
        using r le fl(1) by (intro file_bytes_set_len) (simp_all only: l)
      finally show ?thesis using Some \<open>g = f\<close> by (simp add: tf_bytes_def)
    qed
  qed (simp_all add: t'_def)
qed

lemma grow_to_keeps:
  assumes "tf_wf es t" and "0 < unat es"
    and "(unat index + grow_step es) * unat es < 2 ^ 64"
    and "unat index < unat (tf_capacity t) + n * grow_step es"
  shows "\<exists>t'. TableFile_grow_to (Suc n) index es t = Inr t' \<and> tf_wf es t' \<and> index < tf_capacity t'
           \<and> (\<forall>off k. off + k \<le> tf_len t \<longrightarrow> tf_bytes t' off k = tf_bytes t off k)
           \<and> tf_len t \<le> tf_len t' \<and> tf_id t' = tf_id t \<and> tf_path t' = tf_path t"
  using assms
proof (induction n arbitrary: t)
  case 0
  then have "\<not> tf_capacity t \<le> index" by (simp add: word_le_nat_alt)
  with 0 show ?case by (auto simp: word_less_nat_alt word_le_nat_alt)
next
  case (Suc n)
  show ?case
  proof (cases "tf_capacity t \<le> index")
    case False
    with Suc.prems show ?thesis by (auto simp: not_le)
  next
    case True
    then have "unat (tf_capacity t) + grow_step es \<le> unat index + grow_step es"
      by (simp add: word_le_nat_alt)
    then have "(unat (tf_capacity t) + grow_step es) * unat es \<le> (unat index + grow_step es) * unat es"
      by (rule mult_le_mono1)
    also note Suc.prems(3)
    finally obtain t1 where t1: "TableFile_grow t es = Inr t1" "tf_wf es t1"
        "unat (tf_capacity t1) = unat (tf_capacity t) + grow_step es" "tf_file t1 \<noteq> None"
        "\<And>off n. off + n \<le> tf_len t \<Longrightarrow> tf_bytes t1 off n = tf_bytes t off n"
        "tf_id t1 = tf_id t" "tf_path t1 = tf_path t"
      by (rule TableFile_grow_ok [OF Suc.prems(1,2)]) blast
    have len: "tf_len t \<le> tf_len t1"
      using Suc.prems(1) t1(2,3) by (auto simp: tf_wf_def tf_len_def split: option.splits)
    from Suc.prems(4) t1(3) have "unat index < unat (tf_capacity t1) + n * grow_step es" by simp
    from Suc.IH [OF t1(2) Suc.prems(2,3) this] obtain t' where
      t': "TableFile_grow_to (Suc n) index es t1 = Inr t'" "tf_wf es t'" "index < tf_capacity t'"
        "\<forall>off k. off + k \<le> tf_len t1 \<longrightarrow> tf_bytes t' off k = tf_bytes t1 off k"
        "tf_len t1 \<le> tf_len t'" "tf_id t' = tf_id t1" "tf_path t' = tf_path t1"
      by blast
    have "TableFile_grow_to (Suc (Suc n)) index es t = Inr t'"
      using True t1(1) t'(1) by simp
    moreover have "\<forall>off k. off + k \<le> tf_len t \<longrightarrow> tf_bytes t' off k = tf_bytes t off k"
      using t'(4) t1(5) len by simp
    ultimately show ?thesis
      using t'(2,3,5,6,7) t1(6,7) len by auto
  qed
qed

lemma grow_to_total:
  assumes "tf_wf es t" and "0 < unat es"
    and "(unat index + grow_step es) * unat es < 2 ^ 64"
  shows "\<exists>t'. TableFile_grow_to u64_states index es t = Inr t' \<and> tf_wf es t' \<and> index < tf_capacity t'
           \<and> (\<forall>off k. off + k \<le> tf_len t \<longrightarrow> tf_bytes t' off k = tf_bytes t off k)
           \<and> tf_len t \<le> tf_len t' \<and> tf_id t' = tf_id t \<and> tf_path t' = tf_path t"
proof -
  have "unat index < 2 ^ 64" using unsigned_less [of index] by simp
  moreover have "(2 ^ 64 - 1) * 4 \<le> (2 ^ 64 - 1) * grow_step es"
    using grow_step_pos [OF assms(2)] by (rule mult_le_mono2)
  ultimately have "unat index < unat (tf_capacity t) + (2 ^ 64 - 1) * grow_step es"
    by simp
  from grow_to_keeps [OF assms this] show ?thesis
    by (simp add: u64_states_def)
qed

text \<open>
  C32: growing a table file whose length agrees with its capacity always ends, with room for
  the requested entry, and keeps every byte the file had.
\<close>

theorem TableFile_grow_to_keeps_contents:
  assumes "tf_wf es t" and "0 < unat es"
    and "(unat index + grow_step es) * unat es < 2 ^ 64"
  shows "\<exists>t'. TableFile_grow_to u64_states index es t = Inr t' \<and> tf_wf es t' \<and> index < tf_capacity t'
           \<and> (\<forall>off k. off + k \<le> tf_len t \<longrightarrow> tf_bytes t' off k = tf_bytes t off k)"
  using grow_to_total [OF assms] by blast

definition sample_file :: TableFile where
  "sample_file = \<lparr>tf_file = None, tf_path = ''table_00_00'', tf_capacity = 0, tf_dirty = False,
     tf_id = VTableId_new 0 0\<rparr>"

theorem TableFile_grow_to_keeps_contents_witness:
  "\<exists>t'. TableFile_grow_to u64_states 9000 32 sample_file = Inr t' \<and> tf_wf 32 t' \<and> 9000 < tf_capacity t'
     \<and> (\<forall>off k. off + k \<le> tf_len sample_file \<longrightarrow> tf_bytes t' off k = tf_bytes sample_file off k)"
  by (rule TableFile_grow_to_keeps_contents)
     (simp_all add: tf_wf_def sample_file_def grow_step_def)

text \<open>
  C34: reopening a table file of more than \<open>GROW_SIZE_BYTES\<close> bytes and growing it, as the first
  enacted write does, cuts the file down to its first \<open>GROW_SIZE_BYTES div entry_size\<close> entries:
  \<open>open\<close> forgets the capacity the file has.
\<close>

theorem TableFile_reopen_grow_truncates:
  assumes "262144 < flen f" and "0 < unat es"
  shows "\<exists>t t' f'. TableFile_open path (Some f) es tid = Inr t \<and> TableFile_grow t es = Inr t'
           \<and> tf_file t = Some f \<and> tf_file t' = Some f'
           \<and> flen f' = grow_step es * unat es \<and> flen f' < flen f"
proof -
  have "grow_step es * unat es \<le> 262144"
    by (simp add: grow_step_def)
  then have l: "unat (GROW_SIZE_BYTES div ucast es * ucast es) = grow_step es * unat es"
    by (subst unat_mult_no_overflow) (simp_all add: unat_grow_step)
  have "es \<noteq> 0" using assms(2) by auto
  with assms l \<open>grow_step es * unat es \<le> 262144\<close> show ?thesis
    by (auto simp: TableFile_open_def TableFile_grow_def Let_def)
qed

theorem TableFile_reopen_grow_truncates_witness:
  "\<exists>t t' f'. TableFile_open ''table_00_00'' (Some (file_set_len 524288 file_new)) 32 (VTableId_new 0 0) = Inr t
     \<and> TableFile_grow t 32 = Inr t' \<and> tf_file t = Some (file_set_len 524288 file_new)
     \<and> tf_file t' = Some f' \<and> flen f' = grow_step 32 * unat (32 :: u16)
     \<and> flen f' < flen (file_set_len 524288 file_new)"
  by (rule TableFile_reopen_grow_truncates) simp_all

end
