(* ===== verification/Log_Record.thy ===== *)
theory Log_Record
  imports Table_File
begin

text \<open>
  The first half of \<open>src/src/log.rs\<close>: what one log record is. The overlays keep the table
  pages that are logged but not yet enacted; a \<open>LogWriter\<close> collects the pages one record
  changes, \<open>LogChange::to_file\<close> writes them out, a \<open>LogReader\<close> reads them back action by
  action. Everything that queries pages goes through the trait \<open>LogQuery\<close>, here a record of
  its two methods and a locale with what its users rely on; the overlays and the writer are
  its two interpretations. The checksum (crate \<open>crc32fast\<close>) is a parameter \<open>crc\<close>, a function
  of the bytes hashed so far.
\<close>

section \<open>Actions, overlays and queries\<close>

datatype LogAction =
    BeginRecord
  | InsertIndex itable_id u64
  | InsertValue vtable_id u64
  | DropTable itable_id
  | EndRecord

type_synonym IndexLogOverlay = "(u64, u64 \<times> u64 \<times> bytes) hmap"
type_synonym ValueLogOverlay = "(u64, u64 \<times> bytes) hmap"

record LogOverlays =
  ov_index :: "(itable_id, IndexLogOverlay) hmap"
  ov_value :: "(vtable_id, ValueLogOverlay) hmap"

definition LogOverlays_default :: LogOverlays where
  "LogOverlays_default = \<lparr>ov_index = [], ov_value = []\<rparr>"

text \<open>
  \<open>LogQuery\<close>: \<open>with_index\<close> hands the overlaid chunk to the caller's closure (here: returns it);
  \<open>value\<close> copies as much of the overlaid entry as fits in a destination of \<open>n\<close> bytes.
\<close>

record LogQuery =
  q_with_index :: "itable_id \<Rightarrow> u64 \<Rightarrow> bytes option"
  q_value :: "vtable_id \<Rightarrow> u64 \<Rightarrow> nat \<Rightarrow> bytes option"

definition LogOverlays_with_index :: "LogOverlays \<Rightarrow> itable_id \<Rightarrow> u64 \<Rightarrow> bytes option" where
  "LogOverlays_with_index ov table index =
     (case map_of (ov_index ov) table of
        None \<Rightarrow> None
      | Some o' \<Rightarrow> map_option (\<lambda>(_, _, data). data) (map_of o' index))"

definition LogOverlays_value :: "LogOverlays \<Rightarrow> vtable_id \<Rightarrow> u64 \<Rightarrow> nat \<Rightarrow> bytes option" where
  "LogOverlays_value ov table index n =
     (case (case map_of (ov_value ov) table of
              None \<Rightarrow> None
            | Some o' \<Rightarrow> map_option (\<lambda>(_, data). data) (map_of o' index)) of
        Some d \<Rightarrow> (let len = min n (length d) in Some (take len d))
      | None \<Rightarrow> None)"

definition LogOverlays_query :: "LogOverlays \<Rightarrow> LogQuery" where
  "LogOverlays_query ov =
     \<lparr>q_with_index = LogOverlays_with_index ov, q_value = LogOverlays_value ov\<rparr>"


section \<open>Changes of one record\<close>

record LogChange =
  lc_local_index :: "(itable_id, IndexLogOverlay) hmap"
  lc_local_values :: "(vtable_id, ValueLogOverlay) hmap"
  lc_record_id :: u64
  lc_dropped_tables :: "itable_id list"

definition LogChange_new :: "u64 \<Rightarrow> LogChange" where
  "LogChange_new record_id =
     \<lparr>lc_local_index = [], lc_local_values = [], lc_record_id = record_id, lc_dropped_tables = []\<rparr>"

text \<open>
  \<open>mask.trailing_zeros()\<close> and the loop
  \<open>while mask != 0 { let i = mask.trailing_zeros(); mask = mask & !(1 << i); ... }\<close>
  that the writer, the enactor and the validator share: the list of the \<open>i\<close> it visits.
\<close>

definition trailing_zeros :: "u64 \<Rightarrow> nat" where
  "trailing_zeros m = length (takeWhile (\<lambda>i. \<not> bit m i) [0..<64])"

lemma trailing_zeros_bit:
  assumes "m \<noteq> 0"
  shows "trailing_zeros m < 64" and "bit m (trailing_zeros m)"
    and "\<And>i. i < trailing_zeros m \<Longrightarrow> \<not> bit m i"
proof -
  from assms obtain k where "bit m k"
    using bit_eq_iff [of m 0] by auto
  then have k: "k \<in> set [0..<64]" "\<not> \<not> bit m k"
    using bit_imp_le_length [of m k] by auto
  have "takeWhile (\<lambda>i. \<not> bit m i) [0..<64] \<noteq> [0..<64]"
    using k takeWhile_eq_all_conv [of "\<lambda>i. \<not> bit m i" "[0..<64]"] by blast
  then have lt: "trailing_zeros m < length [0..<64::nat]"
    unfolding trailing_zeros_def using length_takeWhile_le [of "\<lambda>i. \<not> bit m i" "[0..<64]"]
    by (metis append_self_conv le_neq_implies_less length_append takeWhile_dropWhile_id
        add_cancel_right_right length_0_conv)
  then show "trailing_zeros m < 64" by simp
  have "\<not> \<not> bit m ([0..<64] ! trailing_zeros m)"
    unfolding trailing_zeros_def by (rule nth_length_takeWhile) (use lt in \<open>simp add: trailing_zeros_def\<close>)
  then show "bit m (trailing_zeros m)"
    using lt by simp
  fix i assume i: "i < trailing_zeros m"
  then have "takeWhile (\<lambda>i. \<not> bit m i) [0..<64] ! i = i"
    using takeWhile_nth [of i "\<lambda>i. \<not> bit m i" "[0..<64]"] lt by (simp add: trailing_zeros_def)
  then show "\<not> bit m i"
    using i nth_mem [of i "takeWhile (\<lambda>i. \<not> bit m i) [0..<64]"]
    by (auto simp: trailing_zeros_def dest: set_takeWhileD)
qed

lemma clear_bit_less:
  assumes "bit m i"
  shows "m AND NOT (2 ^ i) < (m :: 'a::len word)"
proof -
  have "\<not> bit (m AND NOT (2 ^ i)) i"
    using bit_imp_le_length [OF assms] by (simp add: bit_simps)
  with assms have "m AND NOT (2 ^ i) \<noteq> m" by auto
  moreover have "m AND NOT (2 ^ i) \<le> m"
    by (rule word_and_le2)
  ultimately show ?thesis by simp
qed

function mask_indices :: "u64 \<Rightarrow> nat list" where
  "mask_indices msk =
     (if msk = 0 then []
      else let i = trailing_zeros msk in i # mask_indices (msk AND NOT (push_bit i 1)))"
  by pat_completeness auto
termination
  by (relation "measure unat")
     (auto simp: clear_bit_less trailing_zeros_bit simp flip: word_less_nat_alt)

declare mask_indices.simps [simp del]

text \<open>The bytes of one index chunk in a record: header, mask, and the modified entries.\<close>

definition index_entry_bytes :: "itable_id \<Rightarrow> u64 \<Rightarrow> u64 \<Rightarrow> bytes \<Rightarrow> bytes" where
  "index_entry_bytes tid index msk chunk =
     [2] @ to_le 2 (ITableId_as_u16 tid) @ to_le 8 index @ to_le 8 msk
       @ concat (map (\<lambda>i. slice_of (i * ENTRY_BYTES) ((i + 1) * ENTRY_BYTES) chunk) (mask_indices msk))"

definition value_entry_bytes :: "vtable_id \<Rightarrow> u64 \<Rightarrow> bytes \<Rightarrow> bytes" where
  "value_entry_bytes tid index value = [3] @ to_le 2 (VTableId_as_u16 tid) @ to_le 8 index @ value"

definition drop_entry_bytes :: "itable_id \<Rightarrow> bytes" where
  "drop_entry_bytes tid = [5] @ to_le 2 (ITableId_as_u16 tid)"

text \<open>
  \<open>LogChange::to_file\<close>: the bytes appended to the log file and their number. The closure
  \<open>write\<close> hashes what it writes, so the checksum covers everything up to and including the
  end marker.
\<close>

definition LogChange_body :: "LogChange \<Rightarrow> bytes" where
  "LogChange_body lc =
     [1] @ to_le 8 (lc_record_id lc)
     @ concat (map (\<lambda>(tid, overlay).
         concat (map (\<lambda>(index, (_, msk, chunk)). index_entry_bytes tid index msk chunk) overlay))
         (lc_local_index lc))
     @ concat (map (\<lambda>(tid, overlay).
         concat (map (\<lambda>(index, (_, value)). value_entry_bytes tid index value) overlay))
         (lc_local_values lc))
     @ concat (map drop_entry_bytes (lc_dropped_tables lc))
     @ [4]"

definition LogChange_to_file :: "(bytes \<Rightarrow> u32) \<Rightarrow> LogChange \<Rightarrow> bytes \<times> u64" where
  "LogChange_to_file crc lc =
     (let body = LogChange_body lc;
          bytes = of_nat (length body)
      in (body @ to_le 4 (crc body), bytes + 4))"


section \<open>The writer\<close>

record LogWriter =
  lw_overlays :: LogOverlays
  lw_log :: LogChange

definition LogWriter_new :: "LogOverlays \<Rightarrow> u64 \<Rightarrow> LogWriter" where
  "LogWriter_new overlays record_id =
     \<lparr>lw_overlays = overlays, lw_log = LogChange_new record_id\<rparr>"

definition LogWriter_record_id :: "LogWriter \<Rightarrow> u64" where
  "LogWriter_record_id w = lc_record_id (lw_log w)"

text \<open>\<open>map.entry(k).or_default()\<close>.\<close>

definition entry_or_default :: "('k, 'v list) hmap \<Rightarrow> 'k \<Rightarrow> 'v list" where
  "entry_or_default m k = (case map_of m k of None \<Rightarrow> [] | Some v \<Rightarrow> v)"

definition LogWriter_insert_index ::
    "LogWriter \<Rightarrow> itable_id \<Rightarrow> u64 \<Rightarrow> u8 \<Rightarrow> bytes \<Rightarrow> LogWriter" where
  "LogWriter_insert_index w table index sub data =
     (let lc = lw_log w;
          overlay = entry_or_default (lc_local_index lc) table;
          new = (case map_of overlay index of
                   Some (_, msk, _) \<Rightarrow> (lc_record_id lc, msk OR push_bit (unat sub) 1, data)
                 | None \<Rightarrow> (lc_record_id lc, push_bit (unat sub) 1, data))
      in w\<lparr>lw_log := lc\<lparr>lc_local_index :=
             AList.update table (AList.update index new overlay) (lc_local_index lc)\<rparr>\<rparr>)"

definition LogWriter_insert_value :: "LogWriter \<Rightarrow> vtable_id \<Rightarrow> u64 \<Rightarrow> bytes \<Rightarrow> LogWriter" where
  "LogWriter_insert_value w table index data =
     (let lc = lw_log w;
          overlay = entry_or_default (lc_local_values lc) table
      in w\<lparr>lw_log := lc\<lparr>lc_local_values :=
             AList.update table (AList.update index (lc_record_id lc, data) overlay)
               (lc_local_values lc)\<rparr>\<rparr>)"

definition LogWriter_drop_table :: "LogWriter \<Rightarrow> itable_id \<Rightarrow> LogWriter" where
  "LogWriter_drop_table w tid =
     w\<lparr>lw_log := (lw_log w)\<lparr>lc_dropped_tables := lc_dropped_tables (lw_log w) @ [tid]\<rparr>\<rparr>"

definition LogWriter_drain :: "LogWriter \<Rightarrow> LogChange" where
  "LogWriter_drain w = lw_log w"

text \<open>\<open>impl LogQuery for LogWriter\<close>: the pages of this record first, then the overlays.\<close>

definition LogWriter_with_index :: "LogWriter \<Rightarrow> itable_id \<Rightarrow> u64 \<Rightarrow> bytes option" where
  "LogWriter_with_index w table index =
     (case (case map_of (lc_local_index (lw_log w)) table of
              None \<Rightarrow> None
            | Some o' \<Rightarrow> map_option (\<lambda>(_, _, data). data) (map_of o' index)) of
        Some data \<Rightarrow> Some data
      | None \<Rightarrow> LogOverlays_with_index (lw_overlays w) table index)"

definition LogWriter_value :: "LogWriter \<Rightarrow> vtable_id \<Rightarrow> u64 \<Rightarrow> nat \<Rightarrow> bytes option" where
  "LogWriter_value w table index n =
     (case (case map_of (lc_local_values (lw_log w)) table of
              None \<Rightarrow> None
            | Some o' \<Rightarrow> map_option (\<lambda>(_, data). data) (map_of o' index)) of
        Some d \<Rightarrow> (let len = min n (length d) in Some (take len d))
      | None \<Rightarrow> LogOverlays_value (lw_overlays w) table index n)"

definition LogWriter_query :: "LogWriter \<Rightarrow> LogQuery" where
  "LogWriter_query w =
     \<lparr>q_with_index = LogWriter_with_index w, q_value = LogWriter_value w\<rparr>"



section \<open>The reader\<close>

record Cleared =
  cl_index :: "(itable_id \<times> u64) list"
  cl_values :: "(vtable_id \<times> u64) list"

definition Cleared_default :: Cleared where
  "Cleared_default = \<lparr>cl_index = [], cl_values = []\<rparr>"

text \<open>\<open>LogReader\<close>: the file with its position, and the bytes hashed since the last reset.\<close>

record LogReader =
  lr_file :: bytes
  lr_pos :: nat
  lr_record_id :: u64
  lr_read_bytes :: u64
  lr_crc32 :: bytes
  lr_validate :: bool
  lr_cleared :: Cleared

definition LogReader_new :: "bytes \<Rightarrow> nat \<Rightarrow> bool \<Rightarrow> LogReader" where
  "LogReader_new file pos validate =
     \<lparr>lr_file = file, lr_pos = pos, lr_record_id = 0, lr_read_bytes = 0, lr_crc32 = [],
      lr_validate = validate, lr_cleared = Cleared_default\<rparr>"

text \<open>\<open>LogReader::reset\<close> seeks back by the bytes read.\<close>

definition LogReader_reset :: "LogReader \<Rightarrow> LogReader" where
  "LogReader_reset r =
     r\<lparr>lr_cleared := Cleared_default, lr_pos := lr_pos r - unat (lr_read_bytes r),
       lr_read_bytes := 0, lr_record_id := 0, lr_crc32 := []\<rparr>"

text \<open>
  \<open>read_exact\<close> of \<open>n\<close> bytes, counted but not hashed; \<open>LogReader::read\<close> and the closure
  \<open>read_buf\<close> also hash them when validating.
\<close>

definition LogReader_read_exact :: "LogReader \<Rightarrow> nat \<Rightarrow> (bytes \<times> LogReader) res" where
  "LogReader_read_exact r n =
     (if n \<le> length (lr_file r) - lr_pos r
      then Inr (slice_of (lr_pos r) (lr_pos r + n) (lr_file r),
                r\<lparr>lr_pos := lr_pos r + n, lr_read_bytes := lr_read_bytes r + of_nat n\<rparr>)
      else Inl (Err (Io UnexpectedEof)))"

definition LogReader_read :: "LogReader \<Rightarrow> nat \<Rightarrow> (bytes \<times> LogReader) res" where
  "LogReader_read r n =
     and_then (LogReader_read_exact r n) (\<lambda>(buf, r1).
       Inr (buf, if lr_validate r1 then r1\<lparr>lr_crc32 := lr_crc32 r1 @ buf\<rparr> else r1))"

definition LogReader_next :: "(bytes \<Rightarrow> u32) \<Rightarrow> LogReader \<Rightarrow> (LogAction \<times> LogReader) res" where
  "LogReader_next crc r0 =
     and_then (LogReader_read r0 1) (\<lambda>(tag, r).
       if hd tag = 1 then
         and_then (LogReader_read r 8) (\<lambda>(buf, r).
           Inr (BeginRecord, r\<lparr>lr_record_id := from_le buf\<rparr>))
       else if hd tag = 2 then
         and_then (LogReader_read r 2) (\<lambda>(buf, r).
           let table = ITableId_from_u16 (from_le buf)
           in and_then (LogReader_read r 8) (\<lambda>(buf, r).
             let index = from_le buf;
                 cl = lr_cleared r
             in Inr (InsertIndex table index,
                     r\<lparr>lr_cleared := cl\<lparr>cl_index := cl_index cl @ [(table, index)]\<rparr>\<rparr>)))
       else if hd tag = 3 then
         and_then (LogReader_read r 2) (\<lambda>(buf, r).
           let table = VTableId_from_u16 (from_le buf)
           in and_then (LogReader_read r 8) (\<lambda>(buf, r).
             let index = from_le buf;
                 cl = lr_cleared r
             in Inr (InsertValue table index,
                     r\<lparr>lr_cleared := cl\<lparr>cl_values := cl_values cl @ [(table, index)]\<rparr>\<rparr>)))
       else if hd tag = 4 then
         and_then (LogReader_read_exact r 4) (\<lambda>(buf, r).
           if lr_validate r then
             let checksum = from_le buf;
                 expected = crc (lr_crc32 r);
                 r1 = r\<lparr>lr_crc32 := []\<rparr>
             in if checksum \<noteq> expected
                then Inl (Err (Corruption ''Log record CRC-32 mismatch''))
                else Inr (EndRecord, r1)
           else Inr (EndRecord, r))
       else if hd tag = 5 then
         and_then (LogReader_read r 2) (\<lambda>(buf, r).
           Inr (DropTable (ITableId_from_u16 (from_le buf)), r))
       else Inl (Err (Corruption ''Bad log entry type'')))"

definition LogReader_drain :: "LogReader \<Rightarrow> Cleared" where
  "LogReader_drain r = lr_cleared r"



section \<open>The mask loop visits exactly the set bits, in order\<close>

lemma mask_indices_eq: "mask_indices m = filter (bit m) [0..<64]"
proof (induction m rule: mask_indices.induct)
  case (1 m)
  show ?case
  proof (cases "m = 0")
    case True
    then show ?thesis by (simp add: mask_indices.simps)
  next
    case False
    define i where "i = trailing_zeros m"
    note tz = trailing_zeros_bit [OF False, folded i_def]
    have split: "[0..<64] = [0..<i] @ i # [Suc i..<64]"
      using upt_add_eq_append [of 0 i "64 - i"] upt_conv_Cons [of i 64] tz(1) by simp
    have bits: "bit (m AND NOT (2 ^ i)) j \<longleftrightarrow> bit m j \<and> j \<noteq> i" for j
      using bit_imp_le_length [of m j] by (auto simp: bit_simps)
    have "mask_indices m = i # filter (bit (m AND NOT (2 ^ i))) [0..<64]"
      using "1.IH" False by (subst mask_indices.simps) (simp add: i_def Let_def)
    also have "filter (bit (m AND NOT (2 ^ i))) [0..<64] = filter (bit m) [Suc i..<64]"
    proof -
      have "filter (bit (m AND NOT (2 ^ i))) [0..<i] = []"
        using tz(3) by (simp add: bits filter_empty_conv)
      moreover have "filter (bit (m AND NOT (2 ^ i))) [Suc i..<64] = filter (bit m) [Suc i..<64]"
        by (rule filter_cong) (auto simp: bits)
      ultimately show ?thesis
        unfolding split by (simp add: bits)
    qed
    also have "i # filter (bit m) [Suc i..<64] = filter (bit m) [0..<64]"
      unfolding split using tz(2,3) by (simp add: filter_empty_conv)
    finally show ?thesis .
  qed
qed

lemma mask_indices_less: "i \<in> set (mask_indices m) \<Longrightarrow> i < 64"
  by (simp add: mask_indices_eq)


section \<open>Interface: querying pages\<close>

text \<open>What the tables rely on when they read an entry through a \<open>LogQuery\<close>.\<close>

locale log_query =
  fixes q :: LogQuery
    and stored :: "vtable_id \<Rightarrow> u64 \<Rightarrow> bytes option"
  assumes value_stored: "q_value q t i n = map_option (take n) (stored t i)"
begin

lemma value_None [simp]: "stored t i = None \<Longrightarrow> q_value q t i n = None"
  by (simp add: value_stored)

lemma value_Some [simp]: "stored t i = Some d \<Longrightarrow> q_value q t i n = Some (take n d)"
  by (simp add: value_stored)

end

definition overlays_stored :: "LogOverlays \<Rightarrow> vtable_id \<Rightarrow> u64 \<Rightarrow> bytes option" where
  "overlays_stored ov t i =
     (case map_of (ov_value ov) t of None \<Rightarrow> None | Some o' \<Rightarrow> map_option snd (map_of o' i))"

definition writer_stored :: "LogWriter \<Rightarrow> vtable_id \<Rightarrow> u64 \<Rightarrow> bytes option" where
  "writer_stored w t i =
     (case map_of (lc_local_values (lw_log w)) t of
        None \<Rightarrow> overlays_stored (lw_overlays w) t i
      | Some o' \<Rightarrow>
          (case map_of o' i of
             None \<Rightarrow> overlays_stored (lw_overlays w) t i
           | Some (_, d) \<Rightarrow> Some d))"

lemma take_min_length [simp]: "take (min n (length d)) d = take n d"
  by (simp add: min_def)

lemma LogOverlays_value_stored:
  "LogOverlays_value ov t i n = map_option (take n) (overlays_stored ov t i)"
  by (auto simp: LogOverlays_value_def overlays_stored_def Let_def split: option.splits)

lemma LogWriter_value_stored:
  "LogWriter_value w t i n = map_option (take n) (writer_stored w t i)"
  by (auto simp: LogWriter_value_def writer_stored_def LogOverlays_value_stored Let_def
      split: option.splits)

interpretation ovq: log_query "LogOverlays_query ov" "overlays_stored ov" for ov
  by unfold_locales (simp add: LogOverlays_query_def LogOverlays_value_stored)

interpretation lwq: log_query "LogWriter_query w" "writer_stored w" for w
  by unfold_locales (simp add: LogWriter_query_def LogWriter_value_stored)


section \<open>Interface: storing pages\<close>

text \<open>What the tables rely on when they log a page: it is what they read back, and no other
  page changes.\<close>

locale page_store =
  fixes get :: "'s \<Rightarrow> 't \<Rightarrow> u64 \<Rightarrow> bytes option"
    and put :: "'s \<Rightarrow> 't \<Rightarrow> u64 \<Rightarrow> 'x \<Rightarrow> bytes \<Rightarrow> 's"
  assumes get_put: "get (put s t i x d) t' i' = (if t' = t \<and> i' = i then Some d else get s t' i')"
begin

lemma get_put_same [simp]: "get (put s t i x d) t i = Some d"
  by (simp add: get_put)

lemma get_put_other [simp]: "t' \<noteq> t \<or> i' \<noteq> i \<Longrightarrow> get (put s t i x d) t' i' = get s t' i'"
  by (auto simp: get_put)

lemma get_put_fun: "get (put s t i x d) t = (get s t)(i \<mapsto> d)"
  by (rule ext) (simp add: get_put)

end

lemma writer_stored_insert_value:
  "writer_stored (LogWriter_insert_value w t i d) t' i' =
     (if t' = t \<and> i' = i then Some d else writer_stored w t' i')"
  by (auto simp: writer_stored_def LogWriter_insert_value_def entry_or_default_def Let_def
      update_conv' split: option.splits)

lemma LogWriter_with_index_insert_index:
  "LogWriter_with_index (LogWriter_insert_index w t i sub d) t' i' =
     (if t' = t \<and> i' = i then Some d else LogWriter_with_index w t' i')"
  by (auto simp: LogWriter_with_index_def LogWriter_insert_index_def entry_or_default_def Let_def
      update_conv' split: option.splits)

interpretation vpages: page_store writer_stored "\<lambda>w t i (_ :: unit) d. LogWriter_insert_value w t i d"
  by unfold_locales (rule writer_stored_insert_value)

interpretation ipages: page_store LogWriter_with_index "\<lambda>w t i sub d. LogWriter_insert_index w t i sub d"
  by unfold_locales (rule LogWriter_with_index_insert_index)

lemma LogWriter_with_index_insert_value [simp]:
  "LogWriter_with_index (LogWriter_insert_value w t i d) = LogWriter_with_index w"
  by (intro ext) (simp add: LogWriter_with_index_def LogWriter_insert_value_def Let_def
      split: option.split)

lemma writer_stored_insert_index [simp]:
  "writer_stored (LogWriter_insert_index w t i sub d) = writer_stored w"
  by (intro ext) (simp add: writer_stored_def LogWriter_insert_index_def Let_def
      split: option.split)


lemma LogWriter_insert_frames [simp]:
  "lw_overlays (LogWriter_insert_value w t i d) = lw_overlays w"
  "lw_overlays (LogWriter_insert_index w ti i sub d) = lw_overlays w"
  "LogWriter_record_id (LogWriter_insert_value w t i d) = LogWriter_record_id w"
  "LogWriter_record_id (LogWriter_insert_index w ti i sub d) = LogWriter_record_id w"
  by (simp_all add: LogWriter_insert_value_def LogWriter_insert_index_def LogWriter_record_id_def Let_def)


section \<open>Reading a record back\<close>

text \<open>The bytes the reader has not consumed, and the reader after consuming some of them.\<close>

definition reader_rest :: "LogReader \<Rightarrow> bytes" where
  "reader_rest r = drop (lr_pos r) (lr_file r)"

definition advance :: "LogReader \<Rightarrow> bytes \<Rightarrow> LogReader" where
  "advance r xs =
     r\<lparr>lr_pos := lr_pos r + length xs, lr_read_bytes := lr_read_bytes r + of_nat (length xs),
       lr_crc32 := (if lr_validate r then lr_crc32 r @ xs else lr_crc32 r)\<rparr>"

lemma advance_simps [simp]:
  "lr_validate (advance r xs) = lr_validate r"
  "lr_record_id (advance r xs) = lr_record_id r"
  "lr_cleared (advance r xs) = lr_cleared r"
  "lr_file (advance r xs) = lr_file r"
  "lr_read_bytes (advance r xs) = lr_read_bytes r + of_nat (length xs)"
  by (simp_all add: advance_def)

lemma advance_advance [simp]: "advance (advance r xs) ys = advance r (xs @ ys)"
  by (simp add: advance_def add.assoc)

lemma advance_Nil [simp]: "advance r [] = r"
  by (simp add: advance_def)

lemma reader_rest_advance: "reader_rest r = xs @ ys \<Longrightarrow> reader_rest (advance r xs) = ys"
  unfolding reader_rest_def advance_def by (simp, subst add.commute, simp flip: drop_drop)

lemma reader_rest_update [simp]:
  "reader_rest (r\<lparr>lr_record_id := x\<rparr>) = reader_rest r"
  "reader_rest (r\<lparr>lr_cleared := c\<rparr>) = reader_rest r"
  "reader_rest (r\<lparr>lr_crc32 := b\<rparr>) = reader_rest r"
  by (simp_all add: reader_rest_def)

lemma LogReader_read_rest:
  assumes "reader_rest r = xs @ ys" and "n = length xs"
  shows "LogReader_read r n = Inr (xs, advance r xs)"
proof -
  have "length (drop (lr_pos r) (lr_file r)) = length xs + length ys"
    using assms(1) by (simp add: reader_rest_def)
  moreover have "slice_of (lr_pos r) (lr_pos r + length xs) (lr_file r) = xs"
    using assms(1) by (simp add: slice_of_def reader_rest_def)
  ultimately show ?thesis
    using assms(2) by (auto simp: LogReader_read_def LogReader_read_exact_def advance_def)
qed

lemma LogReader_read_short:
  assumes "length (reader_rest r) < n"
  shows "LogReader_read r n = Inl (Err (Io UnexpectedEof))"
  using assms by (auto simp: LogReader_read_def LogReader_read_exact_def reader_rest_def)

lemma LogReader_next_begin:
  assumes "reader_rest r = 1 # to_le 8 rid @ ys"
  shows "LogReader_next crc r =
           Inr (BeginRecord, (advance r (1 # to_le 8 rid))\<lparr>lr_record_id := rid\<rparr>)"
proof -
  have "LogReader_read r 1 = Inr ([1], advance r [1])"
    by (rule LogReader_read_rest [where ys = "to_le 8 rid @ ys"]) (simp_all add: assms)
  moreover have "LogReader_read (advance r [1]) 8 = Inr (to_le 8 rid, advance (advance r [1]) (to_le 8 rid))"
    by (rule LogReader_read_rest [where ys = ys])
       (simp_all add: reader_rest_advance [where ys = "to_le 8 rid @ ys"] assms)
  ultimately show ?thesis
    by (simp add: LogReader_next_def)
qed

lemma LogReader_next_index:
  assumes "reader_rest r = 2 # to_le 2 (ITableId_as_u16 t) @ to_le 8 i @ ys"
  shows "LogReader_next crc r =
           Inr (InsertIndex t i,
             (advance r (2 # to_le 2 (ITableId_as_u16 t) @ to_le 8 i))\<lparr>lr_cleared :=
                (lr_cleared r)\<lparr>cl_index := cl_index (lr_cleared r) @ [(t, i)]\<rparr>\<rparr>)"
proof -
  let ?t = "to_le 2 (ITableId_as_u16 t)"
  have "LogReader_read r 1 = Inr ([2], advance r [2])"
    by (rule LogReader_read_rest [where ys = "?t @ to_le 8 i @ ys"]) (simp_all add: assms)
  moreover have "LogReader_read (advance r [2]) 2 = Inr (?t, advance (advance r [2]) ?t)"
    by (rule LogReader_read_rest [where ys = "to_le 8 i @ ys"])
       (simp_all add: reader_rest_advance [where ys = "?t @ to_le 8 i @ ys"] assms)
  moreover have "LogReader_read (advance r (2 # ?t)) 8 = Inr (to_le 8 i, advance (advance r (2 # ?t)) (to_le 8 i))"
    by (rule LogReader_read_rest [where ys = ys])
       (simp_all add: reader_rest_advance [where ys = "to_le 8 i @ ys"] assms)
  ultimately show ?thesis
    by (simp add: LogReader_next_def iid.of_as Let_def)
qed

lemma LogReader_next_value:
  assumes "reader_rest r = 3 # to_le 2 (VTableId_as_u16 t) @ to_le 8 i @ ys"
  shows "LogReader_next crc r =
           Inr (InsertValue t i,
             (advance r (3 # to_le 2 (VTableId_as_u16 t) @ to_le 8 i))\<lparr>lr_cleared :=
                (lr_cleared r)\<lparr>cl_values := cl_values (lr_cleared r) @ [(t, i)]\<rparr>\<rparr>)"
proof -
  let ?t = "to_le 2 (VTableId_as_u16 t)"
  have "LogReader_read r 1 = Inr ([3], advance r [3])"
    by (rule LogReader_read_rest [where ys = "?t @ to_le 8 i @ ys"]) (simp_all add: assms)
  moreover have "LogReader_read (advance r [3]) 2 = Inr (?t, advance (advance r [3]) ?t)"
    by (rule LogReader_read_rest [where ys = "to_le 8 i @ ys"])
       (simp_all add: reader_rest_advance [where ys = "?t @ to_le 8 i @ ys"] assms)
  moreover have "LogReader_read (advance r (3 # ?t)) 8 = Inr (to_le 8 i, advance (advance r (3 # ?t)) (to_le 8 i))"
    by (rule LogReader_read_rest [where ys = ys])
       (simp_all add: reader_rest_advance [where ys = "to_le 8 i @ ys"] assms)
  ultimately show ?thesis
    by (simp add: LogReader_next_def vid.of_as Let_def)
qed

lemma LogReader_next_drop:
  assumes "reader_rest r = 5 # to_le 2 (ITableId_as_u16 t) @ ys"
  shows "LogReader_next crc r =
           Inr (DropTable t, advance r (5 # to_le 2 (ITableId_as_u16 t)))"
proof -
  let ?t = "to_le 2 (ITableId_as_u16 t)"
  have "LogReader_read r 1 = Inr ([5], advance r [5])"
    by (rule LogReader_read_rest [where ys = "?t @ ys"]) (simp_all add: assms)
  moreover have "LogReader_read (advance r [5]) 2 = Inr (?t, advance (advance r [5]) ?t)"
    by (rule LogReader_read_rest [where ys = ys])
       (simp_all add: reader_rest_advance [where ys = "?t @ ys"] assms)
  ultimately show ?thesis
    by (simp add: LogReader_next_def iid.of_as)
qed

text \<open>
  The end marker: without validation the checksum is skipped; with validation it must be the
  checksum of everything hashed since the last reset.
\<close>

definition finish_record :: "LogReader \<Rightarrow> LogReader" where
  "finish_record r =
     r\<lparr>lr_pos := lr_pos r + 4, lr_read_bytes := lr_read_bytes r + 4,
       lr_crc32 := (if lr_validate r then [] else lr_crc32 r)\<rparr>"

lemma LogReader_next_end:
  assumes "reader_rest r = 4 # to_le 4 c @ ys"
  shows "LogReader_next crc r =
           (if lr_validate r \<and> c \<noteq> crc (lr_crc32 r @ [4])
            then Inl (Err (Corruption ''Log record CRC-32 mismatch''))
            else Inr (EndRecord, finish_record (advance r [4])))"
proof -
  have "LogReader_read r 1 = Inr ([4], advance r [4])"
    by (rule LogReader_read_rest [where ys = "to_le 4 c @ ys"]) (simp_all add: assms)
  moreover have rest: "reader_rest (advance r [4]) = to_le 4 c @ ys"
    using assms by (intro reader_rest_advance) simp
  have "LogReader_read_exact (advance r [4]) 4 =
      Inr (to_le 4 c, (advance r [4])\<lparr>lr_pos := lr_pos (advance r [4]) + 4,
             lr_read_bytes := lr_read_bytes (advance r [4]) + 4\<rparr>)"
  proof -
    let ?r = "advance r [4]"
    have "length (drop (lr_pos ?r) (lr_file ?r)) = 4 + length ys"
      using rest by (simp add: reader_rest_def)
    moreover have "slice_of (lr_pos ?r) (lr_pos ?r + 4) (lr_file ?r) = to_le 4 c"
      using rest by (simp add: slice_of_def reader_rest_def)
    ultimately show ?thesis
      by (auto simp: LogReader_read_exact_def)
  qed
  ultimately show ?thesis
    by (simp add: LogReader_next_def finish_record_def advance_def Let_def)
qed

end
