(* ===== verification/Value_Table.thy ===== *)
theory Value_Table
  imports Log_Record
begin

text \<open>
  The value tables of \<open>src/src/table.rs\<close>: the entry buffers, the operations of \<open>ValueTable\<close>
  and the on-disk layout. This theory holds the definitions; the theory \<open>Slots\<close> relates the
  bytes of a slot to what they mean, and \<open>Value_Table_Correct\<close> states and proves what the
  operations do.

  Sizes and offsets inside a buffer (\<open>usize\<close>) are natural numbers, slot numbers, counters and
  stored fields keep their width. \<open>open\<close> asserts \<open>entry_size >= 32\<close>; subtractions from the entry
  size rely on it.
\<close>

section \<open>Constants\<close>

definition KEY_LEN :: nat where "KEY_LEN = 32"
definition SIZE_TIERS_BITS :: nat where "SIZE_TIERS_BITS = 8"
definition SIZE_TIERS :: nat where "SIZE_TIERS = 2 ^ 8"
definition COMPRESSED_MASK :: u16 where "COMPRESSED_MASK = 0x8000"
definition MAX_ENTRY_SIZE :: u16 where "MAX_ENTRY_SIZE = 0x7ff8"
definition MIN_ENTRY_SIZE :: u16 where "MIN_ENTRY_SIZE = 32"
definition REFS_SIZE :: nat where "REFS_SIZE = 4"
definition SIZE_SIZE :: nat where "SIZE_SIZE = 2"
definition PARTIAL_SIZE :: nat where "PARTIAL_SIZE = 26"
definition INDEX_SIZE :: nat where "INDEX_SIZE = 8"
definition MAX_ENTRY_BUF_SIZE :: nat where "MAX_ENTRY_BUF_SIZE = 0x8000"

definition TOMBSTONE :: bytes where "TOMBSTONE = [0xff, 0xff]"
definition MULTIPART_V4 :: bytes where "MULTIPART_V4 = [0xff, 0xfe]"
definition MULTIHEAD_V4 :: bytes where "MULTIHEAD_V4 = [0xff, 0xfd]"
definition MULTIPART :: bytes where "MULTIPART = [0xfe, 0xff]"
definition MULTIHEAD :: bytes where "MULTIHEAD = [0xfd, 0xff]"
definition LOCKED_REF :: u32 where "LOCKED_REF = - 1"

lemmas size_consts =
  REFS_SIZE_def SIZE_SIZE_def PARTIAL_SIZE_def INDEX_SIZE_def MAX_ENTRY_BUF_SIZE_def

lemmas markers = TOMBSTONE_def MULTIPART_V4_def MULTIHEAD_V4_def MULTIPART_def MULTIHEAD_def

type_synonym Key = bytes

definition partial_key :: "Key \<Rightarrow> bytes" where
  "partial_key hash = drop 6 hash"


section \<open>The header entry\<close>

definition Header_default :: bytes where
  "Header_default = replicate 16 0"

definition Header_last_removed :: "bytes \<Rightarrow> u64" where
  "Header_last_removed h = from_le (slice_of 0 INDEX_SIZE h)"

definition Header_set_last_removed :: "bytes \<Rightarrow> u64 \<Rightarrow> bytes" where
  "Header_set_last_removed h v = overwrite 0 (to_le 8 v) h"

definition Header_filled :: "bytes \<Rightarrow> u64" where
  "Header_filled h = from_le (slice_of INDEX_SIZE (INDEX_SIZE * 2) h)"

definition Header_set_filled :: "bytes \<Rightarrow> u64 \<Rightarrow> bytes" where
  "Header_set_filled h v = overwrite INDEX_SIZE (to_le 8 v) h"


section \<open>Entry buffers\<close>

text \<open>
  \<open>Entry<B>(usize, B)\<close>: a cursor into a fixed buffer that starts uninitialised. The model keeps
  the initialised prefix \<open>en_buf\<close> of the \<open>en_cap\<close> bytes; reading beyond it, which in the source
  would read uninitialised memory, is a fault, so an operation that is proved to succeed never
  does it.
\<close>

record Entry =
  en_off :: nat
  en_buf :: bytes
  en_cap :: nat

definition Entry_new_uninit :: "nat \<Rightarrow> Entry" where
  "Entry_new_uninit cap = \<lparr>en_off = 0, en_buf = [], en_cap = cap\<rparr>"

definition Entry_set_offset :: "Entry \<Rightarrow> nat \<Rightarrow> Entry" where
  "Entry_set_offset e offset = e\<lparr>en_off := offset\<rparr>"

definition Entry_write_slice :: "Entry \<Rightarrow> bytes \<Rightarrow> Entry res" where
  "Entry_write_slice e buf =
     (let start = en_off e; off = start + length buf
      in if en_cap e < off then Inl (Panic ''range end index out of range for slice'')
         else if length (en_buf e) < start then Inl (Panic ''gap of uninitialised memory'')
         else Inr (e\<lparr>en_off := off, en_buf := overwrite start buf (en_buf e)\<rparr>))"

definition Entry_read_slice :: "Entry \<Rightarrow> nat \<Rightarrow> (bytes \<times> Entry) res" where
  "Entry_read_slice e sz =
     (let start = en_off e; off = start + sz
      in if length (en_buf e) < off then Inl (Panic ''read of uninitialised memory'')
         else Inr (slice_of start off (en_buf e), e\<lparr>en_off := off\<rparr>))"

definition Entry_is_tombstone :: "Entry \<Rightarrow> bool" where
  "Entry_is_tombstone e \<longleftrightarrow> slice_of 0 SIZE_SIZE (en_buf e) = TOMBSTONE"

definition Entry_write_tombstone :: "Entry \<Rightarrow> Entry res" where
  "Entry_write_tombstone e = Entry_write_slice e TOMBSTONE"

definition Entry_is_multipart :: "Entry \<Rightarrow> bool" where
  "Entry_is_multipart e \<longleftrightarrow> slice_of 0 SIZE_SIZE (en_buf e) = MULTIPART"

definition Entry_is_multipart_v4 :: "Entry \<Rightarrow> bool" where
  "Entry_is_multipart_v4 e \<longleftrightarrow> slice_of 0 SIZE_SIZE (en_buf e) = MULTIPART_V4"

definition Entry_write_multipart :: "Entry \<Rightarrow> Entry res" where
  "Entry_write_multipart e = Entry_write_slice e MULTIPART"

definition Entry_is_multihead :: "Entry \<Rightarrow> bool" where
  "Entry_is_multihead e \<longleftrightarrow> slice_of 0 SIZE_SIZE (en_buf e) = MULTIHEAD"

definition Entry_is_multihead_v4 :: "Entry \<Rightarrow> bool" where
  "Entry_is_multihead_v4 e \<longleftrightarrow> slice_of 0 SIZE_SIZE (en_buf e) = MULTIHEAD_V4"

definition Entry_write_multihead :: "Entry \<Rightarrow> Entry res" where
  "Entry_write_multihead e = Entry_write_slice e MULTIHEAD"

definition Entry_is_multi :: "Entry \<Rightarrow> u32 \<Rightarrow> bool" where
  "Entry_is_multi e db_version \<longleftrightarrow>
     Entry_is_multipart e \<or> Entry_is_multihead e \<or>
     (db_version \<le> 4 \<and> (Entry_is_multipart_v4 e \<or> Entry_is_multihead_v4 e))"

definition Entry_read_size :: "Entry \<Rightarrow> ((u16 \<times> bool) \<times> Entry) res" where
  "Entry_read_size e =
     and_then (Entry_read_slice e SIZE_SIZE) (\<lambda>(b, e).
       let sz = from_le b :: u16;
           compressed = 0 < sz AND COMPRESSED_MASK
       in Inr ((sz AND NOT COMPRESSED_MASK, compressed), e))"

definition Entry_skip_size :: "Entry \<Rightarrow> Entry" where
  "Entry_skip_size e = e\<lparr>en_off := en_off e + SIZE_SIZE\<rparr>"

definition Entry_write_size :: "Entry \<Rightarrow> u16 \<Rightarrow> bool \<Rightarrow> Entry res" where
  "Entry_write_size e sz compressed =
     Entry_write_slice e (to_le 2 (if compressed then sz OR COMPRESSED_MASK else sz))"

definition Entry_read_next :: "Entry \<Rightarrow> (u64 \<times> Entry) res" where
  "Entry_read_next e =
     and_then (Entry_read_slice e INDEX_SIZE) (\<lambda>(b, e). Inr (from_le b, e))"

definition Entry_skip_next :: "Entry \<Rightarrow> Entry" where
  "Entry_skip_next e = e\<lparr>en_off := en_off e + INDEX_SIZE\<rparr>"

definition Entry_write_next :: "Entry \<Rightarrow> u64 \<Rightarrow> Entry res" where
  "Entry_write_next e next_index = Entry_write_slice e (to_le 8 next_index)"

definition Entry_read_rc :: "Entry \<Rightarrow> (u32 \<times> Entry) res" where
  "Entry_read_rc e =
     and_then (Entry_read_slice e REFS_SIZE) (\<lambda>(b, e). Inr (from_le b, e))"

definition Entry_skip_rc :: "Entry \<Rightarrow> Entry" where
  "Entry_skip_rc e = e\<lparr>en_off := en_off e + REFS_SIZE\<rparr>"

definition Entry_write_rc :: "Entry \<Rightarrow> u32 \<Rightarrow> Entry res" where
  "Entry_write_rc e rc = Entry_write_slice e (to_le 4 rc)"

definition Entry_read_partial :: "Entry \<Rightarrow> (bytes \<times> Entry) res" where
  "Entry_read_partial e = Entry_read_slice e PARTIAL_SIZE"

definition Entry_remaining_to :: "Entry \<Rightarrow> nat \<Rightarrow> bytes res" where
  "Entry_remaining_to e stop =
     (if stop < en_off e then Inl (Panic ''slice index starts after its end'')
      else if length (en_buf e) < stop then Inl (Panic ''read of uninitialised memory'')
      else Inr (slice_of (en_off e) stop (en_buf e)))"


section \<open>The table\<close>

record ValueTable =
  vt_id :: vtable_id
  vt_entry_size :: u16
  vt_file :: TableFile
  vt_filled :: u64
  vt_last_removed :: u64
  vt_dirty_header :: bool
  vt_multipart :: bool
  vt_ref_counted :: bool
  vt_db_version :: u32

text \<open>\<open>ValueTable::open\<close>; \<open>disk\<close> is the file found at the table's path, if any.\<close>

definition ValueTable_open ::
    "string \<Rightarrow> disk_file option \<Rightarrow> vtable_id \<Rightarrow> u16 option \<Rightarrow> bool \<Rightarrow> u32 \<Rightarrow> ValueTable res" where
  "ValueTable_open path disk tid entry_size ref_counted db_version =
     (let (multipart, entry_size) =
            (case entry_size of Some s \<Rightarrow> (False, s) | None \<Rightarrow> (True, 4096))
      in and_then (ensure (MIN_ENTRY_SIZE \<le> entry_size)
                    (Panic ''assertion failed: entry_size >= MIN_ENTRY_SIZE as u16'')) (\<lambda>_.
         and_then (ensure (db_version \<ge> 4 \<longrightarrow> entry_size \<le> MAX_ENTRY_SIZE)
                    (Panic ''assertion failed: entry_size <= MAX_ENTRY_SIZE as u16'')) (\<lambda>_.
         and_then (TableFile_open (path @ ''/'' @ VTableId_file_name tid) disk entry_size tid) (\<lambda>file.
         and_then (case tf_file file of
                     Some f \<Rightarrow>
                       and_then (file_read_at f 0 16) (\<lambda>header.
                         Inr (if Header_filled header = 0 then 1 else Header_filled header,
                              Header_last_removed header))
                   | None \<Rightarrow> Inr (1, 0)) (\<lambda>(filled, last_removed).
         Inr \<lparr>vt_id = tid, vt_entry_size = entry_size, vt_file = file, vt_filled = filled,
              vt_last_removed = last_removed, vt_dirty_header = False, vt_multipart = multipart,
              vt_ref_counted = ref_counted, vt_db_version = db_version\<rparr>)))))"

definition ValueTable_ref_size :: "ValueTable \<Rightarrow> nat" where
  "ValueTable_ref_size t = (if vt_ref_counted t then REFS_SIZE else 0)"

definition ValueTable_value_size :: "ValueTable \<Rightarrow> u16" where
  "ValueTable_value_size t =
     vt_entry_size t - of_nat SIZE_SIZE - of_nat (ValueTable_ref_size t) - of_nat PARTIAL_SIZE"

text \<open>
  Fetching a slot into a buffer of \<open>cap\<close> bytes: from the log if it is there, otherwise \<open>n\<close> bytes
  from the file.
\<close>

definition ValueTable_load :: "ValueTable \<Rightarrow> LogQuery \<Rightarrow> u64 \<Rightarrow> nat \<Rightarrow> nat \<Rightarrow> Entry res" where
  "ValueTable_load t log index cap n =
     (case q_value log (vt_id t) index cap of
        Some d \<Rightarrow> Inr \<lparr>en_off = 0, en_buf = d, en_cap = cap\<rparr>
      | None \<Rightarrow>
          and_then (TableFile_read_at (vt_file t) n (index * ucast (vt_entry_size t))) (\<lambda>d.
            Inr \<lparr>en_off = 0, en_buf = d, en_cap = cap\<rparr>))"



section \<open>Reading\<close>

text \<open>
  The loop of \<open>ValueTable::for_parts\<close>. The closure \<open>f\<close> is called on each part in turn; the
  model returns the parts in that order. Apart from what it has already read, the state of the
  loop is the slot number, so \<open>2 ^ 64\<close> iterations mean that a slot repeats and the loop runs
  for ever.
\<close>

primrec for_parts_loop ::
    "nat \<Rightarrow> ValueTable \<Rightarrow> Key option \<Rightarrow> LogQuery \<Rightarrow> u64 \<Rightarrow> nat \<Rightarrow> bool \<Rightarrow> u32 \<Rightarrow> bytes \<Rightarrow> bytes list
       \<Rightarrow> (u32 \<times> bytes \<times> bool \<times> bytes list) res" where
  "for_parts_loop 0 t key log index part compressed rc pk parts = Inl Diverge"
| "for_parts_loop (Suc n) t key log index part compressed rc pk parts =
     and_then (ValueTable_load t log index MAX_ENTRY_BUF_SIZE (unat (vt_entry_size t))) (\<lambda>buf.
       let buf = Entry_set_offset buf 0
       in if Entry_is_tombstone buf then Inr (0, replicate PARTIAL_SIZE 0, False, parts)
          else
            and_then
              (if vt_multipart t \<and> Entry_is_multi buf (vt_db_version t) then
                 and_then (Entry_read_next (Entry_skip_size buf)) (\<lambda>(next, buf).
                   Inr (unat (vt_entry_size t), next, compressed, buf))
               else
                 and_then (Entry_read_size buf) (\<lambda>((sz, read_compressed), buf).
                   Inr (en_off buf + unat sz, 0, read_compressed, buf)))
              (\<lambda>(entry_end, next, compressed, buf).
                if part = 0 then
                  and_then (if vt_ref_counted t then Entry_read_rc buf else Inr (rc, buf)) (\<lambda>(rc, buf).
                  and_then (Entry_read_partial buf) (\<lambda>(pk, buf).
                    if (case key of None \<Rightarrow> False | Some k \<Rightarrow> partial_key k \<noteq> pk)
                    then Inr (0, replicate PARTIAL_SIZE 0, False, parts)
                    else
                      and_then (Entry_remaining_to buf entry_end) (\<lambda>s.
                        if next = 0 then Inr (rc, pk, compressed, parts @ [s])
                        else for_parts_loop n t key log next (part + 1) compressed rc pk (parts @ [s]))))
                else
                  and_then (Entry_remaining_to buf entry_end) (\<lambda>s.
                    if next = 0 then Inr (rc, pk, compressed, parts @ [s])
                    else for_parts_loop n t key log next (part + 1) compressed rc pk (parts @ [s]))))"

definition ValueTable_for_parts ::
    "ValueTable \<Rightarrow> Key option \<Rightarrow> u64 \<Rightarrow> LogQuery \<Rightarrow> (u32 \<times> bytes \<times> bool \<times> bytes list) res" where
  "ValueTable_for_parts t key index log =
     for_parts_loop u64_states t key log index 0 False 1 (replicate PARTIAL_SIZE 0) []"

definition ValueTable_get :: "ValueTable \<Rightarrow> Key \<Rightarrow> u64 \<Rightarrow> LogQuery \<Rightarrow> (bytes \<times> bool) option res" where
  "ValueTable_get t key index log =
     and_then (ValueTable_for_parts t (Some key) index log) (\<lambda>(rc, _, compressed, parts).
       if 0 < rc then Inr (Some (concat parts, compressed)) else Inr None)"

definition ValueTable_get_with_meta ::
    "ValueTable \<Rightarrow> u64 \<Rightarrow> LogQuery \<Rightarrow> (bytes \<times> u32 \<times> bytes \<times> bool) option res" where
  "ValueTable_get_with_meta t index log =
     and_then (ValueTable_for_parts t None index log) (\<lambda>(rc, pkey, compressed, parts).
       if 0 < rc then Inr (Some (concat parts, rc, pkey, compressed)) else Inr None)"

definition ValueTable_size :: "ValueTable \<Rightarrow> Key \<Rightarrow> u64 \<Rightarrow> LogQuery \<Rightarrow> (u32 \<times> bool) option res" where
  "ValueTable_size t key index log =
     and_then (ValueTable_for_parts t (Some key) index log) (\<lambda>(rc, _, compressed, parts).
       let result = fold (\<lambda>buf acc. acc + of_nat (length buf)) parts 0
       in if 0 < rc then Inr (Some (result, compressed)) else Inr None)"

text \<open>\<open>partial_key_at\<close> fetches 40 bytes, whatever the entry size of the table.\<close>

definition ValueTable_partial_key_at :: "ValueTable \<Rightarrow> u64 \<Rightarrow> LogQuery \<Rightarrow> bytes option res" where
  "ValueTable_partial_key_at t index log =
     and_then (ValueTable_load t log index 40 40) (\<lambda>buf.
       if Entry_is_tombstone buf then Inr None
       else
         let multi = vt_multipart t \<and> Entry_is_multi buf (vt_db_version t);
             buf = Entry_skip_size buf;
             buf = (if multi then Entry_skip_next buf else buf);
             buf = (if vt_ref_counted t then Entry_skip_rc buf else buf)
         in and_then (Entry_read_partial buf) (\<lambda>(pk, _). Inr (Some pk)))"

definition ValueTable_has_key_at :: "ValueTable \<Rightarrow> u64 \<Rightarrow> Key \<Rightarrow> LogQuery \<Rightarrow> bool res" where
  "ValueTable_has_key_at t index key log =
     and_then (ValueTable_partial_key_at t index log) (\<lambda>r.
       Inr (case r of Some existing_key \<Rightarrow> existing_key = partial_key key | None \<Rightarrow> False))"

definition ValueTable_read_next_free :: "ValueTable \<Rightarrow> u64 \<Rightarrow> LogQuery \<Rightarrow> u64 res" where
  "ValueTable_read_next_free t index log =
     and_then (ValueTable_load t log index 10 10) (\<lambda>buf.
     and_then (Entry_read_next (Entry_skip_size buf)) (\<lambda>(next, _). Inr next))"

definition ValueTable_read_next_part :: "ValueTable \<Rightarrow> u64 \<Rightarrow> LogQuery \<Rightarrow> u64 option res" where
  "ValueTable_read_next_part t index log =
     and_then (ValueTable_load t log index 10 10) (\<lambda>buf.
       if vt_multipart t \<and> Entry_is_multi buf (vt_db_version t)
       then and_then (Entry_read_next (Entry_skip_size buf)) (\<lambda>(next, _). Inr (Some next))
       else Inr None)"


section \<open>Writing\<close>

definition ValueTable_next_free :: "ValueTable \<Rightarrow> LogWriter \<Rightarrow> (u64 \<times> ValueTable) res" where
  "ValueTable_next_free t log =
     (let filled = vt_filled t; last_removed = vt_last_removed t
      in and_then
           (if last_removed \<noteq> 0 then
              and_then (ValueTable_read_next_free t last_removed (LogWriter_query log)) (\<lambda>next_removed.
                Inr (last_removed, t\<lparr>vt_last_removed := next_removed\<rparr>))
            else Inr (filled, t\<lparr>vt_filled := filled + 1\<rparr>))
           (\<lambda>(index, t). Inr (index, t\<lparr>vt_dirty_header := True\<rparr>)))"

definition ValueTable_clear_slot :: "ValueTable \<Rightarrow> u64 \<Rightarrow> LogWriter \<Rightarrow> (ValueTable \<times> LogWriter) res" where
  "ValueTable_clear_slot t index log =
     (let last_removed = vt_last_removed t
      in and_then (Entry_write_tombstone (Entry_new_uninit 10)) (\<lambda>buf.
         and_then (Entry_write_next buf last_removed) (\<lambda>buf.
           Inr (t\<lparr>vt_last_removed := index, vt_dirty_header := True\<rparr>,
                LogWriter_insert_value log (vt_id t) index (slice_of 0 (en_off buf) (en_buf buf))))))"

text \<open>
  The loop of \<open>clear_chain\<close>. Every slot it visits becomes a tombstone, which ends the loop when
  it is met again, so it ends within \<open>2 ^ 64 + 1\<close> iterations.
\<close>

primrec clear_chain_loop :: "nat \<Rightarrow> ValueTable \<Rightarrow> u64 \<Rightarrow> LogWriter \<Rightarrow> (ValueTable \<times> LogWriter) res" where
  "clear_chain_loop 0 t index log = Inl Diverge"
| "clear_chain_loop (Suc n) t index log =
     and_then (ValueTable_read_next_part t index (LogWriter_query log)) (\<lambda>r.
       case r of
         Some next \<Rightarrow>
           and_then (ValueTable_clear_slot t index log) (\<lambda>(t, log). clear_chain_loop n t next log)
       | None \<Rightarrow> ValueTable_clear_slot t index log)"

definition ValueTable_clear_chain :: "ValueTable \<Rightarrow> u64 \<Rightarrow> LogWriter \<Rightarrow> (ValueTable \<times> LogWriter) res" where
  "ValueTable_clear_chain t index log = clear_chain_loop (Suc u64_states) t index log"


text \<open>
  The three stages of an iteration of \<open>overwrite_chain\<close>: the slot to go to next when the value
  is laid over an existing chain; the size field, or the marker with the next slot (allocated
  unless the existing chain has one), and how many bytes the slot takes; the header of the first
  slot and the bytes of the value, with the new offset into it.
\<close>

definition overwrite_next :: "ValueTable \<Rightarrow> LogWriter \<Rightarrow> u64 \<Rightarrow> bool \<Rightarrow> (u64 \<times> bool) res" where
  "overwrite_next t log index follow =
     (if follow then
        and_then (ValueTable_read_next_part t index (LogWriter_query log)) (\<lambda>r.
          case r of Some next \<Rightarrow> Inr (next, True) | None \<Rightarrow> Inr (0, False))
      else Inr (0, False))"

definition overwrite_mark ::
    "ValueTable \<Rightarrow> LogWriter \<Rightarrow> bool \<Rightarrow> u64 \<Rightarrow> bool \<Rightarrow> nat \<Rightarrow> u64 \<Rightarrow> (nat \<times> u64 \<times> ValueTable \<times> Entry) res" where
  "overwrite_mark t log compressed next_index follow remainder start =
     (let buf = Entry_new_uninit MAX_ENTRY_BUF_SIZE;
          free_space = unat (vt_entry_size t) - SIZE_SIZE
      in if free_space < remainder then
           and_then (if \<not> follow then ValueTable_next_free t log else Inr (next_index, t))
             (\<lambda>(next_index, t).
           and_then (if start = 0 then Entry_write_multihead buf else Entry_write_multipart buf)
             (\<lambda>buf.
           and_then (Entry_write_next buf next_index) (\<lambda>buf.
             if free_space < INDEX_SIZE then Inl (Panic ''attempt to subtract with overflow'')
             else Inr (free_space - INDEX_SIZE, next_index, t, buf))))
         else
           and_then (Entry_write_size buf (of_nat remainder) compressed) (\<lambda>buf.
             Inr (remainder, next_index, t, buf)))"

definition overwrite_fill ::
    "ValueTable \<Rightarrow> Key \<Rightarrow> bytes \<Rightarrow> nat \<Rightarrow> nat \<Rightarrow> Entry \<Rightarrow> (nat \<times> Entry) res" where
  "overwrite_fill t key value offset value_len buf =
     (let init_offset = en_off buf
      in and_then
           (if offset = 0 then
              and_then (if vt_ref_counted t then Entry_write_rc buf 1 else Inr buf) (\<lambda>buf.
                Entry_write_slice buf (partial_key key))
            else Inr buf)
           (\<lambda>buf.
             let written = en_off buf - init_offset
             in if value_len < written \<or> length value < offset + (value_len - written)
                then Inl (Panic ''range end index out of range for slice'')
                else
                  and_then (Entry_write_slice buf
                             (slice_of offset (offset + value_len - written) value)) (\<lambda>buf.
                    Inr (offset + (value_len - written), buf))))"

text \<open>
  The loop of \<open>overwrite_chain\<close>. Each iteration writes at least one of the \<open>remainder\<close> bytes left
  (for \<open>entry_size > 10\<close>), so as many iterations as there are bytes are enough.
\<close>

primrec overwrite_loop ::
    "nat \<Rightarrow> Key \<Rightarrow> bytes \<Rightarrow> bool \<Rightarrow> ValueTable \<Rightarrow> LogWriter \<Rightarrow> u64 \<Rightarrow> bool \<Rightarrow> nat \<Rightarrow> nat \<Rightarrow> u64
       \<Rightarrow> (u64 \<times> ValueTable \<times> LogWriter) res" where
  "overwrite_loop 0 key value compressed t log index follow offset remainder start = Inl Diverge"
| "overwrite_loop (Suc n) key value compressed t log index follow offset remainder start =
     and_then (overwrite_next t log index follow) (\<lambda>(next_index, follow).
     and_then (overwrite_mark t log compressed next_index follow remainder start)
       (\<lambda>(value_len, next_index, t, buf).
     and_then (overwrite_fill t key value offset value_len buf) (\<lambda>(offset, buf).
       let log = LogWriter_insert_value log (vt_id t) index (slice_of 0 (en_off buf) (en_buf buf));
           remainder = remainder - value_len;
           start = (if start = 0 then index else start);
           index = next_index
       in if remainder = 0 then
            and_then (if index \<noteq> 0 then ValueTable_clear_chain t index log else Inr (t, log))
              (\<lambda>(t, log). Inr (start, t, log))
          else overwrite_loop n key value compressed t log index follow offset remainder start)))"

definition ValueTable_overwrite_chain ::
    "ValueTable \<Rightarrow> Key \<Rightarrow> bytes \<Rightarrow> LogWriter \<Rightarrow> u64 option \<Rightarrow> bool \<Rightarrow> (u64 \<times> ValueTable \<times> LogWriter) res" where
  "ValueTable_overwrite_chain t key value log at' compressed =
     (let remainder = length value + ValueTable_ref_size t + PARTIAL_SIZE
      in and_then (ensure (vt_multipart t \<or> length value \<le> unat (ValueTable_value_size t))
                    (Panic ''assertion failed: self.multipart || value.len() <= self.value_size()'')) (\<lambda>_.
         and_then (case at' of
                     Some index \<Rightarrow> Inr (index, True, t)
                   | None \<Rightarrow> and_then (ValueTable_next_free t log) (\<lambda>(index, t). Inr (index, False, t)))
           (\<lambda>(index, follow, t).
         overwrite_loop remainder key value compressed t log index follow 0 remainder 0)))"

definition ValueTable_write_insert_plan ::
    "ValueTable \<Rightarrow> Key \<Rightarrow> bytes \<Rightarrow> LogWriter \<Rightarrow> bool \<Rightarrow> (u64 \<times> ValueTable \<times> LogWriter) res" where
  "ValueTable_write_insert_plan t key value log compressed =
     ValueTable_overwrite_chain t key value log None compressed"

definition ValueTable_write_replace_plan ::
    "ValueTable \<Rightarrow> u64 \<Rightarrow> Key \<Rightarrow> bytes \<Rightarrow> LogWriter \<Rightarrow> bool \<Rightarrow> (ValueTable \<times> LogWriter) res" where
  "ValueTable_write_replace_plan t index key value log compressed =
     and_then (ValueTable_overwrite_chain t key value log (Some index) compressed)
       (\<lambda>(_, t, log). Inr (t, log))"

definition ValueTable_write_remove_plan ::
    "ValueTable \<Rightarrow> u64 \<Rightarrow> LogWriter \<Rightarrow> (ValueTable \<times> LogWriter) res" where
  "ValueTable_write_remove_plan t index log =
     (if vt_multipart t then ValueTable_clear_chain t index log
      else ValueTable_clear_slot t index log)"

text \<open>
  \<open>change_ref(index, delta)\<close> with \<open>delta: i32\<close>: \<open>delta as u32\<close> and \<open>-delta as u32\<close> are the 32-bit
  words of \<open>delta\<close> and \<open>- delta\<close>.
\<close>

definition ValueTable_change_ref ::
    "ValueTable \<Rightarrow> u64 \<Rightarrow> int \<Rightarrow> LogWriter \<Rightarrow> (bool \<times> LogWriter) res" where
  "ValueTable_change_ref t index delta log =
     and_then (ValueTable_load t (LogWriter_query log) index MAX_ENTRY_BUF_SIZE
                (unat (vt_entry_size t))) (\<lambda>buf.
       if Entry_is_tombstone buf then Inr (False, log)
       else
         and_then
           (if vt_multipart t \<and> Entry_is_multi buf (vt_db_version t)
            then Inr (unat (vt_entry_size t), Entry_skip_next (Entry_skip_size buf))
            else and_then (Entry_read_size buf) (\<lambda>((sz, _), buf). Inr (en_off buf + unat sz, buf)))
           (\<lambda>(sz, buf).
         let rc_offset = en_off buf
         in and_then (Entry_read_rc buf) (\<lambda>(counter, buf).
              let d = (if 0 < delta
                       then (if LOCKED_REF - of_int delta \<le> counter then Some LOCKED_REF
                             else Some (counter + of_int delta))
                       else if counter \<noteq> LOCKED_REF then
                         (let c = (if counter \<le> of_int (- delta) then 0 else counter - of_int (- delta))
                          in if c = 0 then None else Some c)
                       else Some counter)
              in case d of
                   None \<Rightarrow> Inr (False, log)
                 | Some counter \<Rightarrow>
                     and_then (Entry_write_rc (Entry_set_offset buf rc_offset) counter) (\<lambda>buf.
                       if length (en_buf buf) < sz then Inl (Panic ''read of uninitialised memory'')
                       else Inr (True, LogWriter_insert_value log (vt_id t) index
                                         (slice_of 0 sz (en_buf buf)))))))"

definition ValueTable_write_inc_ref :: "ValueTable \<Rightarrow> u64 \<Rightarrow> LogWriter \<Rightarrow> LogWriter res" where
  "ValueTable_write_inc_ref t index log =
     and_then (ValueTable_change_ref t index 1 log) (\<lambda>(_, log). Inr log)"

definition ValueTable_write_dec_ref ::
    "ValueTable \<Rightarrow> u64 \<Rightarrow> LogWriter \<Rightarrow> (bool \<times> ValueTable \<times> LogWriter) res" where
  "ValueTable_write_dec_ref t index log =
     and_then (ValueTable_change_ref t index (- 1) log) (\<lambda>(kept, log).
       if kept then Inr (True, t, log)
       else and_then (ValueTable_write_remove_plan t index log) (\<lambda>(t, log). Inr (False, t, log)))"

text \<open>\<open>complete_plan\<close> logs the header when the free list or the fill mark changed.\<close>

definition ValueTable_complete_plan :: "ValueTable \<Rightarrow> LogWriter \<Rightarrow> ValueTable \<times> LogWriter" where
  "ValueTable_complete_plan t log =
     (if vt_dirty_header t then
        let buf = Header_set_filled (Header_set_last_removed Header_default (vt_last_removed t))
                    (vt_filled t)
        in (t\<lparr>vt_dirty_header := False\<rparr>, LogWriter_insert_value log (vt_id t) 0 buf)
      else (t, log))"


section \<open>Enacting logged entries\<close>

text \<open>
  Both read the size word first, which says how many more bytes of the record belong to the
  entry, and then those; \<open>enact_plan\<close> writes them to the slot in the file.
\<close>

definition ValueTable_enact_plan ::
    "ValueTable \<Rightarrow> u64 \<Rightarrow> LogReader \<Rightarrow> (ValueTable \<times> LogReader) res" where
  "ValueTable_enact_plan t index log =
     and_then (TableFile_grow_to u64_states index (vt_entry_size t) (vt_file t)) (\<lambda>file.
       if index = 0 then
         and_then (LogReader_read log 16) (\<lambda>(header, log).
         and_then (TableFile_write_at file header 0) (\<lambda>file.
           Inr (t\<lparr>vt_file := file\<rparr>, log)))
       else
         and_then (LogReader_read log SIZE_SIZE) (\<lambda>(b, log).
           let buf = \<lparr>en_off = 0, en_buf = b, en_cap = MAX_ENTRY_BUF_SIZE\<rparr>
           in and_then
                (if Entry_is_tombstone buf then Inr INDEX_SIZE
                 else if vt_multipart t \<and> Entry_is_multi buf (vt_db_version t)
                 then Inr (unat (vt_entry_size t) - SIZE_SIZE)
                 else and_then (Entry_read_size buf) (\<lambda>((len, _), _). Inr (unat len)))
                (\<lambda>len.
              and_then (LogReader_read log len) (\<lambda>(payload, log).
              and_then (TableFile_write_at file (b @ payload) (index * ucast (vt_entry_size t))) (\<lambda>file.
                Inr (t\<lparr>vt_file := file\<rparr>, log))))))"

definition ValueTable_validate_plan :: "ValueTable \<Rightarrow> u64 \<Rightarrow> LogReader \<Rightarrow> LogReader res" where
  "ValueTable_validate_plan t index log =
     (if index = 0 then and_then (LogReader_read log 16) (\<lambda>(_, log). Inr log)
      else
        and_then (LogReader_read log SIZE_SIZE) (\<lambda>(b, log).
          let buf = \<lparr>en_off = 0, en_buf = b, en_cap = MAX_ENTRY_BUF_SIZE\<rparr>
          in and_then
               (if Entry_is_tombstone buf then Inr INDEX_SIZE
                else if vt_multipart t \<and> Entry_is_multi buf (vt_db_version t)
                then Inr (unat (vt_entry_size t) - SIZE_SIZE)
                else and_then (Entry_read_size buf) (\<lambda>((len, _), _). Inr (unat len)))
               (\<lambda>len. and_then (LogReader_read log len) (\<lambda>(_, log). Inr log))))"

definition ValueTable_refresh_metadata :: "ValueTable \<Rightarrow> ValueTable res" where
  "ValueTable_refresh_metadata t =
     (case tf_file (vt_file t) of
        None \<Rightarrow> Inr t
      | Some _ \<Rightarrow>
          and_then (TableFile_read_at (vt_file t) 16 0) (\<lambda>header.
            let last_removed = Header_last_removed header;
                filled = Header_filled header;
                filled = (if filled = 0 then 1 else filled)
            in Inr (t\<lparr>vt_last_removed := last_removed, vt_filled := filled\<rparr>)))"

definition ValueTable_flush :: "ValueTable \<Rightarrow> ValueTable" where
  "ValueTable_flush t = t\<lparr>vt_file := TableFile_flush (vt_file t)\<rparr>"

text \<open>
  \<open>iter_while\<close> over the slots \<open>1 .. filled\<close>: the closure \<open>f\<close> is threaded with a state \<open>'s\<close> and
  says whether to go on.
\<close>

fun iter_while_slots ::
    "ValueTable \<Rightarrow> LogQuery \<Rightarrow> ('s \<Rightarrow> u64 \<Rightarrow> u32 \<Rightarrow> bytes \<Rightarrow> bool \<Rightarrow> bool \<times> 's) \<Rightarrow> u64 list \<Rightarrow> 's \<Rightarrow> 's res" where
  "iter_while_slots t log f [] s = Inr s"
| "iter_while_slots t log f (index # rest) s =
     and_then (ValueTable_for_parts t None index log) (\<lambda>(rc, _, compressed, parts).
       if 0 < rc then
         (let (go_on, s) = f s index rc (concat parts) compressed
          in if \<not> go_on then Inr s else iter_while_slots t log f rest s)
       else iter_while_slots t log f rest s)"

definition ValueTable_iter_while ::
    "ValueTable \<Rightarrow> LogQuery \<Rightarrow> ('s \<Rightarrow> u64 \<Rightarrow> u32 \<Rightarrow> bytes \<Rightarrow> bool \<Rightarrow> bool \<times> 's) \<Rightarrow> 's \<Rightarrow> 's res" where
  "ValueTable_iter_while t log f s =
     iter_while_slots t log f (map of_nat [1..<unat (vt_filled t)]) s"

end
