(* ===== verification/Slots.thy ===== *)
theory Slots
  imports Value_Table
begin

text \<open>
  What the bytes of a slot mean. A slot is a tombstone (\<open>Free\<close>), a part of a longer value that
  names the next slot (\<open>Part\<close>), or a complete entry or last part (\<open>Last\<close>). \<open>view\<close> is the table as
  the operations see it: the log over the file. The lemmas say how each reading step of
  \<open>Value_Table\<close> acts on a slot with a given meaning, and what the written bytes mean.
\<close>

section \<open>Meaning of a slot\<close>

datatype slot = Free u64 | Part u64 bytes | Last bool bytes

definition multi_marker :: "u32 \<Rightarrow> bytes \<Rightarrow> bool" where
  "multi_marker ver b \<longleftrightarrow>
     b = MULTIPART \<or> b = MULTIHEAD \<or> (ver \<le> 4 \<and> (b = MULTIPART_V4 \<or> b = MULTIHEAD_V4))"

definition size_of_word :: "u16 \<Rightarrow> nat" where
  "size_of_word s = unat (s AND NOT COMPRESSED_MASK)"

definition compressed_word :: "u16 \<Rightarrow> bool" where
  "compressed_word s \<longleftrightarrow> 0 < s AND COMPRESSED_MASK"

definition decode_slot :: "ValueTable \<Rightarrow> bytes \<Rightarrow> slot option" where
  "decode_slot t d =
     (let es = unat (vt_entry_size t)
      in if length d < 2 then None
         else if take 2 d = TOMBSTONE then
           (if length d < 10 then None else Some (Free (from_le (slice_of 2 10 d))))
         else if vt_multipart t \<and> multi_marker (vt_db_version t) (take 2 d) then
           (if length d < es then None else Some (Part (from_le (slice_of 2 10 d)) (slice_of 10 es d)))
         else
           (let s = from_le (take 2 d); n = 2 + size_of_word s
            in if length d < n \<or> es < n then None else Some (Last (compressed_word s) (slice_of 2 n d))))"

text \<open>Static conditions that \<open>open\<close> establishes (for every database version the code supports).\<close>

definition vt_ok :: "ValueTable \<Rightarrow> bool" where
  "vt_ok t \<longleftrightarrow> 32 \<le> unat (vt_entry_size t) \<and> unat (vt_entry_size t) \<le> 0x7ff8
     \<and> (vt_multipart t \<longrightarrow> 48 \<le> unat (vt_entry_size t) \<and> unat (vt_entry_size t) \<le> 4096)"

definition slot_bytes :: "ValueTable \<Rightarrow> (u64 \<Rightarrow> bytes option) \<Rightarrow> u64 \<Rightarrow> bytes option" where
  "slot_bytes t st i =
     (case st i of
        Some d \<Rightarrow> Some d
      | None \<Rightarrow>
          (case tf_file (vt_file t) of
             None \<Rightarrow> None
           | Some f \<Rightarrow>
               (let off = unat (i * ucast (vt_entry_size t))
                in if off + unat (vt_entry_size t) \<le> flen f
                   then Some (file_bytes f off (unat (vt_entry_size t))) else None)))"

definition view :: "ValueTable \<Rightarrow> (u64 \<Rightarrow> bytes option) \<Rightarrow> u64 \<Rightarrow> slot option" where
  "view t st i = Option.bind (slot_bytes t st i) (decode_slot t)"

lemma slice_take: "b \<le> k \<Longrightarrow> slice_of a b (take k d) = slice_of a b d"
  by (simp add: slice_of_def drop_take min_def)

lemma decode_take:
  assumes "decode_slot t d = Some s" and "unat (vt_entry_size t) \<le> k" and "vt_ok t"
  shows "decode_slot t (take k d) = Some s"
proof -
  have k: "32 \<le> k" using assms(2,3) by (simp add: vt_ok_def)
  then have "take 2 (take k d) = take 2 d" by (simp add: min_def)
  moreover have "length (take k d) < n \<longleftrightarrow> length d < n" if "n \<le> k" for n
    using that by auto
  ultimately show ?thesis
    using assms(1,2) k
    by (auto simp: decode_slot_def Let_def slice_take split: if_splits)
qed

lemma decode_append:
  assumes "decode_slot t d = Some s" and "vt_ok t"
  shows "decode_slot t (d @ x) = Some s"
proof -
  have "2 \<le> length d" using assms(1) by (auto simp: decode_slot_def Let_def split: if_splits)
  then have "take 2 (d @ x) = take 2 d" by simp
  moreover have "32 \<le> unat (vt_entry_size t)" using assms(2) by (simp add: vt_ok_def)
  ultimately show ?thesis
    using assms(1) by (auto simp: decode_slot_def Let_def slice_append_left split: if_splits)
qed

lemma decode_cong:
  assumes "vt_entry_size t' = vt_entry_size t" "vt_multipart t' = vt_multipart t"
    "vt_db_version t' = vt_db_version t"
  shows "decode_slot t' = decode_slot t"
  by (rule ext) (simp only: decode_slot_def assms)

lemma slot_bytes_cong:
  assumes "vt_entry_size t' = vt_entry_size t" "vt_file t' = vt_file t"
  shows "slot_bytes t' = slot_bytes t"
  by (intro ext) (simp only: slot_bytes_def assms)


section \<open>Reading a slot into a buffer\<close>

definition fresh_buf :: "nat \<Rightarrow> bytes \<Rightarrow> Entry" where
  "fresh_buf cap d = \<lparr>en_off = 0, en_buf = d, en_cap = cap\<rparr>"

context log_query
begin

lemma load_full:
  assumes "view t (stored (vt_id t)) i = Some s" and "vt_ok t"
  shows "\<exists>d. ValueTable_load t q i MAX_ENTRY_BUF_SIZE (unat (vt_entry_size t))
             = Inr (fresh_buf MAX_ENTRY_BUF_SIZE d) \<and> decode_slot t d = Some s"
proof -
  from assms(1) obtain d where d: "slot_bytes t (stored (vt_id t)) i = Some d" "decode_slot t d = Some s"
    by (auto simp: view_def bind_eq_Some_conv)
  show ?thesis
  proof (cases "stored (vt_id t) i")
    case (Some b)
    with d(1) have "b = d" by (simp add: slot_bytes_def)
    moreover have "decode_slot t (take MAX_ENTRY_BUF_SIZE d) = Some s"
      by (rule decode_take [OF d(2) _ assms(2)])
         (use assms(2) in \<open>simp add: vt_ok_def MAX_ENTRY_BUF_SIZE_def\<close>)
    ultimately show ?thesis
      using Some by (simp add: ValueTable_load_def fresh_buf_def)
  next
    case None
    with d show ?thesis
      by (auto simp: ValueTable_load_def slot_bytes_def TableFile_read_at_def file_read_at_def
          fresh_buf_def Let_def split: option.splits if_splits)
  qed
qed

lemma load_small:
  assumes "slot_bytes t (stored (vt_id t)) i = Some d" and "n \<le> unat (vt_entry_size t)"
  shows "ValueTable_load t q i n n = Inr (fresh_buf n (take n d))"
proof (cases "stored (vt_id t) i")
  case (Some b)
  with assms show ?thesis
    by (simp add: slot_bytes_def ValueTable_load_def fresh_buf_def)
next
  case None
  with assms show ?thesis
    by (auto simp: ValueTable_load_def slot_bytes_def TableFile_read_at_def file_read_at_def
        fresh_buf_def Let_def take_file_bytes split: option.splits if_splits)
qed

end


section \<open>A cursor inside an entry\<close>

text \<open>The buffer is positioned so that \<open>body\<close> is what remains up to \<open>stop\<close>.\<close>

definition positioned :: "Entry \<Rightarrow> nat \<Rightarrow> bytes \<Rightarrow> bool" where
  "positioned e stop body \<longleftrightarrow>
     en_off e \<le> stop \<and> stop \<le> length (en_buf e) \<and> slice_of (en_off e) stop (en_buf e) = body"

lemma positioned_read:
  assumes "positioned e stop body" and "k \<le> length body"
  shows "Entry_read_slice e k = Inr (take k body, e\<lparr>en_off := en_off e + k\<rparr>)"
    and "positioned (e\<lparr>en_off := en_off e + k\<rparr>) stop (drop k body)"
proof -
  have len: "length body = stop - en_off e"
    using assms(1) by (auto simp: positioned_def)
  then have k: "en_off e + k \<le> stop" using assms by (auto simp: positioned_def)
  have "slice_of (en_off e) (en_off e + k) (en_buf e) = take k body"
    using assms(1) k by (auto simp: positioned_def slice_of_def min_def)
  then show "Entry_read_slice e k = Inr (take k body, e\<lparr>en_off := en_off e + k\<rparr>)"
    using assms(1) k by (simp add: Entry_read_slice_def positioned_def Let_def)
  have "slice_of (en_off e + k) stop (en_buf e) = drop k body"
    using assms(1) k by (auto simp: positioned_def slice_of_def drop_take add.commute)
  then show "positioned (e\<lparr>en_off := en_off e + k\<rparr>) stop (drop k body)"
    using assms(1) k by (simp add: positioned_def)
qed

lemma positioned_remaining:
  "positioned e stop body \<Longrightarrow> Entry_remaining_to e stop = Inr body"
  by (auto simp: positioned_def Entry_remaining_to_def)

lemma fresh_buf_simps [simp]:
  "en_off (fresh_buf cap d) = 0" "en_buf (fresh_buf cap d) = d" "en_cap (fresh_buf cap d) = cap"
  "Entry_set_offset (fresh_buf cap d) 0 = fresh_buf cap d"
  by (simp_all add: fresh_buf_def Entry_set_offset_def)

lemma is_multi_marker:
  "Entry_is_multi (fresh_buf cap d) ver = multi_marker ver (take 2 d)"
  by (simp add: Entry_is_multi_def multi_marker_def Entry_is_multipart_def Entry_is_multihead_def
      Entry_is_multipart_v4_def Entry_is_multihead_v4_def SIZE_SIZE_def)

lemma is_tombstone_marker:
  "Entry_is_tombstone (fresh_buf cap d) \<longleftrightarrow> take 2 d = TOMBSTONE"
  by (simp add: Entry_is_tombstone_def SIZE_SIZE_def)

lemma read_next_fresh:
  assumes "10 \<le> length d"
  shows "Entry_read_next (Entry_skip_size (fresh_buf cap d)) =
           Inr (from_le (slice_of 2 10 d), (fresh_buf cap d)\<lparr>en_off := 10\<rparr>)"
  using assms
  by (simp add: Entry_read_next_def Entry_skip_size_def Entry_read_slice_def size_consts Let_def
      numeral_2_eq_2)

lemma read_size_fresh:
  assumes "2 \<le> length d"
  shows "Entry_read_size (fresh_buf cap d) =
           Inr ((from_le (take 2 d) AND NOT COMPRESSED_MASK, compressed_word (from_le (take 2 d))),
                (fresh_buf cap d)\<lparr>en_off := 2\<rparr>)"
  using assms
  by (simp add: Entry_read_size_def Entry_read_slice_def size_consts Let_def compressed_word_def
      numeral_2_eq_2)


section \<open>What each kind of slot looks like to the reading code\<close>

lemma decode_Free:
  assumes "decode_slot t d = Some (Free nx)"
  shows "take 2 d = TOMBSTONE" and "10 \<le> length d" and "from_le (slice_of 2 10 d) = nx"
  using assms by (auto simp: decode_slot_def Let_def split: if_splits)

lemma decode_Part:
  assumes "decode_slot t d = Some (Part nx body)" and "vt_ok t"
  shows "take 2 d \<noteq> TOMBSTONE" and "vt_multipart t" and "multi_marker (vt_db_version t) (take 2 d)"
    and "unat (vt_entry_size t) \<le> length d" and "from_le (slice_of 2 10 d) = nx"
    and "positioned ((fresh_buf cap d)\<lparr>en_off := 10\<rparr>) (unat (vt_entry_size t)) body"
    and "length body = unat (vt_entry_size t) - 10"
  using assms by (auto simp: decode_slot_def Let_def positioned_def vt_ok_def split: if_splits)

lemma decode_Last:
  assumes "decode_slot t d = Some (Last c body)"
  shows "take 2 d \<noteq> TOMBSTONE" and "\<not> (vt_multipart t \<and> multi_marker (vt_db_version t) (take 2 d))"
    and "2 \<le> length d" and "compressed_word (from_le (take 2 d)) = c"
    and "size_of_word (from_le (take 2 d)) = length body"
    and "positioned ((fresh_buf cap d)\<lparr>en_off := 2\<rparr>) (2 + length body) body"
    and "2 + length body \<le> unat (vt_entry_size t)"
  using assms by (auto simp: decode_slot_def Let_def positioned_def split: if_splits)



section \<open>What the written bytes mean\<close>

definition size_word :: "nat \<Rightarrow> bool \<Rightarrow> u16" where
  "size_word n c = (if c then of_nat n OR COMPRESSED_MASK else of_nat n)"

lemma COMPRESSED_MASK_bit: "bit COMPRESSED_MASK k \<longleftrightarrow> k = 15"
proof -
  have m: "COMPRESSED_MASK = 2 ^ 15" by (simp add: COMPRESSED_MASK_def)
  show ?thesis unfolding m bit_exp_iff by auto
qed

lemma small_word_bit15: "n < 2 ^ 15 \<Longrightarrow> \<not> bit (of_nat n :: u16) 15"
proof -
  assume n: "n < 2 ^ 15"
  have "bit (of_nat n :: u16) 15 \<longleftrightarrow> bit (unat (of_nat n :: u16)) 15"
    by (simp add: bit_unsigned_iff)
  also have "unat (of_nat n :: u16) = n"
    using n by (intro unat_of_nat_small) simp
  also have "\<not> bit n 15"
    using n by (simp add: bit_iff_odd)
  finally show ?thesis by simp
qed

lemma size_of_size_word: "n < 2 ^ 15 \<Longrightarrow> size_of_word (size_word n c) = n"
proof -
  assume n: "n < 2 ^ 15"
  have "size_word n c AND NOT COMPRESSED_MASK = of_nat n"
    by (rule bit_word_eqI) (auto simp: size_word_def bit_and_iff bit_or_iff bit_not_iff
        COMPRESSED_MASK_bit small_word_bit15 [OF n, simplified])
  then show ?thesis
    using n by (simp add: size_of_word_def unat_of_nat_small)
qed

lemma compressed_size_word: "n < 2 ^ 15 \<Longrightarrow> compressed_word (size_word n c) = c"
proof -
  assume n: "n < 2 ^ 15"
  have "size_word n c AND COMPRESSED_MASK = (if c then COMPRESSED_MASK else 0)"
    by (rule bit_word_eqI) (auto simp: size_word_def bit_and_iff bit_or_iff
        COMPRESSED_MASK_bit small_word_bit15 [OF n, simplified])
  then show ?thesis
    by (simp add: compressed_word_def COMPRESSED_MASK_def)
qed

lemma marker_sizes:
  "size_of_word (from_le TOMBSTONE) = 0x7fff"
  "size_of_word (from_le MULTIPART) = 0x7ffe"
  "size_of_word (from_le MULTIHEAD) = 0x7ffd"
  "size_of_word (from_le MULTIPART_V4) = 0x7eff"
  "size_of_word (from_le MULTIHEAD_V4) = 0x7dff"
  by (simp_all add: markers size_of_word_def COMPRESSED_MASK_def)

lemma size_word_no_marker:
  assumes "n \<le> 0x7ff6"
  shows "to_le 2 (size_word n c) \<noteq> TOMBSTONE"
    and "n \<le> 4094 \<Longrightarrow> \<not> multi_marker ver (to_le 2 (size_word n c))"
proof -
  have eq: "size_of_word (from_le (to_le 2 (size_word n c))) = n"
    using assms by (simp add: size_of_size_word)
  show "to_le 2 (size_word n c) \<noteq> TOMBSTONE"
    using eq assms marker_sizes(1) by fastforce
  assume "n \<le> 4094"
  then have "to_le 2 (size_word n c) \<noteq> m" if "4094 < size_of_word (from_le m)" for m
    using eq that by fastforce
  then show "\<not> multi_marker ver (to_le 2 (size_word n c))"
    using marker_sizes by (simp add: multi_marker_def)
qed

lemma decode_last_bytes:
  assumes "vt_ok t" and "2 + length body \<le> unat (vt_entry_size t)"
  shows "decode_slot t (to_le 2 (size_word (length body) c) @ body) = Some (Last c body)"
proof -
  have n: "length body \<le> 0x7ff6" and m: "vt_multipart t \<Longrightarrow> length body \<le> 4094"
    using assms by (auto simp: vt_ok_def)
  then have "length body < 2 ^ 15" by simp
  then show ?thesis
    using size_word_no_marker [OF n] m assms
    by (simp add: decode_slot_def Let_def size_of_size_word compressed_size_word slice_of_def)
qed

lemma decode_part_bytes:
  assumes "vt_ok t" and "vt_multipart t" and "length body = unat (vt_entry_size t) - 10"
    and "m = MULTIHEAD \<or> m = MULTIPART"
  shows "decode_slot t (m @ to_le 8 nx @ body) = Some (Part nx body)"
proof -
  have m: "length m = 2" "m \<noteq> TOMBSTONE" "multi_marker (vt_db_version t) m"
    using assms(4) by (auto simp: markers multi_marker_def)
  moreover have "slice_of 2 10 (m @ to_le 8 nx @ body) = to_le 8 nx"
    by (rule slice_append_exact) (simp_all add: m)
  moreover have "slice_of 10 (unat (vt_entry_size t)) (m @ to_le 8 nx @ body) = body"
    using assms(3) m(1) by (simp add: slice_of_def)
  moreover have "10 \<le> unat (vt_entry_size t)" using assms(1) by (simp add: vt_ok_def)
  ultimately show ?thesis
    using assms by (simp add: decode_slot_def Let_def)
qed

lemma decode_tombstone_bytes: "decode_slot t (TOMBSTONE @ to_le 8 nx) = Some (Free nx)"
proof -
  have "length TOMBSTONE = 2" by (simp add: markers)
  then show ?thesis
    by (simp add: decode_slot_def Let_def slice_of_def)
qed


section \<open>Steps of the reading operations\<close>

context log_query
begin

lemma read_next_part_view:
  assumes "view t (stored (vt_id t)) i = Some s" and "vt_ok t"
  shows "ValueTable_read_next_part t i q = Inr (case s of Part nx _ \<Rightarrow> Some nx | _ \<Rightarrow> None)"
proof -
  from assms(1) obtain d where d: "slot_bytes t (stored (vt_id t)) i = Some d" "decode_slot t d = Some s"
    by (auto simp: view_def bind_eq_Some_conv)
  have es: "10 \<le> unat (vt_entry_size t)" using assms(2) by (simp add: vt_ok_def)
  note load = load_small [OF d(1) es]
  have pre: "take 2 (take 10 d) = take 2 d" by (simp add: min_def)
  show ?thesis
  proof (cases s)
    case (Free nx)
    then have "take 2 d = TOMBSTONE" using d(2) decode_Free by blast
    then have "\<not> multi_marker ver (take 2 d)" for ver
      by (auto simp: multi_marker_def markers)
    then show ?thesis
      using Free by (simp add: ValueTable_read_next_part_def load is_multi_marker pre)
  next
    case (Part nx body)
    note p = decode_Part [OF d(2) [unfolded Part] assms(2)]
    have "10 \<le> length (take 10 d)" using p(4) es by simp
    then show ?thesis
      using Part p by (simp add: ValueTable_read_next_part_def load is_multi_marker pre
          read_next_fresh slice_take)
  next
    case (Last c body)
    then show ?thesis
      using decode_Last(2) [OF d(2) [unfolded Last]]
      by (auto simp: ValueTable_read_next_part_def load is_multi_marker pre)
  qed
qed

lemma read_next_free_view:
  assumes "view t (stored (vt_id t)) i = Some (Free nx)" and "vt_ok t"
  shows "ValueTable_read_next_free t i q = Inr nx"
proof -
  from assms(1) obtain d where d: "slot_bytes t (stored (vt_id t)) i = Some d"
      "decode_slot t d = Some (Free nx)"
    by (auto simp: view_def bind_eq_Some_conv)
  have es: "10 \<le> unat (vt_entry_size t)" using assms(2) by (simp add: vt_ok_def)
  show ?thesis
    using decode_Free [OF d(2)]
    by (simp add: ValueTable_read_next_free_def load_small [OF d(1) es] read_next_fresh slice_take)
qed

end

end
