(* ===== verification/Value_Chains.thy ===== *)
theory Value_Chains
  imports Slots
begin

text \<open>
  Values as chains of slots, and what the reading operations return on them. A chain is the
  list of its slots with their bodies; the first body starts with the reference counter (if
  the table has one) and the partial key. The lemmas hold for every log the table is read
  through; the operations end because a chain never visits a slot twice.
\<close>

declare add_2_eq_Suc [simp del] add_2_eq_Suc' [simp del]

section \<open>Chains\<close>

type_synonym cells = "(u64 \<times> bytes) list"

fun chain :: "(u64 \<Rightarrow> slot option) \<Rightarrow> bool \<Rightarrow> cells \<Rightarrow> bool" where
  "chain V c [] = False"
| "chain V c [x] = (V (fst x) = Some (Last c (snd x)))"
| "chain V c (x # y # cs) =
     (fst y \<noteq> 0 \<and> V (fst x) = Some (Part (fst y) (snd x)) \<and> chain V c (y # cs))"

abbreviation slots_of :: "cells \<Rightarrow> u64 list" where
  "slots_of cs \<equiv> map fst cs"

abbreviation payload :: "cells \<Rightarrow> bytes" where
  "payload cs \<equiv> concat (map snd cs)"

lemma chain_nonempty: "chain V c cs \<Longrightarrow> cs \<noteq> []"
  by auto

lemma chain_cong:
  assumes "\<And>i. i \<in> set (slots_of cs) \<Longrightarrow> V i = W i"
  shows "chain V c cs = chain W c cs"
  using assms by (induction V c cs rule: chain.induct) auto

lemma chain_unique:
  assumes "chain V c xs" and "chain V c' ys" and "fst (hd xs) = fst (hd ys)"
  shows "xs = ys \<and> c = c'"
  using assms
proof (induction xs arbitrary: ys)
  case Nil
  then show ?case by simp
next
  case (Cons x xs)
  obtain y ys' where ys: "ys = y # ys'" using Cons.prems(2) by (cases ys) auto
  show ?case
  proof (cases xs)
    case Nil
    with Cons.prems ys show ?thesis
      by (cases ys') (auto intro: prod_eqI)
  next
    case (Cons x2 xs2)
    with Cons.prems ys obtain y2 ys2 where ys': "ys' = y2 # ys2"
      by (cases ys') auto
    with Cons Cons.prems ys have "snd x = snd y" "fst x2 = fst y2" "chain V c xs" "chain V c' ys'"
      by auto
    then have "xs = ys' \<and> c = c'"
      using Cons.IH [of ys'] Cons ys' by simp
    with \<open>snd x = snd y\<close> Cons.prems(3) ys show ?thesis
      by (auto intro: prod_eqI)
  qed
qed

lemma chain_suffix: "chain V c (xs @ ys) \<Longrightarrow> ys \<noteq> [] \<Longrightarrow> chain V c ys"
proof (induction xs)
  case Nil
  then show ?case by simp
next
  case (Cons x xs)
  then show ?case by (cases "xs @ ys") auto
qed

lemma chain_distinct:
  assumes "chain V c cs"
  shows "distinct (slots_of cs)"
proof (rule ccontr)
  assume "\<not> distinct (slots_of cs)"
  then obtain as i bs ds where "slots_of cs = as @ [i] @ bs @ [i] @ ds"
    using not_distinct_decomp by blast
  then obtain xs x ys y zs where cs: "cs = xs @ [x] @ ys @ [y] @ zs" and eq: "fst x = fst y"
    by (auto simp: map_eq_append_conv map_eq_Cons_conv append_eq_map_conv Cons_eq_map_conv)
  have "chain V c (x # ys @ y # zs)"
    using chain_suffix [of V c xs "x # ys @ y # zs"] assms cs by simp
  moreover have "chain V c (y # zs)"
    using chain_suffix [of V c "xs @ x # ys" "y # zs"] assms cs by simp
  ultimately have "x # ys @ y # zs = y # zs"
    using chain_unique [of V c "x # ys @ y # zs" c "y # zs"] eq by simp
  then have "length (x # ys @ y # zs) = length (y # zs)" by (rule arg_cong)
  then show False by simp
qed

lemma card_u64: "card (UNIV :: u64 set) = 2 ^ 64"
  by (simp add: card_word)

lemma distinct_u64_length: "distinct (xs :: u64 list) \<Longrightarrow> length xs \<le> u64_states"
  using card_mono [of UNIV "set xs"] by (simp add: distinct_card card_u64 u64_states_def)

lemma chain_length: "chain V c cs \<Longrightarrow> length cs \<le> u64_states"
  using distinct_u64_length [of "slots_of cs"] chain_distinct [of V c cs] by simp


section \<open>Reading a chain\<close>

text \<open>The header of the first part.\<close>

definition hdr_len :: "ValueTable \<Rightarrow> nat" where
  "hdr_len t = ValueTable_ref_size t + PARTIAL_SIZE"

definition body_rc :: "ValueTable \<Rightarrow> bytes \<Rightarrow> u32" where
  "body_rc t b = (if vt_ref_counted t then from_le (take REFS_SIZE b) else 1)"

definition body_pk :: "ValueTable \<Rightarrow> bytes \<Rightarrow> bytes" where
  "body_pk t b = take PARTIAL_SIZE (drop (ValueTable_ref_size t) b)"

lemma read_header:
  assumes "positioned e stop b" and "hdr_len t \<le> length b"
  shows "\<exists>e'. positioned e' stop (drop (hdr_len t) b) \<and>
     and_then (if vt_ref_counted t then Entry_read_rc e else Inr (1, e)) (\<lambda>(rc, e).
     and_then (Entry_read_partial e) (\<lambda>(pk, e). F rc pk e)) = F (body_rc t b) (body_pk t b) e'"
proof (cases "vt_ref_counted t")
  case True
  with assms(2) have len: "REFS_SIZE \<le> length b" "PARTIAL_SIZE \<le> length (drop REFS_SIZE b)"
    by (simp_all add: hdr_len_def ValueTable_ref_size_def)
  note r1 = positioned_read [OF assms(1) len(1)]
  note r2 = positioned_read [OF r1(2) len(2)]
  from True r1(1) r2 show ?thesis
    by (intro exI [of _ "e\<lparr>en_off := en_off e + REFS_SIZE + PARTIAL_SIZE\<rparr>"])
       (simp add: Entry_read_rc_def Entry_read_partial_def body_rc_def body_pk_def hdr_len_def
         ValueTable_ref_size_def add.commute)
next
  case False
  with assms(2) have len: "PARTIAL_SIZE \<le> length b"
    by (simp add: hdr_len_def ValueTable_ref_size_def)
  note r1 = positioned_read [OF assms(1) len]
  from False r1 show ?thesis
    by (intro exI [of _ "e\<lparr>en_off := en_off e + PARTIAL_SIZE\<rparr>"])
       (simp add: Entry_read_partial_def body_rc_def body_pk_def hdr_len_def ValueTable_ref_size_def)
qed

text \<open>The result of a query for \<open>key\<close> that meets a different key.\<close>

definition key_mismatch :: "Key option \<Rightarrow> bytes \<Rightarrow> bool" where
  "key_mismatch key pk = (case key of None \<Rightarrow> False | Some k \<Rightarrow> partial_key k \<noteq> pk)"

abbreviation no_parts :: "u32 \<times> bytes \<times> bool \<times> bytes list" where
  "no_parts \<equiv> (0, replicate PARTIAL_SIZE 0, False, [])"

context log_query
begin

abbreviation V :: "ValueTable \<Rightarrow> u64 \<Rightarrow> slot option" where
  "V t \<equiv> view t (stored (vt_id t))"

text \<open>One iteration on a slot: where the body lies and what comes next.\<close>

lemma iteration_tail:
  assumes ok: "vt_ok t" and "0 < part"
    and s: "V t i = Some s" and nf: "\<And>x. s \<noteq> Free x"
    and nx: "\<And>n b. s = Part n b \<Longrightarrow> n \<noteq> 0"
  shows "for_parts_loop (Suc n) t key q i part compressed rc pk parts =
           (case s of
              Last c b \<Rightarrow> Inr (rc, pk, c, parts @ [b])
            | Part m b \<Rightarrow> for_parts_loop n t key q m (part + 1) compressed rc pk (parts @ [b]))"
proof -
  obtain d where d: "ValueTable_load t q i MAX_ENTRY_BUF_SIZE (unat (vt_entry_size t))
      = Inr (fresh_buf MAX_ENTRY_BUF_SIZE d)" "decode_slot t d = Some s"
    using load_full [OF s ok] by blast
  show ?thesis
  proof (cases s)
    case (Free x)
    then show ?thesis using nf by simp
  next
    case (Part m b)
    note p = decode_Part [OF d(2) [unfolded Part] ok]
    have "10 \<le> length d" using p(4) ok by (simp add: vt_ok_def)
    then show ?thesis
      using Part d(1) p nx [OF Part] assms(2)
      by (simp add: is_multi_marker is_tombstone_marker read_next_fresh
          positioned_remaining [OF p(6)] Let_def)
  next
    case (Last c b)
    note p = decode_Last [OF d(2) [unfolded Last]]
    show ?thesis
      using Last d(1) p assms(2)
      by (auto simp: is_multi_marker is_tombstone_marker read_size_fresh
          positioned_remaining [OF p(6)] Let_def simp flip: size_of_word_def)
  qed
qed

lemma for_parts_tail:
  assumes "vt_ok t" and "chain (V t) c cs" and "0 < part" and "length cs \<le> n"
  shows "for_parts_loop n t key q (fst (hd cs)) part compressed rc pk parts =
           Inr (rc, pk, c, parts @ map snd cs)"
  using assms(2-4)
proof (induction cs arbitrary: n part compressed parts)
  case Nil
  then show ?case by simp
next
  case (Cons x cs)
  obtain n' where n: "n = Suc n'" using Cons.prems(3) by (cases n) auto
  show ?case
  proof (cases cs)
    case Nil
    then show ?thesis
      using Cons.prems n iteration_tail [OF assms(1) Cons.prems(2), of "fst x" "Last c (snd x)"] by simp
  next
    case (Cons y ys)
    then have "V t (fst x) = Some (Part (fst y) (snd x))" "fst y \<noteq> 0" "chain (V t) c cs"
      using Cons.prems(1) by auto
    then show ?thesis
      using Cons.prems n Cons Cons.IH [of "Suc part" n' compressed "parts @ [snd x]"]
        iteration_tail [OF assms(1) Cons.prems(2), of "fst x" "Part (fst y) (snd x)"] by simp
  qed
qed

lemma iteration_head:
  assumes ok: "vt_ok t" and s: "V t i = Some s"
    and body: "s = Last c b \<or> s = Part m b" and nx: "\<And>n b. s = Part n b \<Longrightarrow> n \<noteq> 0"
    and hdr: "hdr_len t \<le> length b"
  shows "for_parts_loop (Suc n) t key q i 0 False 1 pk [] =
           (if key_mismatch key (body_pk t b) then Inr no_parts
            else case s of
              Last c b \<Rightarrow> Inr (body_rc t b, body_pk t b, c, [drop (hdr_len t) b])
            | Part m b \<Rightarrow>
                for_parts_loop n t key q m 1 False (body_rc t b) (body_pk t b) [drop (hdr_len t) b])"
proof -
  obtain d where d: "ValueTable_load t q i MAX_ENTRY_BUF_SIZE (unat (vt_entry_size t))
      = Inr (fresh_buf MAX_ENTRY_BUF_SIZE d)" "decode_slot t d = Some s"
    using load_full [OF s ok] by blast
  define F where "F = (\<lambda>stop m c rc pk e.
     if key_mismatch key pk then Inr no_parts
     else and_then (Entry_remaining_to e stop) (\<lambda>s.
       if m = 0 then Inr (rc, pk, c, [s]) else for_parts_loop n t key q m 1 c rc pk [s]))"
  show ?thesis
    using body
  proof
    assume sl: "s = Last c b"
    note p = decode_Last [OF d(2) [unfolded sl]]
    obtain e' where e': "positioned e' (2 + length b) (drop (hdr_len t) b)"
      "and_then (if vt_ref_counted t then Entry_read_rc ((fresh_buf MAX_ENTRY_BUF_SIZE d)\<lparr>en_off := 2\<rparr>)
          else Inr (1, (fresh_buf MAX_ENTRY_BUF_SIZE d)\<lparr>en_off := 2\<rparr>)) (\<lambda>(rc, e).
       and_then (Entry_read_partial e) (\<lambda>(pk, e). F (2 + length b) 0 c rc pk e)) =
       F (2 + length b) 0 c (body_rc t b) (body_pk t b) e'"
      using read_header [OF p(6) hdr, where F = "F (2 + length b) 0 c"] by blast
    have "for_parts_loop (Suc n) t key q i 0 False 1 pk [] =
        F (2 + length b) 0 c (body_rc t b) (body_pk t b) e'"
      using d(1) p
      by (subst e'(2) [symmetric], cases "vt_multipart t")
         (simp_all add: is_tombstone_marker is_multi_marker read_size_fresh F_def key_mismatch_def
           Let_def flip: size_of_word_def cong: if_cong)
    then show ?thesis
      by (simp add: F_def positioned_remaining [OF e'(1)] sl)
  next
    assume sp: "s = Part m b"
    note p = decode_Part [OF d(2) [unfolded sp] ok]
    let ?es = "unat (vt_entry_size t)"
    have "10 \<le> length d" using p(4) ok by (simp add: vt_ok_def)
    obtain e' where e': "positioned e' ?es (drop (hdr_len t) b)"
      "and_then (if vt_ref_counted t then Entry_read_rc ((fresh_buf MAX_ENTRY_BUF_SIZE d)\<lparr>en_off := 10\<rparr>)
          else Inr (1, (fresh_buf MAX_ENTRY_BUF_SIZE d)\<lparr>en_off := 10\<rparr>)) (\<lambda>(rc, e).
       and_then (Entry_read_partial e) (\<lambda>(pk, e). F ?es m False rc pk e)) =
       F ?es m False (body_rc t b) (body_pk t b) e'"
      using read_header [OF p(6) hdr, where F = "F ?es m False"] by blast
    have "for_parts_loop (Suc n) t key q i 0 False 1 pk [] =
        F ?es m False (body_rc t b) (body_pk t b) e'"
      using d(1) p(1-5) \<open>10 \<le> length d\<close>
      by (subst e'(2) [symmetric])
         (simp add: is_tombstone_marker is_multi_marker read_next_fresh F_def key_mismatch_def Let_def
           cong: if_cong)
    then show ?thesis
      using nx by (simp add: F_def positioned_remaining [OF e'(1)] sp)
  qed
qed

lemma for_parts_chain:
  assumes ok: "vt_ok t" and ch: "chain (V t) c ((i, b) # cs)" and hdr: "hdr_len t \<le> length b"
  shows "ValueTable_for_parts t key i q =
           Inr (if key_mismatch key (body_pk t b) then no_parts
                else (body_rc t b, body_pk t b, c, drop (hdr_len t) b # map snd cs))"
proof -
  obtain n where n: "u64_states = Suc n" by (cases u64_states) (auto simp: u64_states_def)
  have len: "length cs \<le> n" using chain_length [OF ch] n by simp
  show ?thesis
  proof (cases cs)
    case Nil
    then show ?thesis
      using ch iteration_head [OF ok _ _ _ hdr, of i "Last c b"]
      by (auto simp: ValueTable_for_parts_def n)
  next
    case (Cons y ys)
    then have s: "V t i = Some (Part (fst y) b)" "fst y \<noteq> 0" "chain (V t) c cs"
      using ch by auto
    have "for_parts_loop n t key q (fst (hd cs)) 1 False (body_rc t b) (body_pk t b) [drop (hdr_len t) b]
        = Inr (body_rc t b, body_pk t b, c, [drop (hdr_len t) b] @ map snd cs)"
      by (rule for_parts_tail [OF ok s(3) _ len]) simp
    then show ?thesis
      using Cons s iteration_head [OF ok s(1) _ _ hdr]
      by (auto simp: ValueTable_for_parts_def n)
  qed
qed

lemma for_parts_free:
  assumes "vt_ok t" and "V t i = Some (Free nx)"
  shows "ValueTable_for_parts t key i q = Inr no_parts"
proof -
  obtain n where n: "u64_states = Suc n" by (cases u64_states) (auto simp: u64_states_def)
  obtain d where d: "ValueTable_load t q i MAX_ENTRY_BUF_SIZE (unat (vt_entry_size t))
      = Inr (fresh_buf MAX_ENTRY_BUF_SIZE d)" "decode_slot t d = Some (Free nx)"
    using load_full [OF assms(2,1)] by blast
  then show ?thesis
    using decode_Free [OF d(2)] by (simp add: ValueTable_for_parts_def n is_tombstone_marker Let_def)
qed

text \<open>The three queries on a chain whose first body has the header of \<open>key\<close>.\<close>

lemma get_chain:
  assumes "vt_ok t" and "chain (V t) c ((i, b) # cs)" and "hdr_len t \<le> length b"
    and "body_pk t b = partial_key key"
  shows "ValueTable_get t key i q =
           Inr (if 0 < body_rc t b then Some (drop (hdr_len t) (payload ((i, b) # cs)), c) else None)"
  using for_parts_chain [OF assms(1-3), of "Some key"] assms(3,4)
  by (simp add: ValueTable_get_def key_mismatch_def)

lemma get_other_key:
  assumes "vt_ok t" and "chain (V t) c ((i, b) # cs)" and "hdr_len t \<le> length b"
    and "body_pk t b \<noteq> partial_key key"
  shows "ValueTable_get t key i q = Inr None"
  using for_parts_chain [OF assms(1-3), of "Some key"] assms(4)
  by (auto simp: ValueTable_get_def key_mismatch_def)

lemma get_free:
  assumes "vt_ok t" and "V t i = Some (Free nx)"
  shows "ValueTable_get t key i q = Inr None"
  using for_parts_free [OF assms] by (simp add: ValueTable_get_def)

lemma get_with_meta_chain:
  assumes "vt_ok t" and "chain (V t) c ((i, b) # cs)" and "hdr_len t \<le> length b"
  shows "ValueTable_get_with_meta t i q =
           Inr (if 0 < body_rc t b
                then Some (drop (hdr_len t) (payload ((i, b) # cs)), body_rc t b, body_pk t b, c)
                else None)"
  using for_parts_chain [OF assms, of None] assms(3)
  by (simp add: ValueTable_get_with_meta_def key_mismatch_def)

end

end
