(* ===== verification/Value_Writes.thy ===== *)
theory Value_Writes
  imports Value_Chains
begin

text \<open>
  What the writing steps of a value table do: allocating a slot from the free list or from the
  end of the table, turning a slot into a tombstone, freeing a chain, and laying a value over a
  chain. The bookkeeping invariant \<open>space\<close> says that the slots below the fill mark are exactly
  the free list and the slots in use; every step is shown to keep it and to leave the slots it
  does not own alone.
\<close>

declare add_2_eq_Suc [simp del] add_2_eq_Suc' [simp del]

section \<open>The table as the writer sees it\<close>

abbreviation W :: "ValueTable \<Rightarrow> LogWriter \<Rightarrow> u64 \<Rightarrow> slot option" where
  "W t w \<equiv> view t (writer_stored w (vt_id t))"

text \<open>The operations change only the fill mark, the free list head and the dirty flag.\<close>

definition same_table :: "ValueTable \<Rightarrow> ValueTable \<Rightarrow> bool" where
  "same_table t t' \<longleftrightarrow>
     vt_id t' = vt_id t \<and> vt_entry_size t' = vt_entry_size t \<and> vt_file t' = vt_file t \<and>
     vt_multipart t' = vt_multipart t \<and> vt_ref_counted t' = vt_ref_counted t \<and>
     vt_db_version t' = vt_db_version t"

lemma same_table_refl [simp, intro]: "same_table t t"
  by (simp add: same_table_def)

lemma same_table_trans [trans]: "same_table t u \<Longrightarrow> same_table u v \<Longrightarrow> same_table t v"
  by (simp add: same_table_def)

lemma same_table_updates [simp]:
  "same_table t (t\<lparr>vt_filled := f\<rparr>)" "same_table t (t\<lparr>vt_last_removed := l\<rparr>)"
  "same_table t (t\<lparr>vt_dirty_header := d\<rparr>)"
  "same_table t (t\<lparr>vt_filled := f, vt_dirty_header := d\<rparr>)"
  "same_table t (t\<lparr>vt_last_removed := l, vt_dirty_header := d\<rparr>)"
  by (simp_all add: same_table_def)

lemma same_table_view: "same_table t t' \<Longrightarrow> view t' st = view t st"
  by (intro ext) (simp add: same_table_def view_def decode_cong [of t' t] slot_bytes_cong [of t' t])

lemma same_table_W: "same_table t t' \<Longrightarrow> W t' w = W t w"
  by (simp add: same_table_view) (simp add: same_table_def)

lemma same_table_ok: "same_table t t' \<Longrightarrow> vt_ok t' = vt_ok t"
  by (simp add: same_table_def vt_ok_def)

lemma same_table_header:
  assumes "same_table t t'"
  shows "hdr_len t' = hdr_len t" "body_rc t' b = body_rc t b" "body_pk t' b = body_pk t b"
  using assms
  by (simp_all add: same_table_def hdr_len_def body_rc_def body_pk_def ValueTable_ref_size_def)

text \<open>Only pages of the value table \<open>tid\<close> were added to the record.\<close>

definition value_frame :: "vtable_id \<Rightarrow> LogWriter \<Rightarrow> LogWriter \<Rightarrow> bool" where
  "value_frame tid w w' \<longleftrightarrow>
     lw_overlays w' = lw_overlays w \<and>
     lc_local_index (lw_log w') = lc_local_index (lw_log w) \<and>
     lc_record_id (lw_log w') = lc_record_id (lw_log w) \<and>
     lc_dropped_tables (lw_log w') = lc_dropped_tables (lw_log w) \<and>
     (\<forall>u. u \<noteq> tid \<longrightarrow> map_of (lc_local_values (lw_log w')) u = map_of (lc_local_values (lw_log w)) u)"

lemma value_frame_refl [simp, intro]: "value_frame tid w w"
  by (simp add: value_frame_def)

lemma value_frame_trans [trans]:
  "value_frame tid w w1 \<Longrightarrow> value_frame tid w1 w2 \<Longrightarrow> value_frame tid w w2"
  by (simp add: value_frame_def)

lemma value_frame_insert [simp, intro]: "value_frame tid w (LogWriter_insert_value w tid i d)"
  by (simp add: value_frame_def LogWriter_insert_value_def Let_def update_conv')

lemma value_frame_stored:
  "value_frame tid w w' \<Longrightarrow> u \<noteq> tid \<Longrightarrow> writer_stored w' u = writer_stored w u"
  by (rule ext) (simp add: value_frame_def writer_stored_def cong: option.case_cong)

lemma value_frame_index:
  "value_frame tid w w' \<Longrightarrow> LogWriter_with_index w' = LogWriter_with_index w"
  by (intro ext) (simp add: value_frame_def LogWriter_with_index_def cong: option.case_cong)

lemma W_insert_value:
  "W t (LogWriter_insert_value w (vt_id t) i d) = (W t w)(i := decode_slot t d)"
  by (rule ext) (simp add: view_def slot_bytes_def writer_stored_insert_value)


section \<open>Free slots and slots in use\<close>

lemma chain_upd: "i \<notin> set (slots_of cs) \<Longrightarrow> chain (V(i := s)) c cs = chain V c cs"
  by (rule chain_cong) (auto simp del: list.set_map)

primrec free_list :: "(u64 \<Rightarrow> slot option) \<Rightarrow> u64 \<Rightarrow> u64 list \<Rightarrow> bool" where
  "free_list V h [] \<longleftrightarrow> h = 0"
| "free_list V h (x # xs) \<longleftrightarrow> h = x \<and> x \<noteq> 0 \<and> (\<exists>n. V x = Some (Free n) \<and> free_list V n xs)"

lemma free_list_cong:
  assumes "\<And>x. x \<in> set xs \<Longrightarrow> V x = U x"
  shows "free_list V h xs = free_list U h xs"
  using assms by (induction xs arbitrary: h) auto

lemma free_list_head: "free_list V h xs \<Longrightarrow> h = (case xs of [] \<Rightarrow> 0 | x # _ \<Rightarrow> x)"
  by (cases xs) auto

definition space :: "(u64 \<Rightarrow> slot option) \<Rightarrow> ValueTable \<Rightarrow> u64 list \<Rightarrow> u64 set \<Rightarrow> bool" where
  "space V t fs L \<longleftrightarrow>
     free_list V (vt_last_removed t) fs \<and> distinct fs \<and> set fs \<inter> L = {} \<and>
     set fs \<union> L = {i. 0 < i \<and> i < vt_filled t} \<and> 0 < vt_filled t"

lemma space_nonzero: "space V t fs L \<Longrightarrow> i \<in> L \<Longrightarrow> i \<noteq> 0"
  by (auto simp: space_def)

lemma space_below: "space V t fs L \<Longrightarrow> i \<in> L \<Longrightarrow> i < vt_filled t"
  by (auto simp: space_def)

lemma space_used: "space V t fs L \<Longrightarrow> (\<And>i. i \<notin> L \<Longrightarrow> V i = U i) \<Longrightarrow> space U t fs L"
proof -
  assume sp: "space V t fs L" and eq: "\<And>i. i \<notin> L \<Longrightarrow> V i = U i"
  have "U x = V x" if "x \<in> set fs" for x
    using that sp eq [of x] by (metis IntI empty_iff space_def)
  then have "free_list U (vt_last_removed t) fs = free_list V (vt_last_removed t) fs"
    by (rule free_list_cong)
  with sp show ?thesis by (simp add: space_def)
qed

lemma space_upd: "space V t fs L \<Longrightarrow> i \<in> L \<Longrightarrow> space (V(i := s)) t fs L"
  by (erule space_used) auto

lemma next_free_grow:
  assumes sp: "space V t [] L" and room: "unat (vt_filled t) + 1 < 2 ^ 64"
  shows "ValueTable_next_free t w =
           Inr (vt_filled t, t\<lparr>vt_filled := vt_filled t + 1, vt_dirty_header := True\<rparr>)"
    and "vt_filled t \<notin> L" and "vt_filled t \<noteq> 0"
    and "unat (vt_filled t + 1) = unat (vt_filled t) + 1"
    and "space V (t\<lparr>vt_filled := vt_filled t + 1, vt_dirty_header := True\<rparr>) [] (insert (vt_filled t) L)"
proof -
  from sp have L: "L = {i. 0 < i \<and> i < vt_filled t}" and f0: "0 < vt_filled t"
    and lr: "vt_last_removed t = 0"
    by (simp_all add: space_def)
  show f1: "unat (vt_filled t + 1) = unat (vt_filled t) + 1"
    using room by (simp add: unat_add_no_overflow)
  show "ValueTable_next_free t w =
           Inr (vt_filled t, t\<lparr>vt_filled := vt_filled t + 1, vt_dirty_header := True\<rparr>)"
    using lr by (simp add: ValueTable_next_free_def Let_def)
  show "vt_filled t \<notin> L" "vt_filled t \<noteq> 0" using f0 by (simp_all add: L)
  have "i < vt_filled t + 1 \<longleftrightarrow> i = vt_filled t \<or> i < vt_filled t" for i
    by (auto simp: word_less_nat_alt f1 less_Suc_eq word_unat_eq_iff)
  then have "insert (vt_filled t) L = {i. 0 < i \<and> i < vt_filled t + 1}"
    using f0 by (auto simp: L)
  moreover have "0 < vt_filled t + 1" by (simp add: word_less_nat_alt f1)
  ultimately show "space V (t\<lparr>vt_filled := vt_filled t + 1, vt_dirty_header := True\<rparr>) []
      (insert (vt_filled t) L)"
    using lr by (simp add: space_def)
qed

lemma next_free_pop:
  assumes "vt_ok t" and sp: "space (W t w) t (x # xs) L"
  shows "\<exists>n. ValueTable_next_free t w =
           Inr (x, t\<lparr>vt_last_removed := n, vt_dirty_header := True\<rparr>) \<and> x \<notin> L \<and> x \<noteq> 0 \<and>
           space (W t w) (t\<lparr>vt_last_removed := n, vt_dirty_header := True\<rparr>) xs (insert x L)"
proof -
  from sp obtain n where n: "vt_last_removed t = x" "x \<noteq> 0" "W t w x = Some (Free n)"
      "free_list (W t w) n xs"
    by (auto simp: space_def)
  have rd: "ValueTable_read_next_free t x (LogWriter_query w) = Inr n"
    by (rule lwq.read_next_free_view [OF n(3) assms(1)])
  have "set xs \<union> insert x L = set (x # xs) \<union> L" by simp
  then have "space (W t w) (t\<lparr>vt_last_removed := n, vt_dirty_header := True\<rparr>) xs (insert x L)"
    using sp n(4) by (simp add: space_def)
  moreover have "x \<notin> L" using sp by (simp add: space_def)
  ultimately show ?thesis
    using n rd by (intro exI [of _ n]) (simp add: ValueTable_next_free_def Let_def)
qed

lemma next_free_space:
  assumes "vt_ok t" and sp: "space (W t w) t fs L" and room: "unat (vt_filled t) + 1 < 2 ^ 64"
  shows "\<exists>i t' fs'. ValueTable_next_free t w = Inr (i, t') \<and> same_table t t' \<and>
           i \<notin> L \<and> i \<noteq> 0 \<and> space (W t w) t' fs' (insert i L) \<and>
           unat (vt_filled t') \<le> unat (vt_filled t) + 1 \<and> vt_filled t \<le> vt_filled t'"
proof (cases fs)
  case Nil
  note nf = next_free_grow [OF sp [unfolded Nil] room]
  show ?thesis
    using nf(2-5)
    by (intro exI [of _ "vt_filled t"] exI [of _ "[]"]
        exI [of _ "t\<lparr>vt_filled := vt_filled t + 1, vt_dirty_header := True\<rparr>"]) (simp add: nf(1) word_le_nat_alt)
next
  case (Cons y ys)
  obtain n where nf: "ValueTable_next_free t w = Inr (y, t\<lparr>vt_last_removed := n, vt_dirty_header := True\<rparr>)"
      "y \<notin> L" "y \<noteq> 0"
      "space (W t w) (t\<lparr>vt_last_removed := n, vt_dirty_header := True\<rparr>) ys (insert y L)"
    using next_free_pop [OF assms(1) sp [unfolded Cons]] by blast
  show ?thesis
    using nf(2-4)
    by (intro exI [of _ y] exI [of _ ys]
        exI [of _ "t\<lparr>vt_last_removed := n, vt_dirty_header := True\<rparr>"]) (simp add: nf(1))
qed


section \<open>Freeing\<close>

definition wbuf :: "nat \<Rightarrow> bytes \<Rightarrow> Entry" where
  "wbuf cap d = \<lparr>en_off = length d, en_buf = d, en_cap = cap\<rparr>"

lemma wbuf_new: "Entry_new_uninit cap = wbuf cap []"
  by (simp add: wbuf_def Entry_new_uninit_def)

lemma wbuf_write: "length d + length x \<le> cap \<Longrightarrow> Entry_write_slice (wbuf cap d) x = Inr (wbuf cap (d @ x))"
  by (simp add: wbuf_def Entry_write_slice_def overwrite_def Let_def)

lemma wbuf_simps [simp]: "en_off (wbuf cap d) = length d" "en_buf (wbuf cap d) = d"
  by (simp_all add: wbuf_def)

lemma length_markers [simp]:
  "length TOMBSTONE = 2" "length MULTIPART = 2" "length MULTIHEAD = 2"
  by (simp_all add: markers)

text \<open>A page of a table has the length its first two bytes announce; page 0 is the header.\<close>

definition page_ok :: "ValueTable \<Rightarrow> u64 \<Rightarrow> bytes \<Rightarrow> bool" where
  "page_ok t i d \<longleftrightarrow>
     (if i = 0 then length d = 16
      else case decode_slot t d of
             None \<Rightarrow> False
           | Some (Free _) \<Rightarrow> length d = 10
           | Some (Part _ _) \<Rightarrow> length d = unat (vt_entry_size t)
           | Some (Last _ b) \<Rightarrow> length d = 2 + length b)"

lemma page_ok_tombstone: "i \<noteq> 0 \<Longrightarrow> page_ok t i (TOMBSTONE @ to_le 8 (nx :: u64))"
  by (simp add: page_ok_def decode_tombstone_bytes)

lemma page_ok_last:
  "i \<noteq> 0 \<Longrightarrow> vt_ok t \<Longrightarrow> 2 + length body \<le> unat (vt_entry_size t) \<Longrightarrow>
     page_ok t i (to_le 2 (size_word (length body) c) @ body)"
  by (simp add: page_ok_def decode_last_bytes)

lemma page_ok_part:
  assumes "i \<noteq> 0" and "vt_ok t" and "vt_multipart t" and "length body = unat (vt_entry_size t) - 10"
    and "m = MULTIHEAD \<or> m = MULTIPART"
  shows "page_ok t i (m @ to_le 8 (nx :: u64) @ body)"
proof -
  have "length m = 2" using assms(5) by auto
  moreover have "10 \<le> unat (vt_entry_size t)" using assms(2) by (simp add: vt_ok_def)
  ultimately show ?thesis
    using assms by (simp add: page_ok_def decode_part_bytes)
qed

text \<open>The pages of a table that are in the log: all of them are well formed and below the fill mark.\<close>

definition pages_ok :: "ValueTable \<Rightarrow> LogWriter \<Rightarrow> bool" where
  "pages_ok t w \<longleftrightarrow>
     (\<forall>i d. writer_stored w (vt_id t) i = Some d \<longrightarrow> page_ok t i d \<and> (i \<noteq> 0 \<longrightarrow> i < vt_filled t))"

lemma pages_ok_insert:
  "pages_ok t w \<Longrightarrow> page_ok t i d \<Longrightarrow> i \<noteq> 0 \<Longrightarrow> i < vt_filled t \<Longrightarrow> pages_ok t (LogWriter_insert_value w (vt_id t) i d)"
  by (simp add: pages_ok_def writer_stored_insert_value)

lemma page_ok_cong:
  assumes "vt_entry_size t' = vt_entry_size t" "vt_multipart t' = vt_multipart t" "vt_db_version t' = vt_db_version t"
  shows "page_ok t' = page_ok t"
  unfolding page_ok_def decode_cong [OF assms] assms(1) ..

lemma page_ok_same: "same_table t t' \<Longrightarrow> page_ok t' = page_ok t"
  by (rule page_ok_cong) (simp_all add: same_table_def)

lemma pages_ok_same:
  assumes "same_table t t'" and "vt_filled t \<le> vt_filled t'" and "pages_ok t w"
  shows "pages_ok t' w"
proof -
  have "vt_id t' = vt_id t" using assms(1) by (simp add: same_table_def)
  then show ?thesis using assms(2,3) by (auto simp: pages_ok_def page_ok_same [OF assms(1)] dest: less_le_trans)
qed

lemma clear_slot_eq:
  "ValueTable_clear_slot t i w =
     Inr (t\<lparr>vt_last_removed := i, vt_dirty_header := True\<rparr>,
          LogWriter_insert_value w (vt_id t) i (TOMBSTONE @ to_le 8 (vt_last_removed t)))"
  by (simp add: ValueTable_clear_slot_def wbuf_new Entry_write_tombstone_def Entry_write_next_def
      wbuf_write Let_def)

lemma clear_slot_space:
  assumes sp: "space (W t w) t fs L" and i: "i \<in> L"
  shows "\<exists>t' w'. ValueTable_clear_slot t i w = Inr (t', w') \<and> same_table t t' \<and>
           value_frame (vt_id t) w w' \<and> W t' w' = (W t w)(i := Some (Free (vt_last_removed t))) \<and>
           space (W t' w') t' (i # fs) (L - {i}) \<and> vt_filled t' = vt_filled t \<and>
           (pages_ok t w \<longrightarrow> pages_ok t' w')"
proof -
  let ?t = "t\<lparr>vt_last_removed := i, vt_dirty_header := True\<rparr>"
  let ?w = "LogWriter_insert_value w (vt_id t) i (TOMBSTONE @ to_le 8 (vt_last_removed t))"
  have v: "W ?t ?w = (W t w)(i := Some (Free (vt_last_removed t)))"
    by (simp add: same_table_W [of t ?t, simplified] W_insert_value decode_tombstone_bytes)
  have fs: "free_list ((W t w)(i := Some (Free (vt_last_removed t)))) (vt_last_removed t) fs"
    using sp i by (subst free_list_cong [of _ _ "W t w"]) (auto simp: space_def)
  have "set (i # fs) \<union> (L - {i}) = set fs \<union> L" using i by auto
  then have "space ((W t w)(i := Some (Free (vt_last_removed t)))) ?t (i # fs) (L - {i})"
    using fs space_nonzero [OF sp i] sp i by (simp add: space_def) blast
  then have "space (W ?t ?w) ?t (i # fs) (L - {i})" by (simp only: v)
  moreover have "pages_ok t w \<longrightarrow> pages_ok ?t ?w"
    using pages_ok_insert [of t w i, OF _ page_ok_tombstone] pages_ok_same [of t ?t ?w] space_nonzero [OF sp i] space_below [OF sp i]
    by simp
  ultimately show ?thesis using v
    by (intro exI [of _ ?t] exI [of _ ?w]) (simp add: clear_slot_eq)
qed

lemma clear_chain_loop_space:
  assumes "vt_ok t" and "chain (W t w) c cs" and "space (W t w) t fs L"
    and "set (slots_of cs) \<subseteq> L" and "length cs \<le> n"
  shows "\<exists>t' w'. clear_chain_loop n t (fst (hd cs)) w = Inr (t', w') \<and> same_table t t' \<and>
           value_frame (vt_id t) w w' \<and>
           (\<forall>j. j \<notin> set (slots_of cs) \<longrightarrow> W t' w' j = W t w j) \<and>
           (\<forall>j\<in>set (slots_of cs). \<exists>x. W t' w' j = Some (Free x)) \<and>
           space (W t' w') t' (rev (slots_of cs) @ fs) (L - set (slots_of cs)) \<and>
           vt_filled t' = vt_filled t \<and> (pages_ok t w \<longrightarrow> pages_ok t' w')"
  using assms
proof (induction cs arbitrary: n t w fs L)
  case Nil
  then show ?case by simp
next
  case (Cons x cs)
  obtain n' where n: "n = Suc n'" using Cons.prems(5) by (cases n) auto
  obtain t1 w1 where c1: "ValueTable_clear_slot t (fst x) w = Inr (t1, w1)" "same_table t t1"
      "value_frame (vt_id t) w w1" "W t1 w1 = (W t w)(fst x := Some (Free (vt_last_removed t)))"
      "space (W t1 w1) t1 (fst x # fs) (L - {fst x})" "vt_filled t1 = vt_filled t" "pages_ok t w \<longrightarrow> pages_ok t1 w1"
    using clear_slot_space [OF Cons.prems(3), of "fst x"] Cons.prems(4) by auto
  show ?case
  proof (cases cs)
    case Nil
    then have "ValueTable_read_next_part t (fst x) (LogWriter_query w) = Inr None"
      using lwq.read_next_part_view [of t w "fst x" "Last c (snd x)"] Cons.prems(1,2) by simp
    then show ?thesis
      using Nil n c1 by simp
  next
    case (Cons y ys)
    then have hd: "W t w (fst x) = Some (Part (fst y) (snd x))" and tl: "chain (W t w) c cs"
      using Cons.prems(2) by auto
    have notin: "fst x \<notin> set (slots_of cs)"
      using chain_distinct [OF Cons.prems(2)] by simp
    have rd: "ValueTable_read_next_part t (fst x) (LogWriter_query w) = Inr (Some (fst y))"
      using lwq.read_next_part_view [OF hd Cons.prems(1)] by simp
    have tl1: "chain (W t1 w1) c cs"
      using tl notin by (simp add: c1(4) chain_upd del: list.set_map)
    have sub: "set (slots_of cs) \<subseteq> L - {fst x}"
      using Cons.prems(4) notin by (simp add: subset_Diff_insert)
    obtain t' w' where r: "clear_chain_loop n' t1 (fst (hd cs)) w1 = Inr (t', w')" "same_table t1 t'"
        "value_frame (vt_id t1) w1 w'"
        "\<forall>j. j \<notin> set (slots_of cs) \<longrightarrow> W t' w' j = W t1 w1 j"
        "\<forall>j\<in>set (slots_of cs). \<exists>x. W t' w' j = Some (Free x)"
        "space (W t' w') t' (rev (slots_of cs) @ fst x # fs) (L - {fst x} - set (slots_of cs))"
        "vt_filled t' = vt_filled t1" "pages_ok t1 w1 \<longrightarrow> pages_ok t' w'"
      using Cons.IH [of t1 w1 "fst x # fs" "L - {fst x}" n'] Cons.prems(1,5) c1(2,5) tl1 sub n
      by (auto simp: same_table_ok)
    have id1: "vt_id t1 = vt_id t" using c1(2) by (simp add: same_table_def)
    show ?thesis
    proof (intro exI conjI)
      show "clear_chain_loop n t (fst (hd (x # cs))) w = Inr (t', w')"
        using n rd c1(1) r(1) Cons by simp
      show "same_table t t'" using c1(2) r(2) by (rule same_table_trans)
      show "value_frame (vt_id t) w w'" using c1(3) r(3) id1 value_frame_trans by metis
      show "\<forall>j. j \<notin> set (slots_of (x # cs)) \<longrightarrow> W t' w' j = W t w j"
        using r(4) by (auto simp: c1(4))
      show "\<forall>j\<in>set (slots_of (x # cs)). \<exists>x. W t' w' j = Some (Free x)"
        using r(4,5) notin by (auto simp: c1(4))
      have "L - {fst x} - set (slots_of cs) = L - set (slots_of (x # cs))" by auto
      then show "space (W t' w') t' (rev (slots_of (x # cs)) @ fs) (L - set (slots_of (x # cs)))"
        using r(6) by simp
      show "vt_filled t' = vt_filled t" using r(7) c1(6) by simp
      show "pages_ok t w \<longrightarrow> pages_ok t' w'" using r(8) c1(7) by simp
    qed
  qed
qed

lemmas clear_chain_space =
  clear_chain_loop_space [where n = "Suc u64_states", folded ValueTable_clear_chain_def]


section \<open>Laying a value over a chain\<close>

text \<open>What is left to write: the header in front of the first byte, then the value.\<close>

definition hdr_bytes :: "ValueTable \<Rightarrow> Key \<Rightarrow> bytes" where
  "hdr_bytes t key = (if vt_ref_counted t then to_le 4 (1 :: u32) else []) @ partial_key key"

definition todo :: "ValueTable \<Rightarrow> Key \<Rightarrow> bytes \<Rightarrow> nat \<Rightarrow> bytes" where
  "todo t key value offset = (if offset = 0 then hdr_bytes t key else []) @ drop offset value"

lemma length_hdr_bytes: "length key = KEY_LEN \<Longrightarrow> length (hdr_bytes t key) = hdr_len t"
  by (simp add: hdr_bytes_def hdr_len_def ValueTable_ref_size_def partial_key_def KEY_LEN_def size_consts)

lemma hdr_len_bound: "hdr_len t \<le> 30" "26 \<le> hdr_len t"
  by (simp_all add: hdr_len_def ValueTable_ref_size_def size_consts)

lemma same_table_todo: "same_table t t' \<Longrightarrow> todo t' = todo t"
  by (intro ext) (simp add: todo_def hdr_bytes_def same_table_def)

text \<open>The header and the value bytes of one slot, after its marker or size field.\<close>

lemma overwrite_fill_eq:
  assumes "length key = KEY_LEN"
    and "k \<le> length (todo t key value offset)" and "offset \<le> length value" and "length d + k \<le> cap"
    and "(if offset = 0 then hdr_len t else 0) \<le> k"
  shows "overwrite_fill t key value offset k (wbuf cap d) =
     Inr (offset + (k - (if offset = 0 then hdr_len t else 0)),
          wbuf cap (d @ take k (todo t key value offset)))"
proof -
  note hl = length_hdr_bytes [OF assms(1), of t]
  show ?thesis
  proof (cases "offset = 0")
    case True
    have w1: "and_then (if vt_ref_counted t then Entry_write_rc (wbuf cap d) 1 else Inr (wbuf cap d))
          (\<lambda>buf. Entry_write_slice buf (partial_key key)) = Inr (wbuf cap (d @ hdr_bytes t key))"
      using assms(4,5) True hl
      by (auto simp: Entry_write_rc_def wbuf_write hdr_bytes_def)
    have "take k (todo t key value 0) = hdr_bytes t key @ take (k - hdr_len t) value"
      using assms(5) True hl by (simp add: todo_def)
    moreover have "k - hdr_len t \<le> length value"
      using assms(2) True hl by (simp add: todo_def)
    ultimately show ?thesis
      using True w1 hl assms(4,5) by (simp add: overwrite_fill_def wbuf_write Let_def)
  next
    case False
    then have "take k (todo t key value offset) = slice_of offset (offset + k) value"
      by (simp add: todo_def slice_of_def)
    moreover have "\<not> length value < offset + k"
      using assms(2,3) False by (simp add: todo_def)
    ultimately show ?thesis
      using False assms(3,4) by (simp add: overwrite_fill_def wbuf_write)
  qed
qed

lemma vt_ok_buf: "vt_ok t \<Longrightarrow> 32 \<le> unat (vt_entry_size t) \<and> unat (vt_entry_size t) \<le> MAX_ENTRY_BUF_SIZE"
  by (auto simp: vt_ok_def MAX_ENTRY_BUF_SIZE_def)

lemma overwrite_step_last:
  assumes "vt_ok t" and "length key = KEY_LEN" and "offset \<le> length value"
    and td: "td = todo t key value offset" "2 + length td \<le> unat (vt_entry_size t)"
    and nx: "overwrite_next t w i follow = Inr (nx, follow')"
  shows "overwrite_loop (Suc n) key value c t w i follow offset (length td) start =
     (let w1 = LogWriter_insert_value w (vt_id t) i (to_le 2 (size_word (length td) c) @ td)
      in and_then (if nx \<noteq> 0 then ValueTable_clear_chain t nx w1 else Inr (t, w1))
           (\<lambda>(t, w). Inr (if start = 0 then i else start, t, w)))"
proof -
  have le: "\<not> unat (vt_entry_size t) - 2 < length td" using td(2) by simp
  have mark: "overwrite_mark t w c nx follow' (length td) start =
      Inr (length td, nx, t, wbuf MAX_ENTRY_BUF_SIZE (to_le 2 (size_word (length td) c)))"
    using le
    by (simp add: overwrite_mark_def Entry_write_size_def wbuf_new wbuf_write size_word_def
        Let_def SIZE_SIZE_def MAX_ENTRY_BUF_SIZE_def)
  have "length (to_le 2 (size_word (length td) c)) + length td \<le> MAX_ENTRY_BUF_SIZE"
    using td(2) vt_ok_buf [OF assms(1)] by simp
  then obtain off' where "overwrite_fill t key value offset (length td)
        (wbuf MAX_ENTRY_BUF_SIZE (to_le 2 (size_word (length td) c))) =
      Inr (off', wbuf MAX_ENTRY_BUF_SIZE (to_le 2 (size_word (length td) c) @ td))"
    using overwrite_fill_eq [OF assms(2) _ assms(3), of "length td" t] td(1)
    by (simp add: todo_def length_hdr_bytes [OF assms(2)])
  with nx mark show ?thesis
    by (simp add: Let_def)
qed

lemma overwrite_step_part:
  assumes "vt_ok t" and "vt_multipart t" and "length key = KEY_LEN" and "offset \<le> length value"
    and td: "td = todo t key value offset" "unat (vt_entry_size t) < 2 + length td"
    and nx: "overwrite_next t w i follow = Inr (nx0, follow')"
    and alloc: "(if \<not> follow' then ValueTable_next_free t w else Inr (nx0, t)) = Inr (nx, t1)"
    and same: "same_table t t1"
  shows "overwrite_loop (Suc n) key value c t w i follow offset (length td) start =
     overwrite_loop n key value c t1
       (LogWriter_insert_value w (vt_id t) i
         ((if start = 0 then MULTIHEAD else MULTIPART) @ to_le 8 nx @ take (unat (vt_entry_size t) - 10) td))
       nx follow' (offset + (unat (vt_entry_size t) - 10 - (if offset = 0 then hdr_len t else 0)))
       (length td - (unat (vt_entry_size t) - 10)) (if start = 0 then i else start)"
proof -
  define k where "k = unat (vt_entry_size t) - 10"
  have es: "48 \<le> unat (vt_entry_size t)" using assms(1,2) by (simp add: vt_ok_def)
  then have k: "unat (vt_entry_size t) = k + 10" "38 \<le> k" "8 + k < length td"
    using td(2) by (simp_all add: k_def)
  let ?m = "(if start = 0 then MULTIHEAD else MULTIPART) @ to_le 8 nx"
  have "Entry_write_multihead (wbuf MAX_ENTRY_BUF_SIZE []) = Inr (wbuf MAX_ENTRY_BUF_SIZE MULTIHEAD)"
    "Entry_write_multipart (wbuf MAX_ENTRY_BUF_SIZE []) = Inr (wbuf MAX_ENTRY_BUF_SIZE MULTIPART)"
    by (simp_all add: Entry_write_multihead_def Entry_write_multipart_def wbuf_write MAX_ENTRY_BUF_SIZE_def)
  then have mark: "overwrite_mark t w c nx0 follow' (length td) start =
      Inr (k, nx, t1, wbuf MAX_ENTRY_BUF_SIZE ?m)"
    using alloc k
    by (simp add: overwrite_mark_def Entry_write_next_def wbuf_new wbuf_write Let_def
        SIZE_SIZE_def INDEX_SIZE_def MAX_ENTRY_BUF_SIZE_def)
  have "length ?m + k \<le> MAX_ENTRY_BUF_SIZE"
    using k vt_ok_buf [OF assms(1)] by simp
  moreover have "todo t1 = todo t" "hdr_len t1 = hdr_len t"
    using same by (simp_all add: same_table_todo same_table_header)
  ultimately have "overwrite_fill t1 key value offset k (wbuf MAX_ENTRY_BUF_SIZE ?m) =
      Inr (offset + (k - (if offset = 0 then hdr_len t else 0)),
           wbuf MAX_ENTRY_BUF_SIZE (?m @ take k td))"
    using overwrite_fill_eq [OF assms(3) _ assms(4), of k t1] td(1) k hdr_len_bound(1) [of t]
    by simp
  moreover have "vt_id t1 = vt_id t" using same by (simp add: same_table_def)
  ultimately show ?thesis
    using nx mark k by (simp add: Let_def k_def [symmetric])
qed

declare overwrite_loop.simps(2) [simp del]

text \<open>
  The slots the loop may reuse: the rest of the old chain while it follows one, otherwise just
  the slot it was given.
\<close>

definition reusable :: "(u64 \<Rightarrow> slot option) \<Rightarrow> bool \<Rightarrow> u64 \<Rightarrow> cells \<Rightarrow> bool" where
  "reusable V follow i us \<longleftrightarrow>
     (if follow then (\<exists>c. chain V c us) \<and> fst (hd us) = i else slots_of us = [i])"

lemma reusable_upd: "i \<notin> set (slots_of us) \<Longrightarrow> reusable (V(i := s)) follow nx us = reusable V follow nx us"
  by (simp add: reusable_def chain_upd)

lemma reusable_split:
  assumes "reusable V follow i us"
  obtains x ys where "us = x # ys" "fst x = i" "i \<notin> set (slots_of ys)" "\<not> follow \<longrightarrow> ys = []"
    "ys \<noteq> [] \<longrightarrow> reusable V True (fst (hd ys)) ys \<and> fst (hd ys) \<noteq> 0 \<and> (\<exists>b. V i = Some (Part (fst (hd ys)) b))"
    "follow \<and> ys = [] \<longrightarrow> (\<exists>c b. V i = Some (Last c b))"
proof (cases follow)
  case True
  with assms obtain c where c: "chain V c us" "fst (hd us) = i" by (auto simp: reusable_def)
  then obtain x ys where xs: "us = x # ys" by (cases us) auto
  show ?thesis
  proof (rule that [OF xs])
    show "fst x = i" using c xs by simp
    then show "i \<notin> set (slots_of ys)" using chain_distinct [OF c(1)] xs by simp
    show "\<not> follow \<longrightarrow> ys = []" using True by simp
    show "ys \<noteq> [] \<longrightarrow> reusable V True (fst (hd ys)) ys \<and> fst (hd ys) \<noteq> 0 \<and>
        (\<exists>b. V i = Some (Part (fst (hd ys)) b))"
      using c xs by (cases ys) (auto simp: reusable_def)
    show "follow \<and> ys = [] \<longrightarrow> (\<exists>c b. V i = Some (Last c b))"
      using c xs by auto
  qed
next
  case False
  with assms obtain x where "us = [x]" "fst x = i" by (auto simp: reusable_def map_eq_Cons_conv)
  then show ?thesis using that False by auto
qed

lemma overwrite_next_eq:
  assumes "vt_ok t" and "reusable (W t w) follow i us"
  shows "overwrite_next t w i follow =
           Inr (case us of x # y # ys \<Rightarrow> (fst y, True) | _ \<Rightarrow> (0, False))"
  using assms(2)
proof (rule reusable_split)
  fix x ys
  assume us: "us = x # ys" "\<not> follow \<longrightarrow> ys = []"
    and part: "ys \<noteq> [] \<longrightarrow> reusable (W t w) True (fst (hd ys)) ys \<and> fst (hd ys) \<noteq> 0 \<and>
        (\<exists>b. W t w i = Some (Part (fst (hd ys)) b))"
    and last: "follow \<and> ys = [] \<longrightarrow> (\<exists>c b. W t w i = Some (Last c b))"
  show ?thesis
  proof (cases ys)
    case Nil
    then show ?thesis
      using us last lwq.read_next_part_view [OF _ assms(1), of w i] by (auto simp: overwrite_next_def)
  next
    case (Cons y zs)
    then show ?thesis
      using us part lwq.read_next_part_view [OF _ assms(1), of w i] by (auto simp: overwrite_next_def)
  qed
qed

text \<open>Where a part goes on: the old chain's next slot, or a newly allocated one.\<close>

lemma overwrite_alloc:
  assumes "vt_ok t" and sp: "space (W t w) t fs L" and old: "reusable (W t w) follow i us"
    and sub: "set (slots_of us) \<subseteq> L" and room: "unat (vt_filled t) + 1 < 2 ^ 64"
  shows "\<exists>nx0 follow' nx t1 fs1 L1 us1.
     overwrite_next t w i follow = Inr (nx0, follow') \<and>
     (if \<not> follow' then ValueTable_next_free t w else Inr (nx0, t)) = Inr (nx, t1) \<and>
     same_table t t1 \<and> space (W t w) t1 fs1 L1 \<and> unat (vt_filled t1) \<le> unat (vt_filled t) + 1 \<and>
     nx \<noteq> 0 \<and> reusable (W t w) follow' nx us1 \<and> i \<notin> set (slots_of us1) \<and>
     set (slots_of us1) \<subseteq> L1 \<and> L1 - set (slots_of us1) = insert i (L - set (slots_of us)) \<and>
     vt_filled t \<le> vt_filled t1"
  using old
proof (rule reusable_split)
  fix x ys
  assume us: "us = x # ys" "fst x = i" "i \<notin> set (slots_of ys)"
    and part: "ys \<noteq> [] \<longrightarrow> reusable (W t w) True (fst (hd ys)) ys \<and> fst (hd ys) \<noteq> 0 \<and>
        (\<exists>b. W t w i = Some (Part (fst (hd ys)) b))"
  note nx = overwrite_next_eq [OF assms(1) old]
  show ?thesis
  proof (cases ys)
    case Nil
    obtain j t' fs' where nf: "ValueTable_next_free t w = Inr (j, t')" "same_table t t'"
        "j \<notin> L" "j \<noteq> 0" "space (W t w) t' fs' (insert j L)"
        "unat (vt_filled t') \<le> unat (vt_filled t) + 1" "vt_filled t \<le> vt_filled t'"
      using next_free_space [OF assms(1) sp room] by blast
    have "i \<in> L" using sub us by simp
    then show ?thesis
      using Nil nx us nf
      by (intro exI [of _ 0] exI [of _ False] exI [of _ j] exI [of _ t'] exI [of _ fs']
          exI [of _ "insert j L"] exI [of _ "[(j, [])]"]) (auto simp: reusable_def)
  next
    case (Cons y zs)
    have "L - set (slots_of ys) = insert i (L - set (slots_of us))"
      using us sub by auto
    then show ?thesis
      using Cons nx us part sub sp
      by (intro exI [of _ "fst y"] exI [of _ True] exI [of _ "fst y"] exI [of _ t] exI [of _ fs]
          exI [of _ L] exI [of _ ys]) auto
  qed
qed

lemma todo_after_part:
  assumes "length key = KEY_LEN" and "offset \<le> length value"
    and "38 \<le> k" and "k < length (todo t key value offset)"
    and off: "off = offset + (k - (if offset = 0 then hdr_len t else 0))"
  shows "0 < off" and "off \<le> length value" and "todo t key value off = drop k (todo t key value offset)"
proof -
  note hl = length_hdr_bytes [OF assms(1), of t] hdr_len_bound(1) [of t]
  show "0 < off" using assms(3) off hl by auto
  then show "off \<le> length value" "todo t key value off = drop k (todo t key value offset)"
    using assms(3,4) off hl by (auto simp: todo_def add.commute)
qed

text \<open>The last slot: the size field, the bytes left, and the rest of the old chain is freed.\<close>

lemma overwrite_last_space:
  assumes ok: "vt_ok t" and key: "length key = KEY_LEN" "offset \<le> length value"
    and td: "td = todo t key value offset" "2 + length td \<le> unat (vt_entry_size t)"
    and sp: "space (W t w) t fs L" and old: "reusable (W t w) follow i us"
    and sub: "set (slots_of us) \<subseteq> L"
  shows "\<exists>t' w' fs'.
     overwrite_loop (Suc n) key value c t w i follow offset (length td) start =
       Inr (if start = 0 then i else start, t', w') \<and>
     same_table t t' \<and> value_frame (vt_id t) w w' \<and> W t' w' i = Some (Last c td) \<and>
     space (W t' w') t' fs' (insert i (L - set (slots_of us))) \<and>
     (\<forall>j\<in>L - set (slots_of us). W t' w' j = W t w j) \<and> vt_filled t' = vt_filled t \<and>
     (pages_ok t w \<longrightarrow> pages_ok t' w')"
  using old
proof (rule reusable_split)
  fix x ys
  assume us: "us = x # ys" "fst x = i" "i \<notin> set (slots_of ys)"
    and part: "ys \<noteq> [] \<longrightarrow> reusable (W t w) True (fst (hd ys)) ys \<and> fst (hd ys) \<noteq> 0 \<and>
        (\<exists>b. W t w i = Some (Part (fst (hd ys)) b))"
  have i: "i \<in> L" using us sub by simp
  define w1 where "w1 = LogWriter_insert_value w (vt_id t) i (to_le 2 (size_word (length td) c) @ td)"
  have V1: "W t w1 = (W t w)(i := Some (Last c td))"
    unfolding w1_def W_insert_value by (simp add: decode_last_bytes [OF ok td(2)])
  have sp1: "space (W t w1) t fs L"
    unfolding V1 by (rule space_upd [OF sp i])
  have fr1: "value_frame (vt_id t) w w1" by (simp add: w1_def)
  have pg1: "pages_ok t w \<longrightarrow> pages_ok t w1"
    unfolding w1_def using pages_ok_insert page_ok_last [OF _ ok td(2)] space_nonzero [OF sp i] space_below [OF sp i] by blast
  have nx: "overwrite_next t w i follow = Inr (case ys of y # zs \<Rightarrow> (fst y, True) | _ \<Rightarrow> (0, False))"
    using overwrite_next_eq [OF ok old] us(1) by (simp split: list.split)
  note step = overwrite_step_last [OF ok key td, where w = w and i = i and c = c and follow = follow, folded w1_def,
      unfolded Let_def]
  show ?thesis
  proof (cases ys)
    case Nil
    have "insert i (L - set (slots_of us)) = L" using us i Nil by auto
    then show ?thesis
      using Nil us nx step [of 0 False n start] sp1 fr1 V1 pg1
      by (intro exI [of _ t] exI [of _ w1] exI [of _ fs]) auto
  next
    case (Cons y zs)
    with part obtain c' where ch: "chain (W t w) c' ys" and nx0: "fst (hd ys) \<noteq> 0"
      by (auto simp: reusable_def)
    have ch1: "chain (W t w1) c' ys" using ch us(3) unfolding V1 by (simp add: chain_upd del: list.set_map)
    have "set (slots_of ys) \<subseteq> L" using sub us by auto
    from clear_chain_space [OF ok ch1 sp1 this] chain_length [OF ch]
    obtain t' w' where cl: "ValueTable_clear_chain t (fst (hd ys)) w1 = Inr (t', w')"
        "same_table t t'" "value_frame (vt_id t) w1 w'"
        "\<forall>j. j \<notin> set (slots_of ys) \<longrightarrow> W t' w' j = W t w1 j"
        "space (W t' w') t' (rev (slots_of ys) @ fs) (L - set (slots_of ys))"
        "vt_filled t' = vt_filled t" "pages_ok t w1 \<longrightarrow> pages_ok t' w'"
      by auto
    have set: "insert i (L - set (slots_of us)) = L - set (slots_of ys)" using us i by auto
    show ?thesis
    proof (intro exI conjI)
      show "overwrite_loop (Suc n) key value c t w i follow offset (length td) start =
          Inr (if start = 0 then i else start, t', w')"
        using step [of "fst y" True n start] nx Cons us cl(1) nx0 by simp
      show "value_frame (vt_id t) w w'" using fr1 cl(3) by (rule value_frame_trans)
      show "W t' w' i = Some (Last c td)" using cl(4) us(3) by (simp add: V1)
      show "\<forall>j\<in>L - set (slots_of us). W t' w' j = W t w j" using cl(4) us by (auto simp: V1)
      show "space (W t' w') t' (rev (slots_of ys) @ fs) (insert i (L - set (slots_of us)))"
        using cl(5) by (simp only: set)
      show "pages_ok t w \<longrightarrow> pages_ok t' w'" using pg1 cl(7) by blast
    qed (fact cl)+
  qed
qed

theorem overwrite_loop_space:
  assumes "vt_ok t" and key: "length key = KEY_LEN" and "offset \<le> length value"
    and "td = todo t key value offset" and "td \<noteq> []" and "length td \<le> n"
    and "vt_multipart t \<or> 2 + length td \<le> unat (vt_entry_size t)"
    and "space (W t w) t fs L" and "reusable (W t w) follow i us" and "set (slots_of us) \<subseteq> L"
    and "unat (vt_filled t) + length td < 2 ^ 64"
  shows "\<exists>t' w' fs' cs.
     overwrite_loop n key value c t w i follow offset (length td) start =
       Inr (if start = 0 then i else start, t', w') \<and>
     same_table t t' \<and> value_frame (vt_id t) w w' \<and>
     chain (W t' w') c cs \<and> fst (hd cs) = i \<and> payload cs = td \<and> take 30 (snd (hd cs)) = take 30 td \<and>
     space (W t' w') t' fs' (set (slots_of cs) \<union> (L - set (slots_of us))) \<and>
     set (slots_of cs) \<inter> (L - set (slots_of us)) = {} \<and>
     (\<forall>j\<in>L - set (slots_of us). W t' w' j = W t w j) \<and>
     unat (vt_filled t') \<le> unat (vt_filled t) + length td \<and> (pages_ok t w \<longrightarrow> pages_ok t' w')"
  using assms
proof (induction n arbitrary: t w i follow offset td start fs L us)
  case 0
  then show ?case by simp
next
  case (Suc n)
  note ok = Suc.prems(1) and td = Suc.prems(4) and sp = Suc.prems(8)
    and old = Suc.prems(9) and sub = Suc.prems(10)
  let ?es = "unat (vt_entry_size t)"
  have i: "i \<in> set (slots_of us)" by (rule reusable_split [OF old]) simp
  show ?case
  proof (cases "2 + length td \<le> ?es")
    case True
    obtain t' w' fs' where r:
       "overwrite_loop (Suc n) key value c t w i follow offset (length td) start =
          Inr (if start = 0 then i else start, t', w')"
       "same_table t t'" "value_frame (vt_id t) w w'" "W t' w' i = Some (Last c td)"
       "space (W t' w') t' fs' (insert i (L - set (slots_of us)))"
       "\<forall>j\<in>L - set (slots_of us). W t' w' j = W t w j" "vt_filled t' = vt_filled t" "pages_ok t w \<longrightarrow> pages_ok t' w'"
      using overwrite_last_space [OF ok key Suc.prems(3) td True sp old sub] by blast
    show ?thesis
      using r i by (intro exI [of _ t'] exI [of _ w'] exI [of _ fs'] exI [of _ "[(i, td)]"]) auto
  next
    case False
    define k where "k = ?es - 10"
    have multi: "vt_multipart t" using Suc.prems(7) False by simp
    then have es: "48 \<le> ?es" using ok by (simp add: vt_ok_def)
    have k: "38 \<le> k" "8 + k < length td" using es False by (simp_all add: k_def)
    have room: "unat (vt_filled t) + 1 < 2 ^ 64" using Suc.prems(11) k by simp
    obtain nx0 follow' nx t1 fs1 L1 us1 where al:
        "overwrite_next t w i follow = Inr (nx0, follow')"
        "(if \<not> follow' then ValueTable_next_free t w else Inr (nx0, t)) = Inr (nx, t1)"
        "same_table t t1" "space (W t w) t1 fs1 L1" "unat (vt_filled t1) \<le> unat (vt_filled t) + 1"
        "nx \<noteq> 0" "reusable (W t w) follow' nx us1" "i \<notin> set (slots_of us1)"
        "set (slots_of us1) \<subseteq> L1" "L1 - set (slots_of us1) = insert i (L - set (slots_of us))"
        "vt_filled t \<le> vt_filled t1"
      using overwrite_alloc [OF ok sp old sub room] by (elim exE conjE) (rule that)
    define start1 where "start1 = (if start = 0 then i else start)"
    define off where "off = offset + (k - (if offset = 0 then hdr_len t else 0))"
    define w1 where "w1 = LogWriter_insert_value w (vt_id t) i
         ((if start = 0 then MULTIHEAD else MULTIPART) @ to_le 8 nx @ take k td)"
    have step: "overwrite_loop (Suc n) key value c t w i follow offset (length td) start =
        overwrite_loop n key value c t1 w1 nx follow' off (length td - k) start1"
      unfolding start1_def off_def w1_def k_def
      by (rule overwrite_step_part [OF ok multi key Suc.prems(3) td _ al(1-3)]) (use False in simp)
    have W1: "W t1 w1 = (W t w)(i := Some (Part nx (take k td)))"
      unfolding same_table_W [OF al(3)] w1_def W_insert_value
      using decode_part_bytes [OF ok multi, of "take k td"] k by (simp add: k_def)
    have ta: "0 < off" "off \<le> length value" "todo t key value off = drop k td"
      using todo_after_part [OF key Suc.prems(3) k(1) _ off_def, folded td] k by simp_all
    have i1: "i \<in> L1" using al(10) by auto
    have "page_ok t i ((if start = 0 then MULTIHEAD else MULTIPART) @ to_le 8 nx @ take k td)"
      by (rule page_ok_part [OF _ ok multi]) (use space_nonzero [OF al(4) i1] k in \<open>simp_all add: k_def\<close>)
    then have "page_ok t1 i ((if start = 0 then MULTIHEAD else MULTIPART) @ to_le 8 nx @ take k td)" "vt_id t1 = vt_id t"
      using page_ok_same [OF al(3)] al(3) by (simp_all add: same_table_def)
    then have pg1: "pages_ok t w \<longrightarrow> pages_ok t1 w1"
      unfolding w1_def using pages_ok_same [OF al(3,11)] pages_ok_insert [of t1 w i] space_nonzero [OF al(4) i1] space_below [OF al(4) i1]
      by metis
    have start1: "start1 \<noteq> 0" using space_nonzero [OF sp, of i] sub i by (auto simp: start1_def)
    have "\<exists>t' w' fs' cs.
       overwrite_loop n key value c t1 w1 nx follow' off (length (drop k td)) start1 =
         Inr (if start1 = 0 then nx else start1, t', w') \<and>
       same_table t1 t' \<and> value_frame (vt_id t1) w1 w' \<and>
       chain (W t' w') c cs \<and> fst (hd cs) = nx \<and> payload cs = drop k td \<and>
       take 30 (snd (hd cs)) = take 30 (drop k td) \<and>
       space (W t' w') t' fs' (set (slots_of cs) \<union> (L1 - set (slots_of us1))) \<and>
       set (slots_of cs) \<inter> (L1 - set (slots_of us1)) = {} \<and>
       (\<forall>j\<in>L1 - set (slots_of us1). W t' w' j = W t1 w1 j) \<and>
       unat (vt_filled t') \<le> unat (vt_filled t1) + length (drop k td) \<and> (pages_ok t1 w1 \<longrightarrow> pages_ok t' w')"
    proof (rule Suc.IH)
      show "vt_ok t1" using ok same_table_ok [OF al(3)] by simp
      show "drop k td = todo t1 key value off" using ta by (simp add: same_table_todo [OF al(3)])
      show "length (drop k td) \<le> n" using Suc.prems(6) k by simp
      show "vt_multipart t1 \<or> 2 + length (drop k td) \<le> unat (vt_entry_size t1)"
        using multi al(3) by (simp add: same_table_def)
      show "space (W t1 w1) t1 fs1 L1" unfolding W1 by (rule space_upd [OF al(4) i1])
      show "reusable (W t1 w1) follow' nx us1" unfolding W1 reusable_upd [OF al(8)] by (rule al(7))
      show "unat (vt_filled t1) + length (drop k td) < 2 ^ 64"
        using al(5) k Suc.prems(11) by simp
    qed (use ta k al(9) key in auto)
    then obtain t' w' fs' cs where r:
       "overwrite_loop n key value c t1 w1 nx follow' off (length td - k) start1 = Inr (start1, t', w')"
       "same_table t1 t'" "value_frame (vt_id t1) w1 w'"
       "chain (W t' w') c cs" "fst (hd cs) = nx" "payload cs = drop k td"
       "space (W t' w') t' fs' (set (slots_of cs) \<union> insert i (L - set (slots_of us)))"
       "set (slots_of cs) \<inter> insert i (L - set (slots_of us)) = {}"
       "\<forall>j\<in>insert i (L - set (slots_of us)). W t' w' j = W t1 w1 j"
       "unat (vt_filled t') \<le> unat (vt_filled t1) + (length td - k)" "pages_ok t1 w1 \<longrightarrow> pages_ok t' w'"
      using start1 unfolding al(10) by auto
    have ch: "chain (W t' w') c ((i, take k td) # cs)"
      using r(4,5,9) al(6) by (cases cs) (auto simp: W1)
    show ?thesis
    proof (intro exI conjI)
      show "overwrite_loop (Suc n) key value c t w i follow offset (length td) start =
          Inr (if start = 0 then i else start, t', w')"
        using step r(1) by (simp add: start1_def)
      show "same_table t t'" using al(3) r(2) by (rule same_table_trans)
      have "vt_id t1 = vt_id t" using al(3) by (simp add: same_table_def)
      then show "value_frame (vt_id t) w w'"
        using r(3) value_frame_trans [of "vt_id t" w w1 w'] by (simp add: w1_def)
      show "payload ((i, take k td) # cs) = td" using r(6) by simp
      show "take 30 (snd (hd ((i, take k td) # cs))) = take 30 td" using k by (simp add: min_def)
      show "space (W t' w') t' fs' (set (slots_of ((i, take k td) # cs)) \<union> (L - set (slots_of us)))"
        using r(7) by simp
      show "set (slots_of ((i, take k td) # cs)) \<inter> (L - set (slots_of us)) = {}"
        using r(8) i by auto
      show "\<forall>j\<in>L - set (slots_of us). W t' w' j = W t w j"
        using r(9) i by (auto simp: W1)
      show "unat (vt_filled t') \<le> unat (vt_filled t) + length td"
        using r(10) al(5) k by simp
      show "pages_ok t w \<longrightarrow> pages_ok t' w'" using pg1 r(11) by blast
    qed (use ch in simp_all)
  qed
qed

end
