(* ===== verification/Value_Store.thy ===== *)
theory Value_Store
  imports Value_Writes
begin

text \<open>
  A value table as a store. Abstractly a table is a partial map from addresses (slot numbers) to
  stored values with a reference counter and a partial key; \<open>represents\<close> relates the table, as
  seen by the writer of a record, to that map. Every operation of \<open>Value_Table\<close> is shown to
  implement the corresponding operation on the map. The interface is the locale \<open>counted_store\<close>;
  the table is its interpretation.
\<close>

section \<open>Abstract contents\<close>

record Stored =
  st_rc :: u32
  st_key :: bytes
  st_value :: bytes
  st_compressed :: bool

type_synonym contents = "u64 \<Rightarrow> Stored option"

definition cell_of :: "ValueTable \<Rightarrow> bool \<times> cells \<Rightarrow> Stored" where
  "cell_of t x =
     (let b = snd (hd (snd x))
      in \<lparr>st_rc = body_rc t b, st_key = body_pk t b, st_value = drop (hdr_len t) (payload (snd x)),
          st_compressed = fst x\<rparr>)"

abbreviation cslots :: "bool \<times> cells \<Rightarrow> u64 set" where
  "cslots x \<equiv> set (slots_of (snd x))"

definition used :: "(u64 \<Rightarrow> (bool \<times> cells) option) \<Rightarrow> u64 set" where
  "used C = {j. \<exists>a x. C a = Some x \<and> j \<in> cslots x}"

definition chain_at :: "(u64 \<Rightarrow> slot option) \<Rightarrow> ValueTable \<Rightarrow> u64 \<Rightarrow> bool \<times> cells \<Rightarrow> bool" where
  "chain_at V t a x \<longleftrightarrow>
     chain V (fst x) (snd x) \<and> fst (hd (snd x)) = a \<and>
     hdr_len t \<le> length (snd (hd (snd x))) \<and> 0 < body_rc t (snd (hd (snd x)))"

definition table_inv ::
    "(u64 \<Rightarrow> slot option) \<Rightarrow> ValueTable \<Rightarrow> u64 list \<Rightarrow> (u64 \<Rightarrow> (bool \<times> cells) option) \<Rightarrow> bool" where
  "table_inv V t fs C \<longleftrightarrow>
     (\<forall>a x. C a = Some x \<longrightarrow> chain_at V t a x) \<and>
     (\<forall>a b x y. C a = Some x \<longrightarrow> C b = Some y \<longrightarrow> a \<noteq> b \<longrightarrow> cslots x \<inter> cslots y = {}) \<and>
     space V t fs (used C)"

definition represents :: "ValueTable \<Rightarrow> LogWriter \<Rightarrow> contents \<Rightarrow> bool" where
  "represents t w S \<longleftrightarrow>
     vt_ok t \<and> pages_ok t w \<and> (\<exists>fs C. table_inv (W t w) t fs C \<and> S = (\<lambda>a. map_option (cell_of t) (C a)))"

lemma table_inv_chain: "table_inv V t fs C \<Longrightarrow> C a = Some x \<Longrightarrow> chain_at V t a x"
  unfolding table_inv_def by blast

lemma table_inv_disjoint:
  "table_inv V t fs C \<Longrightarrow> C a = Some x \<Longrightarrow> C b = Some y \<Longrightarrow> a \<noteq> b \<Longrightarrow> cslots x \<inter> cslots y = {}"
  unfolding table_inv_def by blast

lemma table_inv_space: "table_inv V t fs C \<Longrightarrow> space V t fs (used C)"
  unfolding table_inv_def by blast

lemma used_mem: "C a = Some x \<Longrightarrow> cslots x \<subseteq> used C"
  unfolding used_def by blast

lemma chain_at_cong:
  assumes "same_table t t'" and "\<And>j. j \<in> cslots x \<Longrightarrow> V' j = V j"
  shows "chain_at V' t' a x = chain_at V t a x"
  using chain_cong [of "snd x" V' V "fst x"] assms
  by (simp add: chain_at_def same_table_header)

lemma cell_of_same: "same_table t t' \<Longrightarrow> cell_of t' = cell_of t"
  by (rule ext) (simp add: cell_of_def same_table_header)

lemma chain_at_start: "chain_at V t a x \<Longrightarrow> a \<in> cslots x"
  by (cases "snd x") (auto simp: chain_at_def)

lemma used_update:
  assumes "table_inv V t fs C"
  shows "used (C(a := None)) = used C - (case C a of None \<Rightarrow> {} | Some x \<Rightarrow> cslots x)"
    and "used (C(a \<mapsto> y)) = cslots y \<union> (used C - (case C a of None \<Rightarrow> {} | Some x \<Rightarrow> cslots x))"
proof -
  have disj: "cslots x \<inter> cslots y = {}" if "C a = Some x" "C b = Some y" "a \<noteq> b" for b x y
    using table_inv_disjoint [OF assms] that by blast
  have "j \<in> used (C(a := None)) \<longleftrightarrow> j \<in> used C \<and> (\<forall>x. C a = Some x \<longrightarrow> j \<notin> cslots x)" for j
  proof
    assume "j \<in> used (C(a := None))"
    then obtain b x where bx: "(C(a := None)) b = Some x" and j: "j \<in> cslots x"
      unfolding used_def by blast
    then have b: "C b = Some x" "a \<noteq> b" by (cases "b = a"; simp)+
    with j show "j \<in> used C \<and> (\<forall>x. C a = Some x \<longrightarrow> j \<notin> cslots x)"
      using disj used_mem [of C b x] by blast
  next
    assume j: "j \<in> used C \<and> (\<forall>x. C a = Some x \<longrightarrow> j \<notin> cslots x)"
    then obtain b x where b: "C b = Some x" "j \<in> cslots x" unfolding used_def by blast
    with j have "b \<noteq> a" by blast
    with b show "j \<in> used (C(a := None))"
      using used_mem [of "C(a := None)" b x] by auto
  qed
  then show 1: "used (C(a := None)) = used C - (case C a of None \<Rightarrow> {} | Some x \<Rightarrow> cslots x)"
    by (auto split: option.split simp del: set_map)
  have "j \<in> used (C(a \<mapsto> y)) \<longleftrightarrow> j \<in> cslots y \<or> j \<in> used (C(a := None))" for j
    unfolding used_def mem_Collect_eq fun_upd_apply by (metis option.distinct(1) option.inject)
  then show "used (C(a \<mapsto> y)) = cslots y \<union> (used C - (case C a of None \<Rightarrow> {} | Some x \<Rightarrow> cslots x))"
    unfolding 1 [symmetric] by blast
qed

lemma table_inv_shrink:
  assumes inv: "table_inv V t fs C" and "same_table t t'"
    and keep: "\<And>j. j \<in> used (C(a := None)) \<Longrightarrow> V' j = V j"
    and sp: "space V' t' fs' (used (C(a := None)))"
  shows "table_inv V' t' fs' (C(a := None))"
proof -
  have "chain_at V' t' b x" if "(C(a := None)) b = Some x" for b x
  proof -
    have "chain_at V t b x" using table_inv_chain [OF inv, of b x] that by (cases "b = a") auto
    moreover have "cslots x \<subseteq> used (C(a := None))" by (rule used_mem) (rule that)
    ultimately show ?thesis
      using chain_at_cong [OF assms(2), of x V' V b] keep by blast
  qed
  moreover have "cslots x \<inter> cslots y = {}"
    if "(C(a := None)) b = Some x" "(C(a := None)) b' = Some y" "b \<noteq> b'" for b b' x y
    using table_inv_disjoint [OF inv, of b x b' y] that by (cases "b = a"; cases "b' = a") auto
  ultimately show ?thesis
    using sp unfolding table_inv_def by blast
qed

lemma table_inv_grow:
  assumes inv: "table_inv V t fs C" and "same_table t t'"
    and keep: "\<And>j. j \<in> used (C(a := None)) \<Longrightarrow> V' j = V j"
    and new: "chain_at V' t' a y" and disj: "cslots y \<inter> used (C(a := None)) = {}"
    and sp: "space V' t' fs' (cslots y \<union> used (C(a := None)))"
  shows "table_inv V' t' fs' (C(a \<mapsto> y))"
proof -
  have ch: "chain_at V' t' b x" if "C b = Some x" "b \<noteq> a" for b x
  proof -
    have "chain_at V t b x" using table_inv_chain [OF inv] that by blast
    moreover have "cslots x \<subseteq> used (C(a := None))" by (rule used_mem [of _ b]) (simp add: that)
    ultimately show ?thesis
      using chain_at_cong [OF assms(2), of x V' V b] keep by blast
  qed
  have dj: "cslots x \<inter> cslots y = {}" if "C b = Some x" "b \<noteq> a" for b x
  proof -
    have "cslots x \<subseteq> used (C(a := None))" by (rule used_mem [of _ b]) (simp add: that)
    with disj show ?thesis by blast
  qed
  have us: "used (C(a \<mapsto> y)) = cslots y \<union> used (C(a := None))"
    using used_update [OF inv] by simp
  show ?thesis
    unfolding table_inv_def us
  proof (intro conjI allI impI)
    fix b x assume "(C(a \<mapsto> y)) b = Some x"
    then show "chain_at V' t' b x" using ch new by (auto split: if_splits)
  next
    fix b b' x x'
    assume "(C(a \<mapsto> y)) b = Some x" "(C(a \<mapsto> y)) b' = Some x'" "b \<noteq> b'"
    then show "cslots x \<inter> cslots x' = {}"
      using table_inv_disjoint [OF inv, of b x b' x'] dj [of b x] dj [of b' x']
      by (cases "b = a"; cases "b' = a") auto
  qed (fact sp)
qed


section \<open>Inserting and replacing\<close>

definition fits :: "ValueTable \<Rightarrow> bytes \<Rightarrow> bool" where
  "fits t value \<longleftrightarrow> vt_multipart t \<or> length value \<le> unat (ValueTable_value_size t)"

definition room_for :: "ValueTable \<Rightarrow> bytes \<Rightarrow> bool" where
  "room_for t value \<longleftrightarrow> unat (vt_filled t) + length value + 32 < 2 ^ 64"

definition new_stored :: "Key \<Rightarrow> bytes \<Rightarrow> bool \<Rightarrow> Stored" where
  "new_stored key value c =
     \<lparr>st_rc = 1, st_key = partial_key key, st_value = value, st_compressed = c\<rparr>"

lemma unat_value_size:
  assumes "vt_ok t"
  shows "unat (ValueTable_value_size t) = unat (vt_entry_size t) - 2 - hdr_len t"
proof -
  have es: "32 \<le> unat (vt_entry_size t)" using assms by (simp add: vt_ok_def)
  have sub: "unat (x - of_nat n :: u16) = unat x - n" if "n \<le> unat x" for x n
  proof -
    have "unat (of_nat n :: u16) = n"
      by (rule unat_of_nat_small) (rule le_less_trans [OF that unsigned_less])
    then show ?thesis using that by (simp add: unat_sub word_le_nat_alt)
  qed
  show ?thesis
    using es unfolding ValueTable_value_size_def hdr_len_def ValueTable_ref_size_def
    by (auto simp only: sub size_consts if_True if_False split: if_split)
qed

lemma fits_entry:
  assumes "vt_ok t" and "fits t value"
  shows "vt_multipart t \<or> 2 + (hdr_len t + length value) \<le> unat (vt_entry_size t)"
proof -
  have "2 + hdr_len t \<le> unat (vt_entry_size t)"
    using assms(1) hdr_len_bound(1) [of t] by (auto simp: vt_ok_def)
  then show ?thesis
    using assms unfolding fits_def unat_value_size [OF assms(1)] by linarith
qed

lemma take_take_drop: "m + n \<le> k \<Longrightarrow> take k xs = take k ys \<Longrightarrow> take n (drop m xs) = take n (drop m ys)"
proof -
  assume le: "m + n \<le> k" and eq: "take k xs = take k ys"
  then have "take (n + m) (take k zs) = take (n + m) zs" for zs :: "'a list"
    by (simp add: min_def)
  with eq have "take (n + m) xs = take (n + m) ys" by metis
  then show ?thesis by (simp add: take_drop)
qed

lemma new_chain:
  assumes key: "length key = KEY_LEN" and ch: "chain V c cs"
    and pl: "payload cs = hdr_bytes t key @ value"
    and pre: "take 30 (snd (hd cs)) = take 30 (hdr_bytes t key @ value)"
  shows "chain_at V t (fst (hd cs)) (c, cs)" and "cell_of t (c, cs) = new_stored key value c"
proof -
  let ?b = "snd (hd cs)"
  note hl = length_hdr_bytes [OF key, of t] hdr_len_bound(1) [of t]
  have sub: "take n (drop m ?b) = take n (drop m (hdr_bytes t key @ value))" if "m + n \<le> 30" for m n
    using take_take_drop [OF that pre] .
  have pk: "body_pk t ?b = partial_key key"
    using sub [of "ValueTable_ref_size t" PARTIAL_SIZE] key
    by (simp add: body_pk_def hdr_bytes_def ValueTable_ref_size_def partial_key_def KEY_LEN_def size_consts)
  have rc: "body_rc t ?b = 1"
    using sub [of 0 REFS_SIZE] by (simp add: body_rc_def hdr_bytes_def size_consts)
  have "length (take (hdr_len t) ?b) = hdr_len t"
    using sub [of 0 "hdr_len t"] hl by simp
  then have len: "hdr_len t \<le> length ?b" by simp
  show "chain_at V t (fst (hd cs)) (c, cs)"
    using ch len rc by (simp add: chain_at_def)
  show "cell_of t (c, cs) = new_stored key value c"
    using pk rc pl hl by (simp add: cell_of_def new_stored_def)
qed

lemma todo_0: "todo t key value 0 = hdr_bytes t key @ value"
  by (simp add: todo_def)

text \<open>Laying a value over the slots \<open>us\<close> reserved for address \<open>a\<close>.\<close>

lemma overwrite_represents:
  assumes ok: "vt_ok t" "same_table t t1" and pg: "pages_ok t1 w" and inv: "table_inv (W t w) t fs C"
    and key: "length key = KEY_LEN" and fit: "fits t value"
    and room: "unat (vt_filled t1) + length value + 30 < 2 ^ 64"
    and old: "reusable (W t1 w) follow a us" and sub: "set (slots_of us) \<subseteq> L"
    and sp: "space (W t1 w) t1 fs1 L" and L: "L - set (slots_of us) = used (C(a := None))"
  shows "\<exists>t' w'. overwrite_loop (length value + ValueTable_ref_size t1 + PARTIAL_SIZE) key value c t1 w a
             follow 0 (length value + ValueTable_ref_size t1 + PARTIAL_SIZE) 0 = Inr (a, t', w') \<and>
           same_table t t' \<and> value_frame (vt_id t) w w' \<and>
           unat (vt_filled t') \<le> unat (vt_filled t1) + length value + 30 \<and>
           represents t' w' ((\<lambda>b. map_option (cell_of t) (C b))(a \<mapsto> new_stored key value c))"
proof -
  define td where "td = todo t1 key value 0"
  have td: "td = hdr_bytes t1 key @ value" by (simp add: td_def todo_0)
  have hl: "length (hdr_bytes t1 key) = hdr_len t1" using key by (rule length_hdr_bytes)
  have n: "length value + ValueTable_ref_size t1 + PARTIAL_SIZE = length td"
    by (simp add: td hl) (simp add: hdr_len_def)
  have ok1: "vt_ok t1" using ok same_table_ok by blast
  have "fits t1 value" using fit ok(2) by (simp add: fits_def same_table_def ValueTable_value_size_def ValueTable_ref_size_def)
  then have fit1: "vt_multipart t1 \<or> 2 + length td \<le> unat (vt_entry_size t1)"
    using fits_entry [OF ok1] by (simp add: td hl)
  have "td \<noteq> []" using hl hdr_len_bound(2) [of t1] by (auto simp: td)
  moreover have "unat (vt_filled t1) + length td < 2 ^ 64"
    using room hdr_len_bound(1) [of t1] by (simp add: td hl)
  ultimately obtain t' w' fs' cs where r:
     "overwrite_loop (length td) key value c t1 w a follow 0 (length td) 0 = Inr (a, t', w')"
     "same_table t1 t'" "value_frame (vt_id t1) w w'" "chain (W t' w') c cs" "fst (hd cs) = a"
     "payload cs = td" "take 30 (snd (hd cs)) = take 30 td"
     "space (W t' w') t' fs' (set (slots_of cs) \<union> used (C(a := None)))"
     "set (slots_of cs) \<inter> used (C(a := None)) = {}"
     "\<forall>j\<in>used (C(a := None)). W t' w' j = W t1 w j"
     "unat (vt_filled t') \<le> unat (vt_filled t1) + length td" "pages_ok t1 w \<longrightarrow> pages_ok t' w'"
    using overwrite_loop_space [OF ok1 key _ td_def _ _ fit1 sp old sub, of "length td" c 0] unfolding L
    by auto
  have same: "same_table t t'" using ok(2) r(2) by (rule same_table_trans)
  note nc = new_chain [OF key r(4) r(6,7) [unfolded td]]
  have ch: "chain_at (W t' w') t' a (c, cs)" and cell: "cell_of t (c, cs) = new_stored key value c"
    using nc r(2,5) chain_at_cong [OF r(2), of "(c, cs)" "W t' w'" "W t' w'" a]
      cell_of_same [OF ok(2)] by simp_all
  have "table_inv (W t' w') t' fs' (C(a \<mapsto> (c, cs)))"
    using r(8-10) by (intro table_inv_grow [OF inv same _ ch]) (auto simp: same_table_W [OF ok(2)])
  moreover have "vt_ok t'" using same_table_ok [OF same] ok(1) by simp
  moreover have "(\<lambda>b. map_option (cell_of t') ((C(a \<mapsto> (c, cs))) b)) =
      (\<lambda>b. map_option (cell_of t) (C b))(a \<mapsto> new_stored key value c)"
    using cell by (auto simp: cell_of_same [OF same])
  ultimately have "represents t' w' ((\<lambda>b. map_option (cell_of t) (C b))(a \<mapsto> new_stored key value c))"
    using pg r(12) unfolding represents_def by metis
  moreover have "vt_id t1 = vt_id t" using ok(2) by (simp add: same_table_def)
  moreover have "unat (vt_filled t') \<le> unat (vt_filled t1) + length value + 30"
    using r(11) hdr_len_bound(1) [of t1] by (simp add: td hl)
  ultimately show ?thesis
    using r(1,3) same unfolding n by auto
qed

text \<open>Allocation takes the slot freed last, and the end of the table when none is free.\<close>

lemma next_free_index:
  "ValueTable_next_free t w = Inr (a, t1) \<Longrightarrow>
     a = (if vt_last_removed t = 0 then vt_filled t else vt_last_removed t)"
  by (auto simp: ValueTable_next_free_def Let_def and_then_eq_Inr split: if_splits)

lemma insert_represents:
  assumes rep: "represents t w S" and key: "length key = KEY_LEN"
    and fit: "fits t value" and room: "room_for t value"
  shows "\<exists>a t' w'. ValueTable_write_insert_plan t key value w c = Inr (a, t', w') \<and>
           a = (if vt_last_removed t = 0 then vt_filled t else vt_last_removed t) \<and>
           a \<noteq> 0 \<and> S a = None \<and> same_table t t' \<and> value_frame (vt_id t) w w' \<and>
           unat (vt_filled t') \<le> unat (vt_filled t) + length value + 31 \<and>
           represents t' w' (S(a \<mapsto> new_stored key value c))"
proof -
  from rep obtain fs C where ok: "vt_ok t" and pg: "pages_ok t w" and inv: "table_inv (W t w) t fs C"
    and S: "S = (\<lambda>a. map_option (cell_of t) (C a))"
    unfolding represents_def by blast
  have "unat (vt_filled t) + 1 < 2 ^ 64" using room by (simp add: room_for_def)
  then obtain a t1 fs1 where nf: "ValueTable_next_free t w = Inr (a, t1)" "same_table t t1"
      "a \<notin> used C" "a \<noteq> 0" "space (W t w) t1 fs1 (insert a (used C))"
      "unat (vt_filled t1) \<le> unat (vt_filled t) + 1" "vt_filled t \<le> vt_filled t1"
    using next_free_space [OF ok table_inv_space [OF inv]] by blast
  have none: "C a = None"
    using nf(3) table_inv_chain [OF inv, of a] chain_at_start used_mem [of C a] by (cases "C a") blast+
  then have used: "used (C(a := None)) = used C" by (simp add: fun_upd_idem)
  have fit1: "vt_multipart t1 \<or> length value \<le> unat (ValueTable_value_size t1)"
    "ValueTable_ref_size t1 = ValueTable_ref_size t"
    using fit nf(2)
    by (simp_all add: fits_def same_table_def ValueTable_value_size_def ValueTable_ref_size_def)
  obtain t' w' where "overwrite_loop (length value + ValueTable_ref_size t1 + PARTIAL_SIZE) key value c t1 w
        a False 0 (length value + ValueTable_ref_size t1 + PARTIAL_SIZE) 0 = Inr (a, t', w')"
      "same_table t t'" "value_frame (vt_id t) w w'"
      "unat (vt_filled t') \<le> unat (vt_filled t1) + length value + 30"
      "represents t' w' (S(a \<mapsto> new_stored key value c))"
    using overwrite_represents [OF ok nf(2) pages_ok_same [OF nf(2,7) pg] inv key fit, where follow = False and a = a
        and us = "[(a, [])]" and L = "insert a (used C)" and ?fs1.0 = fs1 and c = c]
      room nf(3,5,6) used
    by (auto simp: room_for_def reusable_def same_table_W [OF nf(2)] S)
  then show ?thesis
    using nf none fit fit1 next_free_index [OF nf(1)]
    by (auto simp: ValueTable_write_insert_plan_def ValueTable_overwrite_chain_def Let_def fits_def S)
qed

lemma replace_represents:
  assumes rep: "represents t w S" and key: "length key = KEY_LEN"
    and fit: "fits t value" and room: "room_for t value" and a: "S a = Some v"
  shows "\<exists>t' w'. ValueTable_write_replace_plan t a key value w c = Inr (t', w') \<and>
           same_table t t' \<and> value_frame (vt_id t) w w' \<and>
           unat (vt_filled t') \<le> unat (vt_filled t) + length value + 31 \<and>
           represents t' w' (S(a \<mapsto> new_stored key value c))"
proof -
  from rep obtain fs C where ok: "vt_ok t" and pg: "pages_ok t w" and inv: "table_inv (W t w) t fs C"
    and S: "S = (\<lambda>a. map_option (cell_of t) (C a))"
    unfolding represents_def by blast
  from a obtain x where x: "C a = Some x" by (auto simp: S)
  have "reusable (W t w) True a (snd x)"
    using table_inv_chain [OF inv x] by (auto simp: chain_at_def reusable_def)
  moreover have "set (slots_of (snd x)) \<subseteq> used C" using used_mem [of C a x] x by blast
  moreover have "used C - set (slots_of (snd x)) = used (C(a := None))"
    using used_update(1) [OF inv, of a] x by simp
  moreover have "unat (vt_filled t) + length value + 30 < 2 ^ 64" using room by (simp add: room_for_def)
  ultimately obtain t' w' where
      "overwrite_loop (length value + ValueTable_ref_size t + PARTIAL_SIZE) key value c t w
        a True 0 (length value + ValueTable_ref_size t + PARTIAL_SIZE) 0 = Inr (a, t', w')"
      "same_table t t'" "value_frame (vt_id t) w w'"
      "unat (vt_filled t') \<le> unat (vt_filled t) + length value + 30"
      "represents t' w' (S(a \<mapsto> new_stored key value c))"
    using overwrite_represents [OF ok same_table_refl pg inv key fit] table_inv_space [OF inv] unfolding S
    by blast
  then show ?thesis
    using fit
    by (auto simp: ValueTable_write_replace_plan_def ValueTable_overwrite_chain_def Let_def fits_def)
qed


section \<open>Removing\<close>

lemma single_slot:
  assumes "\<not> vt_multipart t" and "chain (W t w) c cs"
  shows "\<exists>x. cs = [x]"
proof (cases cs)
  case Nil
  then show ?thesis using assms by simp
next
  case (Cons x ys)
  have "W t w (fst x) \<noteq> Some (Part n b)" for n b
    using assms(1) by (auto simp: view_def bind_eq_Some_conv decode_slot_def Let_def split: if_splits)
  then show ?thesis using assms(2) Cons by (cases ys) auto
qed

lemma remove_represents:
  assumes rep: "represents t w S" and a: "S a = Some v"
  shows "\<exists>t' w' nx. ValueTable_write_remove_plan t a w = Inr (t', w') \<and> same_table t t' \<and>
           value_frame (vt_id t) w w' \<and> represents t' w' (S(a := None)) \<and> W t' w' a = Some (Free nx) \<and>
           vt_filled t' = vt_filled t"
proof -
  from rep obtain fs C where ok: "vt_ok t" and pg: "pages_ok t w" and inv: "table_inv (W t w) t fs C"
    and S: "S = (\<lambda>a. map_option (cell_of t) (C a))"
    unfolding represents_def by blast
  from a obtain x where x: "C a = Some x" by (auto simp: S)
  note ch = table_inv_chain [OF inv x, unfolded chain_at_def]
  note sp = table_inv_space [OF inv]
  have sub: "cslots x \<subseteq> used C" using used_mem [of C a x] x by blast
  have used: "used (C(a := None)) = used C - cslots x" using used_update(1) [OF inv, of a] x by simp
  have "\<exists>t' w' fs'. ValueTable_write_remove_plan t a w = Inr (t', w') \<and> same_table t t' \<and>
      value_frame (vt_id t) w w' \<and> (\<forall>j. j \<notin> cslots x \<longrightarrow> W t' w' j = W t w j) \<and>
      (\<forall>j\<in>cslots x. \<exists>nx. W t' w' j = Some (Free nx)) \<and> space (W t' w') t' fs' (used C - cslots x) \<and>
      vt_filled t' = vt_filled t \<and> pages_ok t' w'"
  proof (cases "vt_multipart t")
    case True
    have "length (snd x) \<le> Suc u64_states" using chain_length [of "W t w" "fst x" "snd x"] ch by simp
    from clear_chain_space [OF ok conjunct1 [OF ch] sp sub this] ch
    obtain t' w' where "ValueTable_clear_chain t a w = Inr (t', w')" "same_table t t'"
        "value_frame (vt_id t) w w'" "\<forall>j. j \<notin> cslots x \<longrightarrow> W t' w' j = W t w j"
        "\<forall>j\<in>cslots x. \<exists>nx. W t' w' j = Some (Free nx)"
        "space (W t' w') t' (rev (slots_of (snd x)) @ fs) (used C - cslots x)" "vt_filled t' = vt_filled t"
        "pages_ok t w \<longrightarrow> pages_ok t' w'"
      by (elim exE conjE) (rule that, simp only:)
    then show ?thesis using True pg unfolding ValueTable_write_remove_plan_def by auto
  next
    case False
    with ch have "cslots x = {a}" using single_slot [of t w "fst x" "snd x"] by auto
    moreover from this obtain t' w' where "ValueTable_clear_slot t a w = Inr (t', w')" "same_table t t'"
        "value_frame (vt_id t) w w'" "W t' w' = (W t w)(a := Some (Free (vt_last_removed t)))"
        "space (W t' w') t' (a # fs) (used C - {a})" "vt_filled t' = vt_filled t" "pages_ok t w \<longrightarrow> pages_ok t' w'"
      using clear_slot_space [OF sp, of a] sub by auto
    ultimately show ?thesis
      using False pg unfolding ValueTable_write_remove_plan_def
      by (intro exI [of _ t'] exI [of _ w'] exI [of _ "a # fs"]) simp
  qed
  then obtain t' w' fs' where r: "ValueTable_write_remove_plan t a w = Inr (t', w')" "same_table t t'"
      "value_frame (vt_id t) w w'" "\<forall>j. j \<notin> cslots x \<longrightarrow> W t' w' j = W t w j"
      "\<forall>j\<in>cslots x. \<exists>nx. W t' w' j = Some (Free nx)" "space (W t' w') t' fs' (used C - cslots x)"
      "vt_filled t' = vt_filled t" "pages_ok t' w'"
    by (elim exE conjE) (rule that)
  have "table_inv (W t' w') t' fs' (C(a := None))"
    using r(4,6) unfolding used [symmetric]
    by (intro table_inv_shrink [OF inv r(2)]) (auto simp: used simp del: set_map)
  moreover have "vt_ok t'" using same_table_ok [OF r(2)] ok by simp
  moreover have "S(a := None) = (\<lambda>b. map_option (cell_of t') ((C(a := None)) b))"
    by (auto simp: S cell_of_same [OF r(2)])
  ultimately have "represents t' w' (S(a := None))"
    using r(8) unfolding represents_def by metis
  moreover obtain nx where "W t' w' a = Some (Free nx)"
    using r(5) chain_at_start [OF table_inv_chain [OF inv x]] by blast
  ultimately show ?thesis using r(1-3,7) by blast
qed


section \<open>Reference counters\<close>

definition set_count :: "u32 \<Rightarrow> bytes \<Rightarrow> bytes" where
  "set_count n b = overwrite 0 (to_le 4 n) b"

lemma length_set_count [simp]: "4 \<le> length b \<Longrightarrow> length (set_count n b) = length b"
  by (simp add: set_count_def)

lemma slice_overwrite_inside:
  assumes "a + length ys \<le> b" and "b \<le> length xs"
  shows "slice_of a b (overwrite a ys xs) = overwrite 0 ys (slice_of a b xs)"
  using assms by (simp add: slice_of_def overwrite_def drop_take add.commute)

lemma decode_set_count_Last:
  assumes "decode_slot t d = Some (Last c b)" and "4 \<le> length b"
  shows "decode_slot t (take (2 + length b) (overwrite 2 (to_le 4 n) d)) = Some (Last c (set_count n b))"
proof -
  let ?d = "take (2 + length b) (overwrite 2 (to_le 4 n) d)"
  have d: "2 + length b \<le> length d" "2 + length b \<le> unat (vt_entry_size t)"
    "slice_of 2 (2 + length b) d = b" "take 2 d \<noteq> TOMBSTONE"
    "\<not> (vt_multipart t \<and> multi_marker (vt_db_version t) (take 2 d))"
    "compressed_word (from_le (take 2 d)) = c" "size_of_word (from_le (take 2 d)) = length b"
    using assms(1) by (auto simp: decode_slot_def Let_def split: if_splits)
  have pre: "take 2 ?d = take 2 d" using d(1) by (simp add: overwrite_def)
  have "length ?d = 2 + length b" using d(1) assms(2) by simp
  moreover have "slice_of 2 (2 + length b) ?d = set_count n b"
    using d(1,3) assms(2) slice_overwrite_inside [of 2 "to_le 4 n" "2 + length b" d]
    by (simp add: slice_take set_count_def)
  ultimately show ?thesis
    using d pre by (simp add: decode_slot_def Let_def)
qed

lemma decode_set_count_Part:
  assumes "decode_slot t d = Some (Part nx b)" and "vt_ok t"
  shows "decode_slot t (take (unat (vt_entry_size t)) (overwrite 10 (to_le 4 n) d)) =
           Some (Part nx (set_count n b))"
proof -
  let ?es = "unat (vt_entry_size t)"
  let ?d = "take ?es (overwrite 10 (to_le 4 n) d)"
  have d: "?es \<le> length d" "slice_of 10 ?es d = b" "take 2 d \<noteq> TOMBSTONE" "from_le (slice_of 2 10 d) = nx"
    "vt_multipart t" "multi_marker (vt_db_version t) (take 2 d)"
    using assms(1) by (auto simp: decode_slot_def Let_def split: if_splits)
  have es: "48 \<le> ?es" using d(5) assms(2) by (simp add: vt_ok_def)
  have pre: "take 2 ?d = take 2 d" using d(1) es by (simp add: overwrite_def)
  have "length ?d = ?es" using d(1) es by simp
  moreover have "slice_of 10 ?es ?d = set_count n b"
    using d(1,2) es slice_overwrite_inside [of 10 "to_le 4 n" ?es d]
    by (simp add: slice_take set_count_def)
  moreover have "slice_of 2 10 ?d = slice_of 2 10 d"
    using d(1) es by (simp add: slice_take slice_overwrite_before)
  ultimately show ?thesis
    using d pre es by (simp add: decode_slot_def Let_def)
qed

lemma page_set_count_Last:
  assumes "decode_slot t d = Some (Last c b)" and "4 \<le> length b" and "2 + length b \<le> length d" and "i \<noteq> 0"
  shows "page_ok t i (take (2 + length b) (overwrite 2 (to_le 4 (n :: u32)) d))"
  using assms decode_set_count_Last [OF assms(1,2), of n] by (simp add: page_ok_def)

lemma page_set_count_Part:
  assumes "decode_slot t d = Some (Part nx b)" and "vt_ok t" and "i \<noteq> 0"
  shows "page_ok t i (take (unat (vt_entry_size t)) (overwrite 10 (to_le 4 (n :: u32)) d))"
  using assms decode_set_count_Part [OF assms(1,2), of n] decode_Part [OF assms(1,2)] by (simp add: page_ok_def vt_ok_def)

definition count_after :: "int \<Rightarrow> u32 \<Rightarrow> u32 option" where
  "count_after delta counter =
     (if 0 < delta
      then (if LOCKED_REF - of_int delta \<le> counter then Some LOCKED_REF
            else Some (counter + of_int delta))
      else if counter \<noteq> LOCKED_REF then
        (let c = (if counter \<le> of_int (- delta) then 0 else counter - of_int (- delta))
         in if c = 0 then None else Some c)
      else Some counter)"

lemma change_ref_chain:
  assumes ok: "vt_ok t" and rc: "vt_ref_counted t"
    and ch: "chain (W t w) c ((a, b) # cs)" and hdr: "hdr_len t \<le> length b"
  shows "case count_after delta (body_rc t b) of
           None \<Rightarrow> ValueTable_change_ref t a delta w = Inr (False, w)
         | Some n \<Rightarrow> \<exists>w'. ValueTable_change_ref t a delta w = Inr (True, w') \<and>
             value_frame (vt_id t) w w' \<and>
             W t w' = (W t w)(a := Some (case cs of [] \<Rightarrow> Last c (set_count n b)
                                        | y # _ \<Rightarrow> Part (fst y) (set_count n b))) \<and>
             (pages_ok t w \<longrightarrow> a \<noteq> 0 \<longrightarrow> a < vt_filled t \<longrightarrow> pages_ok t w')"
proof -
  have b4: "4 \<le> length b" using hdr hdr_len_bound(2) [of t] by simp
  show ?thesis
  proof (cases cs)
    case Nil
    then have "W t w a = Some (Last c b)" using ch by simp
    then obtain d where d: "ValueTable_load t (LogWriter_query w) a MAX_ENTRY_BUF_SIZE (unat (vt_entry_size t))
        = Inr (fresh_buf MAX_ENTRY_BUF_SIZE d)" "decode_slot t d = Some (Last c b)"
      using lwq.load_full [OF _ ok] by blast
    note p = decode_Last [OF d(2)]
    note r = positioned_read [OF p(6) b4]
    have len: "2 + length b \<le> length d" using p(6) by (simp add: positioned_def)
    have "ValueTable_change_ref t a delta w = (case count_after delta (body_rc t b) of
        None \<Rightarrow> Inr (False, w)
      | Some n \<Rightarrow> Inr (True, LogWriter_insert_value w (vt_id t) a (take (2 + length b) (overwrite 2 (to_le 4 n) d))))"
      using d(1) p(1-5) r(1) rc len b4
      by (cases "vt_multipart t")
         (auto simp: ValueTable_change_ref_def count_after_def is_tombstone_marker is_multi_marker
          read_size_fresh Entry_read_rc_def Entry_write_rc_def Entry_set_offset_def Entry_write_slice_def
          Let_def body_rc_def size_consts simp flip: size_of_word_def)
    then show ?thesis
      using Nil decode_set_count_Last [OF d(2) b4] page_set_count_Last [OF d(2) b4 len]
      by (auto simp: W_insert_value pages_ok_insert split: option.split)
  next
    case (Cons y ys)
    then have "W t w a = Some (Part (fst y) b)" using ch by simp
    then obtain d where d: "ValueTable_load t (LogWriter_query w) a MAX_ENTRY_BUF_SIZE (unat (vt_entry_size t))
        = Inr (fresh_buf MAX_ENTRY_BUF_SIZE d)" "decode_slot t d = Some (Part (fst y) b)"
      using lwq.load_full [OF _ ok] by blast
    note p = decode_Part [OF d(2) ok]
    note r = positioned_read [OF p(6) b4]
    have len: "48 \<le> unat (vt_entry_size t)" using p(2) ok by (simp add: vt_ok_def)
    have "ValueTable_change_ref t a delta w = (case count_after delta (body_rc t b) of
        None \<Rightarrow> Inr (False, w)
      | Some n \<Rightarrow> Inr (True, LogWriter_insert_value w (vt_id t) a (take (unat (vt_entry_size t)) (overwrite 10 (to_le 4 n) d))))"
      using d(1) p(1-5) r(1) rc len b4
      by (auto simp: ValueTable_change_ref_def count_after_def is_tombstone_marker is_multi_marker
          Entry_skip_size_def Entry_skip_next_def Entry_read_rc_def Entry_write_rc_def
          Entry_set_offset_def Entry_write_slice_def Let_def body_rc_def size_consts)
    then show ?thesis
      using Cons decode_set_count_Part [OF d(2) ok] page_set_count_Part [OF d(2) ok]
      by (auto simp: W_insert_value pages_ok_insert split: option.split)
  qed
qed

lemma body_set_count:
  assumes "vt_ref_counted t" and "hdr_len t \<le> length b"
  shows "body_rc t (set_count n b) = n" "body_pk t (set_count n b) = body_pk t b"
    "drop (hdr_len t) (set_count n b @ xs) = drop (hdr_len t) (b @ xs)"
proof -
  have b: "set_count n b = to_le 4 n @ drop 4 b" by (simp add: set_count_def overwrite_def)
  show "body_rc t (set_count n b) = n" "body_pk t (set_count n b) = body_pk t b"
    using assms by (simp_all add: b body_rc_def body_pk_def ValueTable_ref_size_def size_consts)
  show "drop (hdr_len t) (set_count n b @ xs) = drop (hdr_len t) (b @ xs)"
    using assms by (simp add: b hdr_len_def ValueTable_ref_size_def size_consts)
qed

lemma change_ref_represents:
  assumes rep: "represents t w S" and rc: "vt_ref_counted t" and a: "S a = Some v"
    and pos: "\<And>n. count_after delta (st_rc v) = Some n \<Longrightarrow> 0 < n"
  shows "case count_after delta (st_rc v) of
           None \<Rightarrow> ValueTable_change_ref t a delta w = Inr (False, w)
         | Some n \<Rightarrow> \<exists>w'. ValueTable_change_ref t a delta w = Inr (True, w') \<and>
             value_frame (vt_id t) w w' \<and> represents t w' (S(a \<mapsto> v\<lparr>st_rc := n\<rparr>))"
proof -
  from rep obtain fs C where ok: "vt_ok t" and inv: "table_inv (W t w) t fs C"
    and S: "S = (\<lambda>a. map_option (cell_of t) (C a))"
    unfolding represents_def by blast
  have pg: "pages_ok t w" using rep by (simp add: represents_def)
  from a obtain x where x: "C a = Some x" and v: "v = cell_of t x" by (auto simp: S)
  note ca = table_inv_chain [OF inv x, unfolded chain_at_def]
  then obtain b cs where sx: "snd x = (a, b) # cs" by (cases "snd x") auto
  define c where "c = fst x"
  have ch: "chain (W t w) c ((a, b) # cs)" and hdr: "hdr_len t \<le> length b" using ca sx by (auto simp: c_def)
  have rcv: "st_rc v = body_rc t b" by (simp add: v cell_of_def sx)
  note cr = change_ref_chain [OF ok rc ch hdr, of delta, folded rcv]
  show ?thesis
  proof (cases "count_after delta (st_rc v)")
    case None
    then show ?thesis using cr by simp
  next
    case (Some n)
    then obtain w' where w': "ValueTable_change_ref t a delta w = Inr (True, w')"
        "value_frame (vt_id t) w w'"
        "W t w' = (W t w)(a := Some (case cs of [] \<Rightarrow> Last c (set_count n b)
                                    | y # _ \<Rightarrow> Part (fst y) (set_count n b)))"
        "pages_ok t w \<longrightarrow> a \<noteq> 0 \<longrightarrow> a < vt_filled t \<longrightarrow> pages_ok t w'"
      using cr by auto
    let ?y = "(c, (a, set_count n b) # cs)"
    have "a \<notin> set (slots_of cs)" using chain_distinct [OF ch] by simp
    then have ch': "chain (W t w') c ((a, set_count n b) # cs)"
      using ch unfolding w'(3) by (cases cs) (auto simp: chain_upd simp del: set_map)
    have b4: "4 \<le> length b" using hdr hdr_len_bound(2) [of t] by simp
    have sl: "cslots ?y = cslots x" by (simp add: sx)
    have used: "cslots x \<inter> used (C(a := None)) = {}" "cslots x \<union> used (C(a := None)) = used C"
      using used_update(1) [OF inv, of a] used_mem [of C a x] x by auto
    have mem: "a \<in> cslots x" by (simp add: sx)
    have "table_inv (W t w') t fs (C(a \<mapsto> ?y))"
    proof (rule table_inv_grow [OF inv same_table_refl])
      show "chain_at (W t w') t a ?y"
        using ch' hdr b4 body_set_count [OF rc hdr, of n] pos [OF Some] by (simp add: chain_at_def)
      show "W t w' j = W t w j" if "j \<in> used (C(a := None))" for j
        using that used mem by (auto simp: w'(3) simp del: set_map)
      show "space (W t w') t fs (cslots ?y \<union> used (C(a := None)))"
        unfolding sl used w'(3) by (rule space_upd [OF table_inv_space [OF inv]]) (use used mem in blast)
    qed (use sl used in simp)
    moreover have "cell_of t ?y = v\<lparr>st_rc := n\<rparr>"
      using body_set_count [OF rc hdr, of n] by (simp add: v cell_of_def sx c_def)
    then have "S(a \<mapsto> v\<lparr>st_rc := n\<rparr>) = (\<lambda>b. map_option (cell_of t) ((C(a \<mapsto> ?y)) b))"
      by (auto simp: S)
    moreover have "a \<in> used C" using used mem by blast
    then have "pages_ok t w'"
      using pg w'(4) space_nonzero [OF table_inv_space [OF inv]] space_below [OF table_inv_space [OF inv]] by blast
    ultimately have "represents t w' (S(a \<mapsto> v\<lparr>st_rc := n\<rparr>))"
      using ok unfolding represents_def by metis
    then show ?thesis using Some w' by auto
  qed
qed

text \<open>Counting up saturates at the locked value, and a locked counter never comes down.\<close>

definition count_up :: "u32 \<Rightarrow> u32" where
  "count_up n = (if n < LOCKED_REF - 1 then n + 1 else LOCKED_REF)"

definition count_down :: "u32 \<Rightarrow> u32" where
  "count_down n = (if n = LOCKED_REF then n else n - 1)"

lemma count_after_1: "count_after 1 n = Some (count_up n)"
  by (auto simp: count_after_def count_up_def)

lemma count_after_m1: "0 < n \<Longrightarrow> count_after (- 1) n = (if n = 1 then None else Some (count_down n))"
proof -
  assume "0 < n"
  have "n \<le> 1 \<longleftrightarrow> n = 1"
    using \<open>0 < n\<close> by (auto simp: word_le_nat_alt word_less_nat_alt word_unat_eq_iff)
  moreover have "LOCKED_REF \<noteq> 1" by (simp add: LOCKED_REF_def)
  ultimately show ?thesis
    by (auto simp: count_after_def count_down_def Let_def)
qed

lemma count_up_pos: "0 < count_up n"
proof (cases "n < LOCKED_REF - 1")
  case True
  then have "unat n + 1 < 2 ^ 32" by (simp add: word_less_nat_alt LOCKED_REF_def)
  then show ?thesis using True
    by (simp add: count_up_def word_less_nat_alt unat_add_no_overflow)
qed (simp add: count_up_def LOCKED_REF_def word_gt_0)

lemma count_down_pos: "0 < n \<Longrightarrow> n \<noteq> 1 \<Longrightarrow> 0 < count_down n"
  by (auto simp: count_down_def word_gt_0)

lemma stored_pos: "represents t w S \<Longrightarrow> S a = Some v \<Longrightarrow> 0 < st_rc v"
proof -
  assume "represents t w S" and a: "S a = Some v"
  then obtain fs C where inv: "table_inv (W t w) t fs C" and S: "S = (\<lambda>a. map_option (cell_of t) (C a))"
    unfolding represents_def by blast
  from a obtain x where "C a = Some x" "v = cell_of t x" by (auto simp: S)
  then show ?thesis using table_inv_chain [OF inv, of a x] by (simp add: chain_at_def cell_of_def Let_def)
qed

lemma inc_ref_represents:
  assumes rep: "represents t w S" and rc: "vt_ref_counted t" and a: "S a = Some v"
  shows "\<exists>w'. ValueTable_write_inc_ref t a w = Inr w' \<and> value_frame (vt_id t) w w' \<and>
           represents t w' (S(a \<mapsto> v\<lparr>st_rc := count_up (st_rc v)\<rparr>))"
  using change_ref_represents [OF rep rc a, of 1] count_up_pos
  by (auto simp: count_after_1 ValueTable_write_inc_ref_def)

lemma dec_ref_represents:
  assumes rep: "represents t w S" and rc: "vt_ref_counted t" and a: "S a = Some v"
  shows "\<exists>t' w'. ValueTable_write_dec_ref t a w = Inr (st_rc v \<noteq> 1, t', w') \<and> same_table t t' \<and>
           value_frame (vt_id t) w w' \<and>
           represents t' w' (S(a := if st_rc v = 1 then None
                                    else Some (v\<lparr>st_rc := count_down (st_rc v)\<rparr>)))"
proof -
  have pos: "0 < st_rc v" by (rule stored_pos [OF rep a])
  note cr = change_ref_represents [OF rep rc a, of "- 1", unfolded count_after_m1 [OF pos]]
  show ?thesis
  proof (cases "st_rc v = 1")
    case True
    with cr remove_represents [OF rep a] show ?thesis
      by (auto simp: ValueTable_write_dec_ref_def)
  next
    case False
    with cr count_down_pos [OF pos] show ?thesis
      by (auto simp: ValueTable_write_dec_ref_def)
  qed
qed


section \<open>Reading\<close>

lemma get_represents:
  assumes rep: "represents t w S" and a: "S a = Some v"
  shows "ValueTable_get t key a (LogWriter_query w) =
           Inr (if partial_key key = st_key v then Some (st_value v, st_compressed v) else None)"
    and "ValueTable_get_with_meta t a (LogWriter_query w) =
           Inr (Some (st_value v, st_rc v, st_key v, st_compressed v))"
proof -
  from rep obtain fs C where ok: "vt_ok t" and inv: "table_inv (W t w) t fs C"
    and S: "S = (\<lambda>a. map_option (cell_of t) (C a))"
    unfolding represents_def by blast
  from a obtain x where x: "C a = Some x" and v: "v = cell_of t x" by (auto simp: S)
  note ca = table_inv_chain [OF inv x, unfolded chain_at_def]
  then obtain b cs where sx: "snd x = (a, b) # cs" by (cases "snd x") auto
  have ch: "chain (W t w) (fst x) ((a, b) # cs)" and hdr: "hdr_len t \<le> length b" "0 < body_rc t b"
    using ca sx by auto
  show "ValueTable_get t key a (LogWriter_query w) =
      Inr (if partial_key key = st_key v then Some (st_value v, st_compressed v) else None)"
    using lwq.get_chain [OF ok ch hdr(1), of key] lwq.get_other_key [OF ok ch hdr(1), of key] hdr(2)
    by (auto simp: v cell_of_def sx)
  show "ValueTable_get_with_meta t a (LogWriter_query w) =
      Inr (Some (st_value v, st_rc v, st_key v, st_compressed v))"
    using lwq.get_with_meta_chain [OF ok ch hdr(1)] hdr(2) by (simp add: v cell_of_def sx)
qed

end
