(* ===== verification/Value_Table_Correct.thy ===== *)
theory Value_Table_Correct
  imports Value_Store
begin

text \<open>
  The contract of a value table and the properties of its operations. The locale
  \<open>value_store\<close> is what the column relies on: addresses behave like the keys of a map. Its
  extension \<open>counted_store\<close> adds the reference counters. Both are interpreted on the operations
  of \<open>src/src/table.rs\<close>, the state being a table together with the record that is being written.
\<close>

section \<open>The contract\<close>

locale value_store =
  fixes rep :: "'s \<Rightarrow> contents \<Rightarrow> bool"
    and can_store :: "'s \<Rightarrow> Key \<Rightarrow> bytes \<Rightarrow> bool"
    and get :: "'s \<Rightarrow> Key \<Rightarrow> u64 \<Rightarrow> (bytes \<times> bool) option res"
    and ins :: "'s \<Rightarrow> Key \<Rightarrow> bytes \<Rightarrow> bool \<Rightarrow> (u64 \<times> 's) res"
    and repl :: "'s \<Rightarrow> u64 \<Rightarrow> Key \<Rightarrow> bytes \<Rightarrow> bool \<Rightarrow> 's res"
    and rem :: "'s \<Rightarrow> u64 \<Rightarrow> 's res"
  assumes get_law: "rep s S \<Longrightarrow> S a = Some v \<Longrightarrow>
      get s key a = Inr (if partial_key key = st_key v then Some (st_value v, st_compressed v) else None)"
    and ins_law: "rep s S \<Longrightarrow> can_store s key value \<Longrightarrow>
      \<exists>a s'. ins s key value c = Inr (a, s') \<and> S a = None \<and> rep s' (S(a \<mapsto> new_stored key value c))"
    and repl_law: "rep s S \<Longrightarrow> can_store s key value \<Longrightarrow> S a = Some v \<Longrightarrow>
      \<exists>s'. repl s a key value c = Inr s' \<and> rep s' (S(a \<mapsto> new_stored key value c))"
    and rem_law: "rep s S \<Longrightarrow> S a = Some v \<Longrightarrow>
      \<exists>s'. rem s a = Inr s' \<and> rep s' (S(a := None)) \<and> (\<forall>key. get s' key a = Inr None)"
begin

lemma new_stored_simps [simp]:
  "st_key (new_stored key value c) = partial_key key" "st_value (new_stored key value c) = value"
  "st_compressed (new_stored key value c) = c"
  by (simp_all add: new_stored_def)

lemma get_new: "rep s (S(a \<mapsto> new_stored key value c)) \<Longrightarrow> get s key a = Inr (Some (value, c))"
  using get_law [of s "S(a \<mapsto> new_stored key value c)" a] by simp

lemma get_other:
  assumes "rep s S" and "rep s' (S(a := x))" and "S b = Some v" and "b \<noteq> a"
  shows "get s' key b = get s key b"
  using get_law [OF assms(1,3)] get_law [OF assms(2), of b v] assms(3,4) by simp

lemma insert_get:
  assumes "rep s S" and "can_store s key value"
  shows "\<exists>a s'. ins s key value c = Inr (a, s') \<and> S a = None \<and> rep s' (S(a \<mapsto> new_stored key value c)) \<and>
           get s' key a = Inr (Some (value, c)) \<and>
           (\<forall>b v k. S b = Some v \<longrightarrow> get s' k b = get s k b)"
proof -
  obtain a s' where r: "ins s key value c = Inr (a, s')" "S a = None" "rep s' (S(a \<mapsto> new_stored key value c))"
    using ins_law [OF assms] by blast
  then have "get s' k b = get s k b" if "S b = Some v" for b v k
    using get_other [OF assms(1) r(3) that] that r(2) by (cases "b = a") auto
  with r get_new [OF r(3)] show ?thesis by blast
qed

lemma replace_get:
  assumes "rep s S" and "can_store s key value" and "S a = Some v"
  shows "\<exists>s'. repl s a key value c = Inr s' \<and> rep s' (S(a \<mapsto> new_stored key value c)) \<and>
           get s' key a = Inr (Some (value, c)) \<and>
           (\<forall>b u k. S b = Some u \<longrightarrow> b \<noteq> a \<longrightarrow> get s' k b = get s k b)"
proof -
  obtain s' where r: "repl s a key value c = Inr s'" "rep s' (S(a \<mapsto> new_stored key value c))"
    using repl_law [OF assms] by blast
  with get_new [OF r(2)] get_other [OF assms(1) r(2)] show ?thesis by blast
qed

lemma remove_get:
  assumes "rep s S" and "S a = Some v"
  shows "\<exists>s'. rem s a = Inr s' \<and> rep s' (S(a := None)) \<and> (\<forall>k. get s' k a = Inr None) \<and>
           (\<forall>b u k. S b = Some u \<longrightarrow> b \<noteq> a \<longrightarrow> get s' k b = get s k b)"
proof -
  obtain s' where r: "rem s a = Inr s'" "rep s' (S(a := None))" "\<forall>key. get s' key a = Inr None"
    using rem_law [OF assms] by blast
  with get_other [OF assms(1) r(2)] show ?thesis by blast
qed

lemma insert_remove:
  assumes "rep s S" and "can_store s key value"
  shows "\<exists>a s1 s2. ins s key value c = Inr (a, s1) \<and> rem s1 a = Inr s2 \<and> rep s2 S"
proof -
  obtain a s1 where r: "ins s key value c = Inr (a, s1)" "S a = None"
      "rep s1 (S(a \<mapsto> new_stored key value c))"
    using ins_law [OF assms] by blast
  then obtain s2 where "rem s1 a = Inr s2" "rep s2 (S(a \<mapsto> new_stored key value c, a := None))"
    using rem_law [OF r(3), of a] by auto
  moreover have "S(a \<mapsto> new_stored key value c, a := None) = S" using r(2) by auto
  ultimately show ?thesis using r(1) by auto
qed

end

locale counted_store = value_store +
  fixes inc :: "'a \<Rightarrow> u64 \<Rightarrow> 'a res"
    and dec :: "'a \<Rightarrow> u64 \<Rightarrow> (bool \<times> 'a) res"
  assumes inc_law: "rep s S \<Longrightarrow> S a = Some v \<Longrightarrow>
      \<exists>s'. inc s a = Inr s' \<and> rep s' (S(a \<mapsto> v\<lparr>st_rc := count_up (st_rc v)\<rparr>))"
    and dec_law: "rep s S \<Longrightarrow> S a = Some v \<Longrightarrow>
      \<exists>s'. dec s a = Inr (st_rc v \<noteq> 1, s') \<and>
        rep s' (S(a := if st_rc v = 1 then None else Some (v\<lparr>st_rc := count_down (st_rc v)\<rparr>)))"
    and rc_law: "rep s S \<Longrightarrow> S a = Some v \<Longrightarrow> 0 < st_rc v"
begin

lemma inc_dec:
  assumes "rep s S" and v: "S a = Some v" and "st_rc v < LOCKED_REF - 1"
  shows "\<exists>s1 s2. inc s a = Inr s1 \<and> dec s1 a = Inr (True, s2) \<and> rep s2 S"
proof -
  obtain s1 where s1: "inc s a = Inr s1" "rep s1 (S(a \<mapsto> v\<lparr>st_rc := st_rc v + 1\<rparr>))"
    using inc_law [OF assms(1,2)] assms(3) by (auto simp: count_up_def)
  have n1: "st_rc v + 1 \<noteq> 1" using rc_law [OF assms(1,2)] by auto
  have nl: "st_rc v + 1 \<noteq> LOCKED_REF" using assms(3) by (metis add_diff_cancel_right' less_irrefl)
  obtain s2 where "dec s1 a = Inr (True, s2)"
      "rep s2 (S(a \<mapsto> v\<lparr>st_rc := st_rc v + 1\<rparr>, a \<mapsto> v\<lparr>st_rc := st_rc v + 1 - 1\<rparr>))"
    using dec_law [OF s1(2), of a] n1 nl by (auto simp: count_down_def)
  moreover have "S(a \<mapsto> v\<lparr>st_rc := st_rc v + 1\<rparr>, a \<mapsto> v\<lparr>st_rc := st_rc v + 1 - 1\<rparr>) = S"
    using v by auto
  ultimately show ?thesis using s1(1) by auto
qed

lemma locked_stays:
  assumes "rep s S" and v: "S a = Some v" and "st_rc v = LOCKED_REF"
  shows "\<exists>s1 s2. inc s a = Inr s1 \<and> rep s1 S \<and> dec s a = Inr (True, s2) \<and> rep s2 S"
proof -
  have same: "v\<lparr>st_rc := LOCKED_REF\<rparr> = v" using assms(3) by (cases v) simp
  have upd: "S(a \<mapsto> v) = S" using v by auto
  have "LOCKED_REF \<noteq> 1" "count_up LOCKED_REF = LOCKED_REF"
    by (simp_all add: LOCKED_REF_def count_up_def)
  then show ?thesis
    using inc_law [OF assms(1,2)] dec_law [OF assms(1,2)] assms(3) same upd
    by (auto simp: count_down_def)
qed

end



section \<open>The tables satisfy the contract\<close>

type_synonym vstate = "ValueTable \<times> LogWriter"

definition store_get :: "vstate \<Rightarrow> Key \<Rightarrow> u64 \<Rightarrow> (bytes \<times> bool) option res" where
  "store_get s key a = ValueTable_get (fst s) key a (LogWriter_query (snd s))"

definition store_insert :: "vstate \<Rightarrow> Key \<Rightarrow> bytes \<Rightarrow> bool \<Rightarrow> (u64 \<times> vstate) res" where
  "store_insert s key value c = ValueTable_write_insert_plan (fst s) key value (snd s) c"

definition store_replace :: "vstate \<Rightarrow> u64 \<Rightarrow> Key \<Rightarrow> bytes \<Rightarrow> bool \<Rightarrow> vstate res" where
  "store_replace s a key value c = ValueTable_write_replace_plan (fst s) a key value (snd s) c"

definition store_remove :: "vstate \<Rightarrow> u64 \<Rightarrow> vstate res" where
  "store_remove s a = ValueTable_write_remove_plan (fst s) a (snd s)"

definition store_inc :: "vstate \<Rightarrow> u64 \<Rightarrow> vstate res" where
  "store_inc s a = and_then (ValueTable_write_inc_ref (fst s) a (snd s)) (\<lambda>w. Inr (fst s, w))"

definition store_dec :: "vstate \<Rightarrow> u64 \<Rightarrow> (bool \<times> vstate) res" where
  "store_dec s a = ValueTable_write_dec_ref (fst s) a (snd s)"

definition store_ready :: "vstate \<Rightarrow> Key \<Rightarrow> bytes \<Rightarrow> bool" where
  "store_ready s key value \<longleftrightarrow> length key = KEY_LEN \<and> fits (fst s) value \<and> room_for (fst s) value"

lemmas store_defs = store_get_def store_insert_def store_replace_def store_remove_def store_inc_def
  store_dec_def store_ready_def

abbreviation store_rep :: "vstate \<Rightarrow> contents \<Rightarrow> bool" where
  "store_rep s S \<equiv> represents (fst s) (snd s) S"

lemma remove_get_none:
  assumes "represents t w S" and "S a = Some v"
  shows "\<exists>t' w'. ValueTable_write_remove_plan t a w = Inr (t', w') \<and> same_table t t' \<and>
           represents t' w' (S(a := None)) \<and>
           (\<forall>key. ValueTable_get t' key a (LogWriter_query w') = Inr None)"
proof -
  obtain t' w' nx where r: "ValueTable_write_remove_plan t a w = Inr (t', w')" "same_table t t'"
      "represents t' w' (S(a := None))" "W t' w' a = Some (Free nx)"
    using remove_represents [OF assms] by blast
  then have "vt_ok t'" by (simp add: represents_def)
  then show ?thesis using r lwq.get_free [OF _ r(4)] by blast
qed

interpretation vst: value_store store_rep store_ready store_get store_insert store_replace store_remove
proof unfold_locales
  fix s S a v key
  assume "store_rep s S" "S a = Some v"
  then show "store_get s key a =
      Inr (if partial_key key = st_key v then Some (st_value v, st_compressed v) else None)"
    using get_represents(1) by (simp add: store_defs)
next
  fix s S key val c
  assume "store_rep s S" "store_ready s key val"
  then show "\<exists>a s'. store_insert s key val c = Inr (a, s') \<and> S a = None \<and>
      store_rep s' (S(a \<mapsto> new_stored key val c))"
    using insert_represents [of "fst s" "snd s" S key val c] by (fastforce simp: store_defs)
next
  fix s S key val a v c
  assume "store_rep s S" "store_ready s key val" "S a = Some v"
  then show "\<exists>s'. store_replace s a key val c = Inr s' \<and> store_rep s' (S(a \<mapsto> new_stored key val c))"
    using replace_represents [of "fst s" "snd s" S key val a v c] by (fastforce simp: store_defs)
next
  fix s S a v
  assume "store_rep s S" "S a = Some v"
  then show "\<exists>s'. store_remove s a = Inr s' \<and> store_rep s' (S(a := None)) \<and>
      (\<forall>key. store_get s' key a = Inr None)"
    using remove_get_none [of "fst s" "snd s" S a v] by (fastforce simp: store_defs)
qed

lemma same_table_counted: "same_table t t' \<Longrightarrow> vt_ref_counted t' = vt_ref_counted t"
  by (simp add: same_table_def)

abbreviation counted_rep :: "vstate \<Rightarrow> contents \<Rightarrow> bool" where
  "counted_rep s S \<equiv> store_rep s S \<and> vt_ref_counted (fst s)"

interpretation cst: counted_store counted_rep store_ready store_get store_insert store_replace store_remove
  store_inc store_dec
proof unfold_locales
  fix s S a v key
  assume "counted_rep s S" "S a = Some v"
  then show "store_get s key a =
      Inr (if partial_key key = st_key v then Some (st_value v, st_compressed v) else None)"
    using vst.get_law by blast
next
  fix s S key val c
  assume "counted_rep s S" "store_ready s key val"
  then show "\<exists>a s'. store_insert s key val c = Inr (a, s') \<and> S a = None \<and>
      counted_rep s' (S(a \<mapsto> new_stored key val c))"
    using insert_represents [of "fst s" "snd s" S key val c] same_table_counted
    by (fastforce simp: store_defs)
next
  fix s S key val a v c
  assume "counted_rep s S" "store_ready s key val" "S a = Some v"
  then show "\<exists>s'. store_replace s a key val c = Inr s' \<and> counted_rep s' (S(a \<mapsto> new_stored key val c))"
    using replace_represents [of "fst s" "snd s" S key val a v c] same_table_counted
    by (fastforce simp: store_defs)
next
  fix s S a v
  assume "counted_rep s S" "S a = Some v"
  then show "\<exists>s'. store_remove s a = Inr s' \<and> counted_rep s' (S(a := None)) \<and>
      (\<forall>key. store_get s' key a = Inr None)"
    using remove_get_none [of "fst s" "snd s" S a v] same_table_counted by (fastforce simp: store_defs)
next
  fix s S a v
  assume "counted_rep s S" "S a = Some v"
  then show "\<exists>s'. store_inc s a = Inr s' \<and> counted_rep s' (S(a \<mapsto> v\<lparr>st_rc := count_up (st_rc v)\<rparr>))"
    using inc_ref_represents [of "fst s" "snd s" S a v] by (auto simp: store_defs)
next
  fix s S a v
  assume "counted_rep s S" "S a = Some v"
  then show "\<exists>s'. store_dec s a = Inr (st_rc v \<noteq> 1, s') \<and>
      counted_rep s' (S(a := if st_rc v = 1 then None else Some (v\<lparr>st_rc := count_down (st_rc v)\<rparr>)))"
    using dec_ref_represents [of "fst s" "snd s" S a v] same_table_counted by (fastforce simp: store_defs)
next
  fix s S a v
  assume "counted_rep s S" "S a = Some v"
  then show "0 < st_rc v" using stored_pos by blast
qed

section \<open>Sample tables\<close>

text \<open>A table of single slots with reference counters, and the table of long values.\<close>

definition sample_single :: ValueTable where
  "sample_single =
     \<lparr>vt_id = VTableId 0, vt_entry_size = 64,
      vt_file = \<lparr>tf_file = None, tf_path = '''', tf_capacity = 0, tf_dirty = False, tf_id = VTableId 0\<rparr>,
      vt_filled = 1, vt_last_removed = 0, vt_dirty_header = False, vt_multipart = False,
      vt_ref_counted = True, vt_db_version = 5\<rparr>"

definition sample_multi :: ValueTable where
  "sample_multi = sample_single\<lparr>vt_entry_size := 4096, vt_multipart := True, vt_ref_counted := False\<rparr>"

definition sample_writer :: LogWriter where
  "sample_writer = LogWriter_new LogOverlays_default 1"

definition sample_key :: Key where
  "sample_key = map of_nat [0..<32]"

definition sample_long :: bytes where
  "sample_long = replicate 9000 7"

lemma length_sample_long [simp]: "length sample_long = 9000"
  unfolding sample_long_def by (rule length_replicate)

definition sample_stored :: vstate where
  "sample_stored = snd (projr (store_insert (sample_single, sample_writer) sample_key [1, 2, 3] False))"

lemma empty_represents:
  assumes "vt_ok t" and "\<And>i. writer_stored w (vt_id t) i = None" and "vt_filled t = 1" and "vt_last_removed t = 0"
  shows "represents t w Map.empty"
proof -
  have "{i. 0 < i \<and> i < (1 :: u64)} = {}" by (auto simp: word_less_nat_alt)
  then have "table_inv (W t w) t [] Map.empty"
    using assms by (simp add: table_inv_def space_def used_def)
  moreover have "pages_ok t w" by (simp add: pages_ok_def assms(2))
  ultimately show ?thesis using assms(1) unfolding represents_def by fastforce
qed

lemma no_pages [simp]: "writer_stored (LogWriter_new LogOverlays_default r) u i = None"
  by (simp add: writer_stored_def overlays_stored_def LogWriter_new_def LogChange_new_def LogOverlays_default_def)

lemma sample_ready [simp]:
  "represents sample_single sample_writer Map.empty" "represents sample_multi sample_writer Map.empty"
  "length sample_key = KEY_LEN" "fits sample_single [1, 2, 3]" "room_for sample_single [1, 2, 3]"
  "fits sample_multi x" "length x < 10000 \<Longrightarrow> room_for sample_multi x"
  by (simp_all add: empty_represents sample_writer_def vt_ok_def sample_single_def sample_multi_def sample_key_def KEY_LEN_def
      fits_def room_for_def ValueTable_value_size_def ValueTable_ref_size_def size_consts)

lemma sample_stored_rep:
  "represents (fst sample_stored) (snd sample_stored) [1 \<mapsto> new_stored sample_key [1, 2, 3] False]"
  "vt_ref_counted (fst sample_stored)"
proof -
  have "vt_last_removed sample_single = 0" "vt_filled sample_single = 1" by (simp_all add: sample_single_def)
  then obtain t' w' where "ValueTable_write_insert_plan sample_single sample_key [1, 2, 3] sample_writer False
        = Inr (1, t', w')" "same_table sample_single t'"
      "represents t' w' [1 \<mapsto> new_stored sample_key [1, 2, 3] False]"
    using insert_represents [of sample_single sample_writer Map.empty sample_key "[1, 2, 3]" False]
    by auto
  then show "represents (fst sample_stored) (snd sample_stored) [1 \<mapsto> new_stored sample_key [1, 2, 3] False]"
      "vt_ref_counted (fst sample_stored)"
    by (simp_all add: sample_stored_def store_insert_def same_table_def sample_single_def)
qed

lemma sample_stored_room: "room_for (fst sample_stored) []"
proof -
  obtain a t' w' where "ValueTable_write_insert_plan sample_single sample_key [1, 2, 3] sample_writer False
        = Inr (a, t', w')" "unat (vt_filled t') \<le> unat (vt_filled sample_single) + length [1, 2, 3 :: u8] + 31"
    using insert_represents [of sample_single sample_writer Map.empty sample_key "[1, 2, 3]" False] by auto
  then show ?thesis
    by (simp add: sample_stored_def store_insert_def room_for_def sample_single_def)
qed

section \<open>Properties\<close>

text \<open>
  C15: inserting a value into a table, of one slot or of as many as it takes, succeeds, puts it at
  an address that held nothing, and reading that address with the key returns exactly the
  value and its compression flag; every value stored before is still read as before.
\<close>

theorem value_insert_get:
  assumes "represents t w S" and "length key = KEY_LEN" and "fits t value" and "room_for t value"
  shows "\<exists>a t' w'. ValueTable_write_insert_plan t key value w c = Inr (a, t', w') \<and> S a = None \<and>
     represents t' w' (S(a \<mapsto> new_stored key value c)) \<and>
     ValueTable_get t' key a (LogWriter_query w') = Inr (Some (value, c)) \<and>
     (\<forall>b v k. S b = Some v \<longrightarrow>
        ValueTable_get t' k b (LogWriter_query w') = ValueTable_get t k b (LogWriter_query w))"
  using vst.insert_get [of "(t, w)" S key "value" c] assms by (auto simp: store_defs)

theorem value_insert_get_witness:
  "\<exists>a t' w'. ValueTable_write_insert_plan sample_multi sample_key sample_long sample_writer True
       = Inr (a, t', w') \<and>
     ValueTable_get t' sample_key a (LogWriter_query w') = Inr (Some (sample_long, True))"
  using value_insert_get [of sample_multi sample_writer Map.empty sample_key sample_long True]
  by auto

text \<open>
  C19: replacing the value at an address, by a shorter, longer or equally long one, succeeds; the
  address then reads as the new value, every other stored value as before, and the slots the old
  value no longer needs are back in the free list (the table still represents a map).
\<close>

theorem value_replace_get:
  assumes "represents t w S" and "length key = KEY_LEN" and "fits t value" and "room_for t value"
    and "S a = Some v"
  shows "\<exists>t' w'. ValueTable_write_replace_plan t a key value w c = Inr (t', w') \<and>
     represents t' w' (S(a \<mapsto> new_stored key value c)) \<and>
     ValueTable_get t' key a (LogWriter_query w') = Inr (Some (value, c)) \<and>
     (\<forall>b u k. S b = Some u \<longrightarrow> b \<noteq> a \<longrightarrow>
        ValueTable_get t' k b (LogWriter_query w') = ValueTable_get t k b (LogWriter_query w))"
  using vst.replace_get [of "(t, w)" S key "value" a v c] assms by (auto simp: store_defs)

theorem value_replace_get_witness:
  "\<exists>t' w'. ValueTable_write_replace_plan (fst sample_stored) 1 sample_key [] (snd sample_stored) True
       = Inr (t', w') \<and> ValueTable_get t' sample_key 1 (LogWriter_query w') = Inr (Some ([], True))"
proof -
  have "fits (fst sample_stored) []" by (simp add: fits_def)
  moreover have "room_for (fst sample_stored) []" by (rule sample_stored_room)
  ultimately show ?thesis
    using value_replace_get [OF sample_stored_rep(1), of sample_key "[]" 1 _ True] by auto
qed

text \<open>
  C20: removing the value at an address succeeds; no key reads anything there afterwards, every
  other stored value reads as before, and inserting and removing again leaves the contents as they
  were.
\<close>

theorem value_remove_get:
  assumes "represents t w S" and "S a = Some v"
  shows "\<exists>t' w'. ValueTable_write_remove_plan t a w = Inr (t', w') \<and>
     represents t' w' (S(a := None)) \<and>
     (\<forall>k. ValueTable_get t' k a (LogWriter_query w') = Inr None) \<and>
     (\<forall>b u k. S b = Some u \<longrightarrow> b \<noteq> a \<longrightarrow>
        ValueTable_get t' k b (LogWriter_query w') = ValueTable_get t k b (LogWriter_query w))"
  using vst.remove_get [of "(t, w)" S a v] assms by (auto simp: store_defs)

theorem value_remove_get_witness:
  "\<exists>t' w'. ValueTable_write_remove_plan (fst sample_stored) 1 (snd sample_stored) = Inr (t', w') \<and>
     ValueTable_get t' sample_key 1 (LogWriter_query w') = Inr None"
  using value_remove_get [OF sample_stored_rep(1), of 1] by auto

text \<open>
  A reference taken and given back leaves a counted table with the same contents: below the
  locked count, \<open>write_inc_ref\<close> followed by \<open>write_dec_ref\<close> keeps the value and restores the
  counter.
\<close>

lemma value_inc_dec:
  assumes "represents t w S" and "vt_ref_counted t" and "S a = Some v" and "st_rc v < LOCKED_REF - 1"
  shows "\<exists>w1 t2 w2. ValueTable_write_inc_ref t a w = Inr w1 \<and>
     ValueTable_write_dec_ref t a w1 = Inr (True, t2, w2) \<and> represents t2 w2 S"
  using cst.inc_dec [of "(t, w)" S a v] assms by (auto simp: store_defs and_then_eq_Inr)

text \<open>
  C27: \<open>write_dec_ref\<close> lowers the counter and reports that the value is kept, until the counter is
  one: then the value is removed and it reports that. A counter that reached the locked value never
  changes again.
\<close>

theorem value_dec_ref:
  assumes "represents t w S" and "vt_ref_counted t" and "S a = Some v"
  shows "\<exists>t' w'. ValueTable_write_dec_ref t a w = Inr (st_rc v \<noteq> 1, t', w') \<and>
     represents t' w'
       (S(a := if st_rc v = 1 then None
               else if st_rc v = LOCKED_REF then Some v else Some (v\<lparr>st_rc := st_rc v - 1\<rparr>)))"
proof (cases "st_rc v = LOCKED_REF")
  case True
  have "LOCKED_REF \<noteq> 1" by (simp add: LOCKED_REF_def)
  moreover have "S(a \<mapsto> v) = S" using assms(3) by auto
  ultimately show ?thesis
    using cst.locked_stays [of "(t, w)" S a v] assms True by (auto simp: store_defs)
next
  case False
  then show ?thesis
    using dec_ref_represents [OF assms] by (auto simp: count_down_def)
qed

theorem value_dec_ref_witness:
  "\<exists>t' w'. ValueTable_write_dec_ref (fst sample_stored) 1 (snd sample_stored) = Inr (False, t', w') \<and>
     represents t' w' Map.empty"
proof -
  have "([1 \<mapsto> x] :: contents)(1 := None) = Map.empty" for x by auto
  then show ?thesis
    using value_dec_ref [OF sample_stored_rep, of 1] by (simp add: new_stored_def)
qed

end
