(* ===== verification/Value_Enact.thy ===== *)
theory Value_Enact
  imports Value_Table_Correct
begin

text \<open>
  From the log to the file. The pages a record holds for a value table are read back with the
  length their first two bytes announce, so \<open>enact_plan\<close> and \<open>validate_plan\<close> consume exactly the
  page; writing it to the file makes the file show what the log showed, and nothing else in the
  table changes. The header page carries the fill mark and the free list across a restart.
\<close>

declare add_2_eq_Suc [simp del] add_2_eq_Suc' [simp del]

section \<open>Reading a page\<close>

text \<open>How many bytes follow the first two, as both \<open>enact_plan\<close> and \<open>validate_plan\<close> compute it.\<close>

definition tail_len :: "ValueTable \<Rightarrow> bytes \<Rightarrow> nat res" where
  "tail_len t b =
     (let buf = \<lparr>en_off = 0, en_buf = b, en_cap = MAX_ENTRY_BUF_SIZE\<rparr>
      in if Entry_is_tombstone buf then Inr INDEX_SIZE
         else if vt_multipart t \<and> Entry_is_multi buf (vt_db_version t)
         then Inr (unat (vt_entry_size t) - SIZE_SIZE)
         else and_then (Entry_read_size buf) (\<lambda>((len, _), _). Inr (unat len)))"

lemma page_tail_len:
  assumes "page_ok t i d" and "i \<noteq> 0" and "vt_ok t"
  shows "2 \<le> length d" and "tail_len t (take 2 d) = Inr (length d - 2)"
proof -
  from assms(1,2) obtain s where s: "decode_slot t d = Some s"
    by (auto simp: page_ok_def split: option.splits)
  show len: "2 \<le> length d" using s by (auto simp: decode_slot_def Let_def split: if_splits)
  have buf: "\<lparr>en_off = 0, en_buf = b, en_cap = n\<rparr> = fresh_buf n b" for b n
    by (simp add: fresh_buf_def)
  have lt: "2 \<le> length (take 2 d)" using len by simp
  show "tail_len t (take 2 d) = Inr (length d - 2)"
  proof (cases s)
    case (Free nx)
    then show ?thesis
      using assms(1,2) s decode_Free(1) [OF s [unfolded Free]]
      by (simp add: tail_len_def buf is_tombstone_marker page_ok_def INDEX_SIZE_def Let_def)
  next
    case (Part nx b)
    then show ?thesis
      using assms(1,2) s decode_Part [OF s [unfolded Part] assms(3)]
      by (simp add: tail_len_def buf is_tombstone_marker is_multi_marker page_ok_def SIZE_SIZE_def Let_def)
  next
    case (Last c b)
    note p = decode_Last [OF s [unfolded Last]]
    show ?thesis
      using Last assms(1,2) s p read_size_fresh [OF lt, of MAX_ENTRY_BUF_SIZE]
      by (auto simp: tail_len_def buf is_tombstone_marker is_multi_marker page_ok_def Let_def
          simp flip: size_of_word_def)
  qed
qed

lemma read_page_tail:
  assumes "reader_rest r = d @ ys" and "2 \<le> length d"
  shows "LogReader_read r SIZE_SIZE = Inr (take 2 d, advance r (take 2 d))"
    and "LogReader_read (advance r (take 2 d)) (length d - 2) = Inr (drop 2 d, advance r d)"
proof -
  have rr: "reader_rest r = take 2 d @ drop 2 d @ ys" using assms(1) by simp
  show "LogReader_read r SIZE_SIZE = Inr (take 2 d, advance r (take 2 d))"
    by (rule LogReader_read_rest [OF rr]) (use assms(2) in \<open>simp add: SIZE_SIZE_def\<close>)
  have "LogReader_read (advance r (take 2 d)) (length d - 2) =
      Inr (drop 2 d, advance (advance r (take 2 d)) (drop 2 d))"
    by (rule LogReader_read_rest [OF reader_rest_advance [OF rr]]) simp
  then show "LogReader_read (advance r (take 2 d)) (length d - 2) = Inr (drop 2 d, advance r d)"
    by simp
qed

lemma validate_page:
  assumes "vt_ok t" and "page_ok t i d" and "reader_rest r = d @ ys"
  shows "ValueTable_validate_plan t i r = Inr (advance r d)"
proof (cases "i = 0")
  case True
  then show ?thesis
    using assms LogReader_read_rest [OF assms(3), of 16]
    by (simp add: ValueTable_validate_plan_def page_ok_def)
next
  case False
  note p = page_tail_len [OF assms(2) False assms(1)]
  note rd = read_page_tail [OF assms(3) p(1)]
  show ?thesis
    using False p(2) rd
    by (simp add: ValueTable_validate_plan_def tail_len_def Let_def cong: if_cong)
qed


section \<open>Writing a page to the file\<close>

text \<open>A slot whose place in the file can be addressed, with the room the file grows by.\<close>

definition slot_in_range :: "ValueTable \<Rightarrow> u64 \<Rightarrow> bool" where
  "slot_in_range t i \<longleftrightarrow>
     (unat i + grow_step (vt_entry_size t)) * unat (vt_entry_size t) < 2 ^ 64"

lemma slot_offset:
  assumes "slot_in_range t i"
  shows "unat (i * ucast (vt_entry_size t)) = unat i * unat (vt_entry_size t)"
proof -
  have "unat i * unat (vt_entry_size t) \<le> (unat i + grow_step (vt_entry_size t)) * unat (vt_entry_size t)"
    by simp
  then have "unat i * unat (vt_entry_size t) < 2 ^ 64"
    using assms unfolding slot_in_range_def by (rule le_less_trans)
  then show ?thesis by (subst unat_mult_no_overflow) simp_all
qed

lemma page_length: "vt_ok t \<Longrightarrow> page_ok t i d \<Longrightarrow> length d \<le> unat (vt_entry_size t)"
  using decode_Last(7) [of t d]
  by (auto simp: page_ok_def vt_ok_def split: option.splits slot.splits if_splits)

lemma file_bytes_prefix:
  assumes "length d \<le> n"
  shows "\<exists>x. file_bytes (file_write_at f off d) off n = d @ x"
proof -
  have "take (length d) (file_bytes (file_write_at f off d) off n) = d"
    using assms by (simp add: take_file_bytes file_bytes_write_same)
  then show ?thesis by (metis append_take_drop_id)
qed

lemma slots_apart:
  assumes "i \<noteq> j" and "k \<le> es"
  shows "unat j * es + es \<le> unat i * es \<or> unat i * es + k \<le> unat (j :: u64) * es"
proof (cases "unat j < unat i")
  case True
  then have "Suc (unat j) * es \<le> unat i * es" by (intro mult_le_mono1) simp
  then show ?thesis by simp
next
  case False
  with assms(1) have "unat i < unat j" by (simp add: word_unat_eq_iff)
  then have "Suc (unat i) * es \<le> unat j * es" by (intro mult_le_mono1) simp
  then show ?thesis using assms(2) by simp
qed

lemma enact_page:
  assumes ok: "vt_ok t" and wf: "tf_wf (vt_entry_size t) (vt_file t)" and rng: "slot_in_range t i"
    and page: "page_ok t i d" and rest: "reader_rest r = d @ ys"
  shows "\<exists>f g x. ValueTable_enact_plan t i r = Inr (t\<lparr>vt_file := f\<rparr>, advance r d) \<and>
     tf_wf (vt_entry_size t) f \<and> tf_file f = Some g \<and>
     (let es = unat (vt_entry_size t); off = unat i * es
      in off + es \<le> flen g \<and> file_bytes g off es = d @ x \<and>
         (\<forall>j. j \<noteq> i \<longrightarrow> unat j * es + es \<le> tf_len (vt_file t) \<longrightarrow>
            unat j * es + es \<le> flen g \<and>
            file_bytes g (unat j * es) es = tf_bytes (vt_file t) (unat j * es) es))"
proof -
  let ?es = "unat (vt_entry_size t)"
  let ?off = "unat i * ?es"
  have es: "0 < ?es" using ok by (simp add: vt_ok_def)
  have dl: "length d \<le> ?es" by (rule page_length [OF ok page])
  obtain t1 where t1: "TableFile_grow_to u64_states i (vt_entry_size t) (vt_file t) = Inr t1"
      "tf_wf (vt_entry_size t) t1" "i < tf_capacity t1"
      "\<forall>off k. off + k \<le> tf_len (vt_file t) \<longrightarrow> tf_bytes t1 off k = tf_bytes (vt_file t) off k"
      "tf_len (vt_file t) \<le> tf_len t1"
    using grow_to_total [OF wf es] rng unfolding slot_in_range_def by blast
  then obtain g1 where g1: "tf_file t1 = Some g1" "flen g1 = unat (tf_capacity t1) * ?es"
    by (auto simp: tf_wf_def split: option.splits)
  have "Suc (unat i) * ?es \<le> unat (tf_capacity t1) * ?es"
    using t1(3) by (intro mult_le_mono1) (simp add: word_less_nat_alt)
  then have room: "?off + ?es \<le> flen g1" using g1(2) by simp
  define g where "g = file_write_at g1 ?off d"
  define f where "f = t1\<lparr>tf_dirty := True, tf_file := Some g\<rparr>"
  have gl: "flen g = flen g1" unfolding g_def using room dl by (intro flen_write_at_within) simp
  have wr: "TableFile_write_at t1 d (i * ucast (vt_entry_size t)) = Inr f"
    using g1(1) by (simp add: TableFile_write_at_def f_def g_def slot_offset [OF rng])
  have en: "ValueTable_enact_plan t i r = Inr (t\<lparr>vt_file := f\<rparr>, advance r d)"
  proof (cases "i = 0")
    case True
    then show ?thesis
      using page t1(1) wr LogReader_read_rest [OF rest, of 16]
      by (simp add: ValueTable_enact_plan_def page_ok_def)
  next
    case False
    note p = page_tail_len [OF page False ok]
    note rd = read_page_tail [OF rest p(1)]
    have "take 2 d @ drop 2 d = d" by simp
    then show ?thesis
      using False p(2) rd t1(1) wr
      by (simp add: ValueTable_enact_plan_def tail_len_def Let_def cong: if_cong)
  qed
  obtain x where x: "file_bytes g ?off ?es = d @ x"
    using file_bytes_prefix [OF dl] unfolding g_def by blast
  have oth: "unat j * ?es + ?es \<le> flen g \<and>
      file_bytes g (unat j * ?es) ?es = tf_bytes (vt_file t) (unat j * ?es) ?es"
    if "j \<noteq> i" "unat j * ?es + ?es \<le> tf_len (vt_file t)" for j
  proof -
    have le: "unat j * ?es + ?es \<le> flen g1"
      using that(2) t1(5) g1(1) by (simp add: tf_len_def)
    have "unat j * ?es + ?es \<le> ?off \<or> ?off + length d \<le> unat j * ?es"
      using slots_apart [of i j "length d" ?es] that(1) dl by auto
    then have "file_bytes g (unat j * ?es) ?es = file_bytes g1 (unat j * ?es) ?es"
      unfolding g_def by (rule file_bytes_write_other [OF _ le])
    also have "\<dots> = tf_bytes (vt_file t) (unat j * ?es) ?es"
      using t1(4) that(2) g1(1) by (simp add: tf_bytes_def)
    finally show ?thesis using le gl by simp
  qed
  have "tf_wf (vt_entry_size t) f" using g1(2) gl by (simp add: f_def tf_wf_def)
  moreover have "tf_file f = Some g" by (simp add: f_def)
  ultimately show ?thesis
    using en x oth room gl unfolding Let_def by auto
qed

lemma enact_view:
  assumes ok: "vt_ok t" and wf: "tf_wf (vt_entry_size t) (vt_file t)" and rng: "slot_in_range t i"
    and page: "page_ok t i d" and rest: "reader_rest r = d @ ys" and st: "st i = Some d"
  shows "\<exists>t'. ValueTable_enact_plan t i r = Inr (t', advance r d) \<and>
     (\<exists>f. t' = t\<lparr>vt_file := f\<rparr>) \<and> tf_wf (vt_entry_size t') (vt_file t') \<and>
     (\<forall>j s. slot_in_range t j \<longrightarrow> j \<noteq> 0 \<longrightarrow> view t st j = Some s \<longrightarrow> view t' (st(i := None)) j = Some s)"
proof -
  let ?es = "unat (vt_entry_size t)"
  obtain f g x where e: "ValueTable_enact_plan t i r = Inr (t\<lparr>vt_file := f\<rparr>, advance r d)"
      "tf_wf (vt_entry_size t) f" "tf_file f = Some g" "unat i * ?es + ?es \<le> flen g"
      "file_bytes g (unat i * ?es) ?es = d @ x"
      "\<forall>j. j \<noteq> i \<longrightarrow> unat j * ?es + ?es \<le> tf_len (vt_file t) \<longrightarrow> unat j * ?es + ?es \<le> flen g \<and>
            file_bytes g (unat j * ?es) ?es = tf_bytes (vt_file t) (unat j * ?es) ?es"
    using enact_page [OF ok wf rng page rest] unfolding Let_def by (elim exE conjE) (rule that)
  let ?t = "t\<lparr>vt_file := f\<rparr>"
  have dec: "decode_slot ?t = decode_slot t" by (rule decode_cong) simp_all
  have "view ?t (st(i := None)) j = Some s"
    if j: "slot_in_range t j" "j \<noteq> 0" "view t st j = Some s" for j s
  proof (cases "j = i")
    case True
    then have "decode_slot t d = Some s" using j(3) st by (simp add: view_def slot_bytes_def)
    then have "decode_slot t (d @ x) = Some s" by (rule decode_append [OF _ ok])
    then show ?thesis
      using True e(3-5) by (simp add: view_def slot_bytes_def dec slot_offset [OF rng] Let_def)
  next
    case False
    show ?thesis
    proof (cases "st j")
      case (Some d')
      then show ?thesis using j(3) False by (simp add: view_def slot_bytes_def dec)
    next
      case None
      then show ?thesis
        using j(3) False e(3,6)
        by (auto simp: view_def slot_bytes_def dec slot_offset [OF j(1)] tf_len_def tf_bytes_def Let_def
            bind_eq_Some_conv split: option.splits if_splits)
    qed
  qed
  then show ?thesis using e(1,2) by (intro exI [of _ ?t]) auto
qed


section \<open>The header\<close>

lemma header_fields:
  "Header_last_removed (Header_set_filled (Header_set_last_removed Header_default l) f) = l"
  "Header_filled (Header_set_filled (Header_set_last_removed Header_default l) f) = f"
  "length (Header_set_filled (Header_set_last_removed Header_default l) f) = 16"
  by (simp_all add: Header_last_removed_def Header_filled_def Header_set_filled_def
      Header_set_last_removed_def Header_default_def INDEX_SIZE_def overwrite_def slice_of_def)

lemma chain_slot: "chain V c cs \<Longrightarrow> j \<in> set (slots_of cs) \<Longrightarrow> \<exists>s. V j = Some s"
  by (induction V c cs rule: chain.induct) auto

lemma complete_plan_page:
  assumes "vt_dirty_header t" and "ValueTable_complete_plan t w = (t1, w1)"
  shows "writer_stored w1 (vt_id t) 0 =
      Some (Header_set_filled (Header_set_last_removed Header_default (vt_last_removed t)) (vt_filled t))"
    and "\<not> vt_dirty_header t1" and "same_table t t1" and "value_frame (vt_id t) w w1"
    and "vt_filled t1 = vt_filled t" and "vt_last_removed t1 = vt_last_removed t"
  using assms by (auto simp: ValueTable_complete_plan_def writer_stored_insert_value Let_def)


section \<open>Properties\<close>


definition sample_page :: bytes where
  "sample_page = to_le 2 (size_word 33 False) @ replicate 33 7"

definition sample_overlays :: LogOverlays where
  "sample_overlays = \<lparr>ov_index = [], ov_value = [(VTableId 0, [(1, 1, sample_page)])]\<rparr>"

lemma sample_page_facts:
  "decode_slot sample_single sample_page = Some (Last False (replicate 33 7))"
  "page_ok sample_single 1 sample_page"
proof -
  have ok: "vt_ok sample_single" by (simp add: vt_ok_def sample_single_def)
  have len: "2 + length (replicate 33 (7 :: u8)) \<le> unat (vt_entry_size sample_single)"
    by (simp add: sample_single_def)
  show "decode_slot sample_single sample_page = Some (Last False (replicate 33 7))"
    using decode_last_bytes [OF ok len, of False] by (simp only: sample_page_def length_replicate)
  show "page_ok sample_single 1 sample_page"
    using page_ok_last [OF _ ok len, of 1 False] by (simp add: sample_page_def)
qed


text \<open>
  C29: the header page that \<open>complete_plan\<close> logs restores the table's bookkeeping: once it is enacted
  in a table with the same layout, \<open>refresh_metadata\<close> loads the fill mark and the head of the free
  list that the writer had.
\<close>

theorem value_header_roundtrip:
  assumes "vt_dirty_header t" and "vt_filled t \<noteq> 0" and "ValueTable_complete_plan t w = (t1, w1)"
    and "writer_stored w1 (vt_id t) 0 = Some d" and "reader_rest r = d @ ys"
    and "vt_ok u" and "tf_wf (vt_entry_size u) (vt_file u)" and "slot_in_range u 0"
  shows "\<exists>u1 u2. ValueTable_enact_plan u 0 r = Inr (u1, advance r d) \<and>
     ValueTable_refresh_metadata u1 = Inr u2 \<and>
     vt_filled u2 = vt_filled t \<and> vt_last_removed u2 = vt_last_removed t"
proof -
  let ?es = "unat (vt_entry_size u)"
  have d: "d = Header_set_filled (Header_set_last_removed Header_default (vt_last_removed t)) (vt_filled t)"
    using complete_plan_page(1) [OF assms(1,3)] assms(4) by simp
  then have len: "length d = 16" and page: "page_ok u 0 d" by (simp_all add: header_fields page_ok_def)
  obtain f g x where e: "ValueTable_enact_plan u 0 r = Inr (u\<lparr>vt_file := f\<rparr>, advance r d)"
      "tf_file f = Some g" "?es \<le> flen g" "file_bytes g 0 ?es = d @ x"
    using enact_page [OF assms(6-8) page assms(5)] by (auto simp: Let_def)
  have es: "16 \<le> ?es" using assms(6) by (simp add: vt_ok_def)
  have "file_bytes g 0 16 = take 16 (file_bytes g 0 ?es)" using es by (simp add: take_file_bytes)
  then have "file_bytes g 0 16 = d" using len by (simp add: e(4))
  then have "TableFile_read_at f 16 0 = Inr d"
    using e(2,3) es by (simp add: TableFile_read_at_def file_read_at_def)
  then show ?thesis
    using e(1,2) assms(2) by (auto simp: ValueTable_refresh_metadata_def d header_fields Let_def)
qed

theorem value_header_roundtrip_witness:
  "let t = sample_single\<lparr>vt_dirty_header := True, vt_filled := 5, vt_last_removed := 3\<rparr>;
       d = Header_set_filled (Header_set_last_removed Header_default 3) 5
   in \<exists>u1 u2. ValueTable_enact_plan sample_multi 0 (LogReader_new d 0 False) =
        Inr (u1, advance (LogReader_new d 0 False) d) \<and>
     ValueTable_refresh_metadata u1 = Inr u2 \<and> vt_filled u2 = 5 \<and> vt_last_removed u2 = 3"
proof -
  define t where "t = sample_single\<lparr>vt_dirty_header := True, vt_filled := 5, vt_last_removed := 3\<rparr>"
  have t: "vt_dirty_header t" "vt_filled t = 5" "vt_last_removed t = 3" by (simp_all add: t_def)
  obtain t1 w1 where c: "ValueTable_complete_plan t sample_writer = (t1, w1)" by fastforce
  show ?thesis
    unfolding Let_def t(2,3) [symmetric]
    by (rule value_header_roundtrip [OF t(1) _ c complete_plan_page(1) [OF t(1) c], where ys = "[]"])
       (simp_all add: t reader_rest_def LogReader_new_def vt_ok_def sample_multi_def sample_single_def
         tf_wf_def slot_in_range_def grow_step_def)
qed

lemma open_fresh_table:
  assumes "case entry_size of None \<Rightarrow> True | Some s \<Rightarrow> MIN_ENTRY_SIZE \<le> s \<and> s \<le> MAX_ENTRY_SIZE"
  shows "\<exists>t. ValueTable_open path None tid entry_size ref_counted ver = Inr t \<and>
     vt_ok t \<and> vt_filled t = 1 \<and> vt_last_removed t = 0 \<and> tf_wf (vt_entry_size t) (vt_file t) \<and>
     tf_file (vt_file t) = None \<and>
     vt_multipart t = (entry_size = None) \<and> vt_ref_counted t = ref_counted \<and> vt_id t = tid"
proof (cases entry_size)
  case None
  then show ?thesis
    by (simp add: ValueTable_open_def TableFile_open_def vt_ok_def tf_wf_def MIN_ENTRY_SIZE_def
        MAX_ENTRY_SIZE_def)
next
  case (Some s)
  with assms have "32 \<le> unat s" "unat s \<le> 0x7ff8" "MIN_ENTRY_SIZE \<le> s" "s \<le> MAX_ENTRY_SIZE"
    by (simp_all add: MIN_ENTRY_SIZE_def MAX_ENTRY_SIZE_def word_le_nat_alt)
  with Some show ?thesis
    by (simp add: ValueTable_open_def TableFile_open_def vt_ok_def tf_wf_def)
qed

text \<open>
  Opening a value table that has no file yet succeeds for every entry size the column options
  may ask for (32 to \<open>MAX_ENTRY_SIZE\<close>, or the multipart table), and gives an empty table whose file
  bookkeeping is consistent.
\<close>

lemma value_open_empty:
  assumes "case entry_size of None \<Rightarrow> True | Some s \<Rightarrow> MIN_ENTRY_SIZE \<le> s \<and> s \<le> MAX_ENTRY_SIZE"
    and "\<And>i. writer_stored w tid i = None"
  shows "\<exists>t. ValueTable_open path None tid entry_size ref_counted ver = Inr t \<and>
     represents t w Map.empty \<and> tf_wf (vt_entry_size t) (vt_file t) \<and>
     vt_multipart t = (entry_size = None) \<and> vt_ref_counted t = ref_counted \<and> vt_id t = tid"
proof -
  obtain t where "ValueTable_open path None tid entry_size ref_counted ver = Inr t" "vt_ok t" "vt_filled t = 1"
      "vt_last_removed t = 0" "tf_wf (vt_entry_size t) (vt_file t)" "vt_multipart t = (entry_size = None)"
      "vt_ref_counted t = ref_counted" "vt_id t = tid"
    using open_fresh_table [OF assms(1), of path tid ref_counted ver] by metis
  then show ?thesis using empty_represents [of t w] assms(2) by simp
qed

end
