(* ===== verification/Index_Table.thy ===== *)
theory Index_Table
  imports Value_Table
begin

text \<open>
  The index of a column, \<open>src/src/index.rs\<close>: a hash table of \<open>2 ^ index_bits\<close> chunks of 64
  entries. An entry packs the address of a value with the bits of the key that follow the chunk
  number. This theory holds the definitions; \<open>Index_Correct\<close> states and proves what they do.

  The memory map is the file behind it (\<open>it_map\<close>), the file found on disk at the table's path is
  an argument of the operations that open or create it. A write through the raw pointer of
  \<open>enact_plan\<close> outside the map is a fault.
\<close>

section \<open>Entries and addresses\<close>

definition SIZE_TIERS_BITS_8 :: u8 where "SIZE_TIERS_BITS_8 = 8"
definition CHUNK_ENTRIES_BITS_8 :: u8 where "CHUNK_ENTRIES_BITS_8 = 6"
definition EMPTY_CHUNK :: bytes where "EMPTY_CHUNK = replicate CHUNK_LEN 0"

datatype Address = Address u64
datatype IndexEntry = IndexEntry u64

definition Address_new :: "u64 \<Rightarrow> u8 \<Rightarrow> Address" where
  "Address_new offset size_tier = Address (shl offset 8 OR ucast size_tier)"

definition Address_from_u64 :: "u64 \<Rightarrow> Address" where
  "Address_from_u64 a = Address a"

primrec Address_as_u64 :: "Address \<Rightarrow> u64" where
  "Address_as_u64 (Address a) = a"

definition Address_offset :: "Address \<Rightarrow> u64" where
  "Address_offset a = shr (Address_as_u64 a) 8"

definition Address_size_tier :: "Address \<Rightarrow> u8" where
  "Address_size_tier a = ucast (Address_as_u64 a AND (shl 1 8 - 1))"

definition Address_fmt :: "Address \<Rightarrow> string" where
  "Address_fmt a = ''addr '' @ hex [Address_size_tier a] @ '':'' @ dec (unat (Address_offset a))"

primrec IndexEntry_as_u64 :: "IndexEntry \<Rightarrow> u64" where
  "IndexEntry_as_u64 (IndexEntry e) = e"

definition IndexEntry_from_u64 :: "u64 \<Rightarrow> IndexEntry" where
  "IndexEntry_from_u64 e = IndexEntry e"

definition IndexEntry_address_bits :: "u8 \<Rightarrow> u8" where
  "IndexEntry_address_bits index_bits = index_bits + CHUNK_ENTRIES_BITS_8 + SIZE_TIERS_BITS_8"

definition IndexEntry_new :: "Address \<Rightarrow> u64 \<Rightarrow> u8 \<Rightarrow> IndexEntry" where
  "IndexEntry_new address key_material index_bits =
     IndexEntry (shl key_material (unat (IndexEntry_address_bits index_bits)) OR Address_as_u64 address)"

definition IndexEntry_last_address :: "u8 \<Rightarrow> u64" where
  "IndexEntry_last_address index_bits = shl 1 (unat (IndexEntry_address_bits index_bits)) - 1"

definition IndexEntry_address :: "IndexEntry \<Rightarrow> u8 \<Rightarrow> Address" where
  "IndexEntry_address e index_bits =
     Address_from_u64 (IndexEntry_as_u64 e AND IndexEntry_last_address index_bits)"

definition IndexEntry_key_material :: "IndexEntry \<Rightarrow> u8 \<Rightarrow> u64" where
  "IndexEntry_key_material e index_bits =
     shr (IndexEntry_as_u64 e) (unat (IndexEntry_address_bits index_bits))"

definition IndexEntry_extract_key :: "u64 \<Rightarrow> u8 \<Rightarrow> u64" where
  "IndexEntry_extract_key key index_bits =
     shr (shl key (unat index_bits)) (unat (IndexEntry_address_bits index_bits))"

definition IndexEntry_is_empty :: "IndexEntry \<Rightarrow> bool" where
  "IndexEntry_is_empty e \<longleftrightarrow> IndexEntry_as_u64 e = 0"

definition IndexEntry_empty :: IndexEntry where
  "IndexEntry_empty = IndexEntry 0"


section \<open>The table\<close>

datatype PlanOutcome = Written | NeedReindex | Skipped

record IndexTable =
  it_id :: itable_id
  it_map :: "disk_file option"
  it_path :: string

definition IndexTable_open_existing :: "string \<Rightarrow> disk_file option \<Rightarrow> itable_id \<Rightarrow> IndexTable option" where
  "IndexTable_open_existing path disk tid =
     (case disk of
        None \<Rightarrow> None
      | Some f \<Rightarrow>
          Some \<lparr>it_id = tid,
                it_map = Some (file_set_len (unat (file_size (ITableId_index_bits tid))) f),
                it_path = path @ ''/'' @ ITableId_file_name tid\<rparr>)"

definition IndexTable_create_new :: "string \<Rightarrow> itable_id \<Rightarrow> IndexTable" where
  "IndexTable_create_new path tid =
     \<lparr>it_id = tid, it_map = None, it_path = path @ ''/'' @ ITableId_file_name tid\<rparr>"

definition chunk_offset :: "u64 \<Rightarrow> nat" where
  "chunk_offset index = unat (of_nat META_SIZE + index * of_nat CHUNK_LEN :: u64)"

definition IndexTable_chunk_at :: "u64 \<Rightarrow> disk_file \<Rightarrow> bytes res" where
  "IndexTable_chunk_at index mmap =
     (let offset = chunk_offset index
      in if offset + CHUNK_LEN \<le> flen mmap then Inr (file_bytes mmap offset CHUNK_LEN)
         else Inl (Panic ''range end index out of range for slice''))"

definition IndexTable_read_entry :: "bytes \<Rightarrow> nat \<Rightarrow> IndexEntry" where
  "IndexTable_read_entry chunk at' = IndexEntry_from_u64 (from_le (slice_of (at' * 8) (at' * 8 + 8) chunk))"

definition IndexTable_write_entry :: "IndexEntry \<Rightarrow> nat \<Rightarrow> bytes \<Rightarrow> bytes" where
  "IndexTable_write_entry entry at' chunk = overwrite (at' * 8) (to_le 8 (IndexEntry_as_u64 entry)) chunk"

definition IndexTable_transmute_chunk :: "bytes \<Rightarrow> IndexEntry list" where
  "IndexTable_transmute_chunk chunk = map (IndexTable_read_entry chunk) [0..<CHUNK_ENTRIES]"

definition IndexTable_chunk_index :: "IndexTable \<Rightarrow> u64 \<Rightarrow> u64" where
  "IndexTable_chunk_index t key = shr key (unat (64 - ITableId_index_bits (it_id t)))"

text \<open>The loop of \<open>find_entry\<close> returns at the first match.\<close>

definition IndexTable_find_entry :: "IndexTable \<Rightarrow> u64 \<Rightarrow> nat \<Rightarrow> bytes \<Rightarrow> IndexEntry \<times> nat" where
  "IndexTable_find_entry t key sub_index chunk =
     (let partial_key = IndexEntry_extract_key key (ITableId_index_bits (it_id t))
      in case List.find (\<lambda>i. let entry = IndexTable_read_entry chunk i
                             in \<not> IndexEntry_is_empty entry \<and>
                                IndexEntry_key_material entry (ITableId_index_bits (it_id t)) = partial_key)
              [sub_index..<CHUNK_ENTRIES] of
           Some i \<Rightarrow> (IndexTable_read_entry chunk i, i)
         | None \<Rightarrow> (IndexEntry_empty, 0))"

definition IndexTable_recover_key_prefix :: "IndexTable \<Rightarrow> u64 \<Rightarrow> IndexEntry \<Rightarrow> Key" where
  "IndexTable_recover_key_prefix t chunk entry =
     (let index_bits = ITableId_index_bits (it_id t);
          partial_key = IndexEntry_key_material entry index_bits;
          k = 64 - IndexEntry_address_bits index_bits;
          index_key = shl chunk (unat (64 - index_bits)) OR
                      shl partial_key (unat (64 - k - index_bits))
      in overwrite 0 (to_be 8 index_key) (replicate 32 0))"

definition key_prefix :: "Key \<Rightarrow> u64" where
  "key_prefix key = from_be (slice_of 0 8 key)"

definition IndexTable_get :: "IndexTable \<Rightarrow> Key \<Rightarrow> nat \<Rightarrow> LogQuery \<Rightarrow> (IndexEntry \<times> nat) res" where
  "IndexTable_get t key sub_index log =
     (let key = key_prefix key; chunk_index = IndexTable_chunk_index t key
      in case q_with_index log (it_id t) chunk_index of
           Some chunk \<Rightarrow> Inr (IndexTable_find_entry t key sub_index chunk)
         | None \<Rightarrow>
             (case it_map t of
                Some mmap \<Rightarrow>
                  and_then (IndexTable_chunk_at chunk_index mmap) (\<lambda>chunk.
                    Inr (IndexTable_find_entry t key sub_index chunk))
              | None \<Rightarrow> Inr (IndexEntry_empty, 0)))"

definition IndexTable_entries :: "IndexTable \<Rightarrow> u64 \<Rightarrow> LogQuery \<Rightarrow> IndexEntry list res" where
  "IndexTable_entries t chunk_index log =
     (case q_with_index log (it_id t) chunk_index of
        Some chunk \<Rightarrow> Inr (IndexTable_transmute_chunk chunk)
      | None \<Rightarrow>
          (case it_map t of
             Some mmap \<Rightarrow>
               and_then (IndexTable_chunk_at chunk_index mmap) (\<lambda>chunk.
                 Inr (IndexTable_transmute_chunk chunk))
           | None \<Rightarrow> Inr (IndexTable_transmute_chunk EMPTY_CHUNK)))"


section \<open>Planning\<close>

definition IndexTable_plan_insert_chunk ::
    "IndexTable \<Rightarrow> u64 \<Rightarrow> Address \<Rightarrow> bytes \<Rightarrow> nat option \<Rightarrow> LogWriter \<Rightarrow> (PlanOutcome \<times> LogWriter) res" where
  "IndexTable_plan_insert_chunk t key address source sub_index log =
     (let index_bits = ITableId_index_bits (it_id t);
          chunk_index = IndexTable_chunk_index t key
      in if IndexEntry_last_address index_bits < Address_as_u64 address then Inr (NeedReindex, log)
         else if length source \<noteq> CHUNK_LEN
         then Inl (Panic ''source slice length does not match destination slice length'')
         else
           let chunk = source;
               partial_key = IndexEntry_extract_key key index_bits;
               new_entry = IndexEntry_new address partial_key index_bits
           in case sub_index of
                Some i \<Rightarrow>
                  if CHUNK_ENTRIES \<le> i then Inl (Panic ''range end index out of range for slice'')
                  else if IndexEntry_key_material (IndexTable_read_entry chunk i) index_bits
                          \<noteq> IndexEntry_key_material new_entry index_bits
                  then Inl (Panic ''assertion failed: entry.key_material == new_entry.key_material'')
                  else Inr (Written, LogWriter_insert_index log (it_id t) chunk_index (of_nat i)
                                       (IndexTable_write_entry new_entry i chunk))
              | None \<Rightarrow>
                  (case List.find (\<lambda>i. IndexEntry_is_empty (IndexTable_read_entry chunk i))
                          [0..<CHUNK_ENTRIES] of
                     Some i \<Rightarrow>
                       Inr (Written, LogWriter_insert_index log (it_id t) chunk_index (of_nat i)
                                       (IndexTable_write_entry new_entry i chunk))
                   | None \<Rightarrow> Inr (NeedReindex, log)))"

definition IndexTable_write_insert_plan ::
    "IndexTable \<Rightarrow> Key \<Rightarrow> Address \<Rightarrow> nat option \<Rightarrow> LogWriter \<Rightarrow> (PlanOutcome \<times> LogWriter) res" where
  "IndexTable_write_insert_plan t key address sub_index log =
     (let key = key_prefix key; chunk_index = IndexTable_chunk_index t key
      in case q_with_index (LogWriter_query log) (it_id t) chunk_index of
           Some chunk \<Rightarrow> IndexTable_plan_insert_chunk t key address chunk sub_index log
         | None \<Rightarrow>
             (case it_map t of
                Some mmap \<Rightarrow>
                  and_then (IndexTable_chunk_at chunk_index mmap) (\<lambda>chunk.
                    IndexTable_plan_insert_chunk t key address chunk sub_index log)
              | None \<Rightarrow> IndexTable_plan_insert_chunk t key address EMPTY_CHUNK sub_index log))"

definition IndexTable_plan_remove_chunk ::
    "IndexTable \<Rightarrow> u64 \<Rightarrow> bytes \<Rightarrow> nat \<Rightarrow> LogWriter \<Rightarrow> (PlanOutcome \<times> LogWriter) res" where
  "IndexTable_plan_remove_chunk t key source sub_index log =
     (if length source \<noteq> CHUNK_LEN
      then Inl (Panic ''source slice length does not match destination slice length'')
      else
        let index_bits = ITableId_index_bits (it_id t);
            chunk = source;
            chunk_index = IndexTable_chunk_index t key;
            partial_key = IndexEntry_extract_key key index_bits;
            i = sub_index
        in if CHUNK_ENTRIES \<le> i then Inl (Panic ''range end index out of range for slice'')
           else
             let entry = IndexTable_read_entry chunk i
             in if \<not> IndexEntry_is_empty entry \<and> IndexEntry_key_material entry index_bits = partial_key
                then Inr (Written, LogWriter_insert_index log (it_id t) chunk_index (of_nat i)
                                     (IndexTable_write_entry IndexEntry_empty i chunk))
                else Inr (Skipped, log))"

definition IndexTable_write_remove_plan ::
    "IndexTable \<Rightarrow> Key \<Rightarrow> nat \<Rightarrow> LogWriter \<Rightarrow> (PlanOutcome \<times> LogWriter) res" where
  "IndexTable_write_remove_plan t key sub_index log =
     (let key = key_prefix key; chunk_index = IndexTable_chunk_index t key
      in case q_with_index (LogWriter_query log) (it_id t) chunk_index of
           Some chunk \<Rightarrow> IndexTable_plan_remove_chunk t key chunk sub_index log
         | None \<Rightarrow>
             (case it_map t of
                Some mmap \<Rightarrow>
                  and_then (IndexTable_chunk_at chunk_index mmap) (\<lambda>chunk.
                    IndexTable_plan_remove_chunk t key chunk sub_index log)
              | None \<Rightarrow> Inr (Skipped, log)))"


section \<open>Enacting\<close>

text \<open>The entries of the mask are read from the log straight into the chunk, one after the other.\<close>

primrec enact_entries :: "nat list \<Rightarrow> nat \<Rightarrow> disk_file \<Rightarrow> LogReader \<Rightarrow> (disk_file \<times> LogReader) res" where
  "enact_entries [] offset mmap log = Inr (mmap, log)"
| "enact_entries (i # is) offset mmap log =
     and_then (LogReader_read log ENTRY_BYTES) (\<lambda>(b, log).
       enact_entries is offset (file_write_at mmap (offset + i * ENTRY_BYTES) b) log)"

definition IndexTable_enact_plan ::
    "IndexTable \<Rightarrow> disk_file option \<Rightarrow> u64 \<Rightarrow> LogReader \<Rightarrow> (IndexTable \<times> LogReader) res" where
  "IndexTable_enact_plan t disk index log =
     and_then (case it_map t of
                 Some mmap \<Rightarrow> Inr mmap
               | None \<Rightarrow>
                   (case disk of
                      Some _ \<Rightarrow> Inl (Err (Io AlreadyExists))
                    | None \<Rightarrow>
                        Inr (file_set_len (unat (file_size (ITableId_index_bits (it_id t)))) file_new)))
       (\<lambda>mmap.
         let offset = chunk_offset index
         in if flen mmap < offset + CHUNK_LEN then Inl (Panic ''write outside of the memory map'')
            else
              and_then (LogReader_read log 8) (\<lambda>(mask_buf, log).
              and_then (enact_entries (mask_indices (from_le mask_buf)) offset mmap log) (\<lambda>(mmap, log).
                Inr (t\<lparr>it_map := Some mmap\<rparr>, log))))"

primrec validate_entries :: "nat list \<Rightarrow> LogReader \<Rightarrow> LogReader res" where
  "validate_entries [] log = Inr log"
| "validate_entries (i # is) log = and_then (LogReader_read log 8) (\<lambda>(_, log). validate_entries is log)"

definition IndexTable_validate_plan :: "IndexTable \<Rightarrow> u64 \<Rightarrow> LogReader \<Rightarrow> LogReader res" where
  "IndexTable_validate_plan t index log =
     (if ITableId_total_entries (it_id t) \<le> index then Inl (Err (Corruption ''Bad index''))
      else
        and_then (LogReader_read log 8) (\<lambda>(buf, log).
          validate_entries (mask_indices (from_le buf)) log))"

text \<open>\<open>drop_file\<close> removes the file at the path; the map is dropped with the table.\<close>

definition IndexTable_drop_file :: "IndexTable \<Rightarrow> disk_file option \<Rightarrow> disk_file option res" where
  "IndexTable_drop_file t disk =
     (case disk of None \<Rightarrow> Inl (Err (Io NotFound)) | Some _ \<Rightarrow> Inr None)"

end
