(* ===== verification/Index_Correct.thy ===== *)
theory Index_Correct
  imports Index_Table
begin

text \<open>
  What the index does. A key selects a chunk by its first bits and is recognised inside it by the
  bits that follow; \<open>lookups\<close> is the map from positions to addresses that a key sees. The
  planning operations are shown to be the updates of that map, \<open>get\<close> its enumeration;
  the contract is the locale \<open>key_index\<close>, interpreted on the operations of \<open>src/src/index.rs\<close>.
\<close>

section \<open>Bits of an entry\<close>

text \<open>The sizes for which all shifts stay below 64.\<close>

definition bits_ok :: "u8 \<Rightarrow> bool" where
  "bits_ok b \<longleftrightarrow> 0 < unat b \<and> unat b \<le> 49"

lemma unat_u8_sub: "unat b \<le> n \<Longrightarrow> n < 256 \<Longrightarrow> unat (of_nat n - b :: u8) = n - unat b"
proof -
  assume le: "unat b \<le> n" and n: "n < 256"
  have "unat (of_nat n :: u8) = n" using n by (intro unat_of_nat_small) simp
  then show ?thesis using le by (simp add: unat_sub word_le_nat_alt)
qed

lemma unat_address_bits: "bits_ok b \<Longrightarrow> unat (IndexEntry_address_bits b) = unat b + 14"
proof -
  assume "bits_ok b"
  then have "unat b + 14 < 2 ^ 8" by (simp add: bits_ok_def)
  moreover have "IndexEntry_address_bits b = b + 14"
    by (simp add: IndexEntry_address_bits_def CHUNK_ENTRIES_BITS_8_def SIZE_TIERS_BITS_8_def)
  ultimately show ?thesis by (simp add: unat_add_no_overflow)
qed

lemma last_address_mask:
  assumes "bits_ok b"
  shows "IndexEntry_last_address b = mask (unat b + 14)"
  using assms unat_address_bits [OF assms]
  by (simp add: IndexEntry_last_address_def shl_def bits_ok_def mask_eq_exp_minus_1)

lemma le_mask_bits:
  assumes "(x :: u64) \<le> mask n"
  shows "bit x i \<longleftrightarrow> i < n \<and> bit x i"
proof -
  have "uint x \<le> mask (min 64 n)"
    using assms by (simp add: word_le_def uint_mask_eq)
  then have "uint x < 2 ^ min 64 n" by (simp add: mask_eq_exp_minus_1)
  then have "take_bit (min 64 n) (uint x) = uint x" by (simp add: take_bit_int_eq_self)
  moreover have "bit x i \<longleftrightarrow> bit (uint x) i" by (auto simp: bit_uint_iff dest: bit_imp_le_length)
  ultimately show ?thesis by (metis bit_take_bit_iff min_less_iff_conj)
qed

lemma bit_extract_key:
  assumes "bits_ok b"
  shows "bit (IndexEntry_extract_key k b) i \<longleftrightarrow> i + unat b < 50 \<and> bit k (14 + i)"
  using assms unat_address_bits [OF assms]
  by (auto simp: IndexEntry_extract_key_def bit_shr bit_shl bits_ok_def)

lemma bit_entry_new:
  assumes "bits_ok b" and "Address_as_u64 a \<le> IndexEntry_last_address b"
  shows "bit (IndexEntry_as_u64 (IndexEntry_new a km b)) i \<longleftrightarrow>
     (if i < unat b + 14 then bit (Address_as_u64 a) i else i < 64 \<and> bit km (i - (unat b + 14)))"
  using assms unat_address_bits [OF assms(1)] le_mask_bits [of "Address_as_u64 a" "unat b + 14" i]
  by (auto simp: IndexEntry_new_def bit_or_iff bit_shl bits_ok_def last_address_mask dest: bit_imp_le_length)

lemma Address_eqI: "Address_as_u64 a = Address_as_u64 b \<Longrightarrow> a = b"
  by (cases a; cases b) simp

lemma entry_new_address:
  assumes "bits_ok b" and "Address_as_u64 a \<le> IndexEntry_last_address b"
  shows "IndexEntry_address (IndexEntry_new a km b) b = a"
proof (rule Address_eqI, rule bit_word_eqI)
  fix i :: nat
  show "bit (Address_as_u64 (IndexEntry_address (IndexEntry_new a km b) b)) i = bit (Address_as_u64 a) i"
    using le_mask_bits [of "Address_as_u64 a" "unat b + 14" i] assms(2) last_address_mask [OF assms(1)]
    by (auto simp: IndexEntry_address_def Address_from_u64_def bit_and_iff bit_entry_new [OF assms] bit_mask_iff
        dest: bit_imp_le_length)
qed

lemma entry_new_material:
  assumes "bits_ok b" and "Address_as_u64 a \<le> IndexEntry_last_address b"
  shows "IndexEntry_key_material (IndexEntry_new a (IndexEntry_extract_key k b) b) b = IndexEntry_extract_key k b"
proof (rule bit_word_eqI)
  fix i :: nat
  show "bit (IndexEntry_key_material (IndexEntry_new a (IndexEntry_extract_key k b) b) b) i =
      bit (IndexEntry_extract_key k b) i"
    using assms(1) unat_address_bits [OF assms(1)]
    by (auto simp: IndexEntry_key_material_def bit_shr bits_ok_def bit_entry_new [OF assms]
        bit_extract_key [OF assms(1)])
qed

lemma entry_new_nonempty:
  assumes "bits_ok b" and "Address_as_u64 a \<le> IndexEntry_last_address b" and "Address_as_u64 a \<noteq> 0"
  shows "\<not> IndexEntry_is_empty (IndexEntry_new a km b)"
proof
  assume "IndexEntry_is_empty (IndexEntry_new a km b)"
  then have "IndexEntry_address (IndexEntry_new a km b) b = Address 0"
    by (simp add: IndexEntry_is_empty_def IndexEntry_address_def Address_from_u64_def)
  with entry_new_address [OF assms(1,2)] assms(3) show False by simp
qed

lemma empty_entry [simp]: "IndexEntry_is_empty IndexEntry_empty"
  by (simp add: IndexEntry_is_empty_def IndexEntry_empty_def)


section \<open>Entries of a chunk\<close>

lemma read_write_entry:
  assumes "length c = CHUNK_LEN" and "i < CHUNK_ENTRIES" and "j < CHUNK_ENTRIES"
  shows "IndexTable_read_entry (IndexTable_write_entry e i c) j =
           (if j = i then e else IndexTable_read_entry c j)"
proof -
  let ?b = "to_le 8 (IndexEntry_as_u64 e)"
  have len: "i * 8 + length ?b \<le> length c" "j * 8 + 8 \<le> length c"
    using assms by (simp_all add: CHUNK_LEN_def CHUNK_ENTRIES_def)
  consider "j = i" | "j < i" | "i < j" by linarith
  then show ?thesis
  proof cases
    case 1
    then show ?thesis
      using slice_overwrite_same [OF len(1)]
      by (cases e) (simp add: IndexTable_read_entry_def IndexTable_write_entry_def IndexEntry_from_u64_def)
  next
    case 2
    then show ?thesis
      using slice_overwrite_before [of "j * 8 + 8" "i * 8" ?b c "j * 8"] len
      by (simp add: IndexTable_read_entry_def IndexTable_write_entry_def)
  next
    case 3
    then show ?thesis
      using slice_overwrite_after [of "i * 8" ?b "j * 8" "j * 8 + 8" c] len
      by (simp add: IndexTable_read_entry_def IndexTable_write_entry_def)
  qed
qed

lemma length_write_entry [simp]:
  "length c = CHUNK_LEN \<Longrightarrow> i < CHUNK_ENTRIES \<Longrightarrow> length (IndexTable_write_entry e i c) = CHUNK_LEN"
  by (simp add: IndexTable_write_entry_def CHUNK_LEN_def CHUNK_ENTRIES_def)

lemma from_le_zeros [simp]: "from_le (replicate n 0) = 0"
  by (induction n) simp_all

lemma read_empty_chunk [simp]: "i < CHUNK_ENTRIES \<Longrightarrow> IndexTable_read_entry EMPTY_CHUNK i = IndexEntry_empty"
  by (simp add: IndexTable_read_entry_def EMPTY_CHUNK_def slice_of_def IndexEntry_empty_def
      IndexEntry_from_u64_def)

lemma length_EMPTY_CHUNK [simp]: "length EMPTY_CHUNK = CHUNK_LEN"
  by (simp add: EMPTY_CHUNK_def)

text \<open>The address a key finds at position \<open>i\<close> of a chunk.\<close>

definition cand :: "u8 \<Rightarrow> bytes \<Rightarrow> u64 \<Rightarrow> nat \<Rightarrow> Address option" where
  "cand b c k i =
     (let e = IndexTable_read_entry c i
      in if i < CHUNK_ENTRIES \<and> \<not> IndexEntry_is_empty e \<and>
            IndexEntry_key_material e b = IndexEntry_extract_key k b
         then Some (IndexEntry_address e b) else None)"

lemma cand_write:
  assumes "length c = CHUNK_LEN" and "i < CHUNK_ENTRIES" and "bits_ok b"
    and "Address_as_u64 a \<le> IndexEntry_last_address b" and "Address_as_u64 a \<noteq> 0"
  shows "cand b (IndexTable_write_entry (IndexEntry_new a (IndexEntry_extract_key k b) b) i c) k' =
     (cand b c k')(i := if IndexEntry_extract_key k' b = IndexEntry_extract_key k b then Some a else None)"
  by (rule ext)
     (auto simp: cand_def Let_def read_write_entry assms entry_new_address entry_new_material
       entry_new_nonempty)

lemma cand_erase:
  assumes "length c = CHUNK_LEN" and "i < CHUNK_ENTRIES"
  shows "cand b (IndexTable_write_entry IndexEntry_empty i c) k' = (cand b c k')(i := None)"
proof
  fix j
  show "cand b (IndexTable_write_entry IndexEntry_empty i c) k' j = ((cand b c k')(i := None)) j"
    using assms by (cases "j = i") (auto simp: cand_def Let_def read_write_entry)
qed

text \<open>\<open>find_entry\<close> returns the first candidate from \<open>sub_index\<close> on.\<close>

definition first_cand :: "u8 \<Rightarrow> bytes \<Rightarrow> u64 \<Rightarrow> nat \<Rightarrow> nat option" where
  "first_cand b c k sub = List.find (\<lambda>i. cand b c k i \<noteq> None) [sub..<CHUNK_ENTRIES]"

lemma find_cong: "(\<And>x. x \<in> set xs \<Longrightarrow> P x = Q x) \<Longrightarrow> List.find P xs = List.find Q xs"
  by (induction xs) auto

lemma find_entry_eq:
  "IndexTable_find_entry t k sub c =
     (case first_cand (ITableId_index_bits (it_id t)) c k sub of
        None \<Rightarrow> (IndexEntry_empty, 0) | Some i \<Rightarrow> (IndexTable_read_entry c i, i))"
proof -
  have "List.find (\<lambda>i. let entry = IndexTable_read_entry c i
              in \<not> IndexEntry_is_empty entry \<and>
                 IndexEntry_key_material entry (ITableId_index_bits (it_id t)) =
                 IndexEntry_extract_key k (ITableId_index_bits (it_id t))) [sub..<CHUNK_ENTRIES] =
        first_cand (ITableId_index_bits (it_id t)) c k sub"
    unfolding first_cand_def by (rule find_cong) (auto simp: cand_def Let_def)
  then show ?thesis by (simp add: IndexTable_find_entry_def Let_def split: option.split)
qed

lemma first_cand_Some:
  assumes "first_cand b c k sub = Some i"
  shows "sub \<le> i" "i < CHUNK_ENTRIES" "cand b c k i \<noteq> None" "\<And>j. sub \<le> j \<Longrightarrow> j < i \<Longrightarrow> cand b c k j = None"
proof -
  from assms obtain n where n: "n < length [sub..<CHUNK_ENTRIES]" "cand b c k ([sub..<CHUNK_ENTRIES] ! n) \<noteq> None"
      "i = [sub..<CHUNK_ENTRIES] ! n" "\<forall>j<n. cand b c k ([sub..<CHUNK_ENTRIES] ! j) = None"
    unfolding first_cand_def find_Some_iff by blast
  then have i: "i = sub + n" by simp
  then show "sub \<le> i" "i < CHUNK_ENTRIES" "cand b c k i \<noteq> None" using n by auto
  fix j assume "sub \<le> j" "j < i"
  then show "cand b c k j = None" using n(4) i n(1) by (auto dest: spec [of _ "j - sub"])
qed

lemma first_cand_None: "first_cand b c k sub = None \<Longrightarrow> sub \<le> i \<Longrightarrow> cand b c k i = None"
  by (cases "i < CHUNK_ENTRIES") (auto simp: first_cand_def find_None_iff cand_def Let_def)

section \<open>What a key sees\<close>

definition chunk_view :: "IndexTable \<Rightarrow> LogQuery \<Rightarrow> u64 \<Rightarrow> bytes" where
  "chunk_view t q ci =
     (case q_with_index q (it_id t) ci of
        Some c \<Rightarrow> c
      | None \<Rightarrow> (case it_map t of Some m \<Rightarrow> file_bytes m (chunk_offset ci) CHUNK_LEN | None \<Rightarrow> EMPTY_CHUNK))"

abbreviation ibits :: "IndexTable \<Rightarrow> u8" where
  "ibits t \<equiv> ITableId_index_bits (it_id t)"

text \<open>The map has the size of the file, and every logged chunk has the size of a chunk.\<close>

definition it_ok :: "IndexTable \<Rightarrow> LogQuery \<Rightarrow> bool" where
  "it_ok t q \<longleftrightarrow>
     bits_ok (ibits t) \<and> (\<forall>m. it_map t = Some m \<longrightarrow> flen m = unat (file_size (ibits t))) \<and>
     (\<forall>ci c. q_with_index q (it_id t) ci = Some c \<longrightarrow> length c = CHUNK_LEN)"

definition lookups :: "IndexTable \<Rightarrow> LogQuery \<Rightarrow> Key \<Rightarrow> nat \<Rightarrow> Address option" where
  "lookups t q key =
     cand (ibits t) (chunk_view t q (IndexTable_chunk_index t (key_prefix key))) (key_prefix key)"

text \<open>Two keys the index cannot tell apart.\<close>

definition same_bucket :: "IndexTable \<Rightarrow> Key \<Rightarrow> Key \<Rightarrow> bool" where
  "same_bucket t k k' \<longleftrightarrow>
     IndexTable_chunk_index t (key_prefix k) = IndexTable_chunk_index t (key_prefix k') \<and>
     IndexEntry_extract_key (key_prefix k) (ibits t) = IndexEntry_extract_key (key_prefix k') (ibits t)"

lemma same_bucket_lookups: "same_bucket t k k' \<Longrightarrow> lookups t q k = lookups t q k'"
  by (rule ext) (simp add: same_bucket_def lookups_def cand_def)

lemma unat_chunks:
  assumes "bits_ok b"
  shows "unat (total_chunks b) = 2 ^ unat b" "unat (file_size b) = 2 ^ unat b * 512 + 16384"
    "2 ^ unat b * 512 + (16384 :: nat) < 2 ^ 64"
proof -
  have b: "unat b \<le> 49" using assms by (simp add: bits_ok_def)
  have le: "(2 :: nat) ^ unat b \<le> 2 ^ 49" by (rule power_increasing) (use b in simp_all)
  then show lt: "2 ^ unat b * 512 + (16384 :: nat) < 2 ^ 64" by simp
  have "total_chunks b = 2 ^ unat b" using b by (simp add: total_chunks_def shl_def)
  then have "total_chunks b = of_nat (2 ^ unat b)" by simp
  moreover have "2 ^ unat b < (2 :: nat) ^ LENGTH(64)" using lt by simp
  ultimately show tc: "unat (total_chunks b) = 2 ^ unat b"
    using unat_of_nat_small [of "2 ^ unat b", where 'a = 64] by simp
  have "file_size b = of_nat (2 ^ unat b * 512 + 16384)"
    using \<open>total_chunks b = of_nat (2 ^ unat b)\<close>
    by (simp add: file_size_def total_entries_def CHUNK_ENTRIES_def META_SIZE_def)
  then show "unat (file_size b) = 2 ^ unat b * 512 + 16384"
    using unat_of_nat_small [of "2 ^ unat b * 512 + 16384", where 'a = 64] lt by simp
qed

lemma chunk_in_map:
  assumes "bits_ok b" and "unat ci < 2 ^ unat b"
  shows "chunk_offset ci = unat ci * 512 + 16384" and "chunk_offset ci + CHUNK_LEN \<le> unat (file_size b)"
proof -
  have "Suc (unat ci) * 512 \<le> 2 ^ unat b * 512" using assms(2) by (intro mult_le_mono1) simp
  then have le: "unat ci * 512 + 512 \<le> 2 ^ unat b * 512" by simp
  moreover have "of_nat META_SIZE + ci * of_nat CHUNK_LEN = of_nat (unat ci * 512 + 16384)"
    by (simp add: META_SIZE_def CHUNK_LEN_def)
  ultimately show o: "chunk_offset ci = unat ci * 512 + 16384"
    using unat_chunks(3) [OF assms(1)] unat_of_nat_small [of "unat ci * 512 + 16384", where 'a = 64]
    unfolding chunk_offset_def by simp
  show "chunk_offset ci + CHUNK_LEN \<le> unat (file_size b)"
    using le unfolding o unat_chunks(2) [OF assms(1)] by (simp add: CHUNK_LEN_def)
qed

lemma chunk_index_less:
  assumes "bits_ok (ibits t)"
  shows "unat (IndexTable_chunk_index t k) < 2 ^ unat (ibits t)"
proof -
  have b: "0 < unat (ibits t)" "unat (ibits t) \<le> 49" using assms by (simp_all add: bits_ok_def)
  have "unat (64 - ibits t) = 64 - unat (ibits t)"
    using unat_u8_sub [of "ibits t" 64] b by simp
  then have "unat (IndexTable_chunk_index t k) = unat k div 2 ^ (64 - unat (ibits t))"
    using b unat_drop_bit_eq [of "64 - unat (ibits t)" k]
    by (simp add: IndexTable_chunk_index_def shr_def flip: drop_bit_eq_div)
  moreover have "unat k < 2 ^ unat (ibits t) * 2 ^ (64 - unat (ibits t))"
    using unsigned_less [of k] b by (simp flip: power_add)
  ultimately show ?thesis by (simp add: less_mult_imp_div_less)
qed

lemma chunk_at_view:
  assumes "it_ok t q" and "it_map t = Some m"
  shows "IndexTable_chunk_at (IndexTable_chunk_index t k) m =
           Inr (file_bytes m (chunk_offset (IndexTable_chunk_index t k)) CHUNK_LEN)"
proof -
  have b: "bits_ok (ibits t)" and "flen m = unat (file_size (ibits t))"
    using assms by (auto simp: it_ok_def)
  then show ?thesis
    using chunk_in_map(2) [OF b chunk_index_less [OF b]] by (simp add: IndexTable_chunk_at_def)
qed

lemma length_chunk_view: "it_ok t q \<Longrightarrow> length (chunk_view t q ci) = CHUNK_LEN"
  by (auto simp: chunk_view_def it_ok_def split: option.split)

lemma cand_empty_chunk [simp]: "cand b EMPTY_CHUNK k i = None"
  by (simp add: cand_def Let_def)

lemma get_view:
  assumes "it_ok t q"
  shows "IndexTable_get t key sub q =
     Inr (IndexTable_find_entry t (key_prefix key) sub
           (chunk_view t q (IndexTable_chunk_index t (key_prefix key))))"
proof -
  have "first_cand b EMPTY_CHUNK k s = None" for b k s
    by (simp add: first_cand_def find_None_iff)
  then show ?thesis
    using chunk_at_view [OF assms]
    by (auto simp: IndexTable_get_def chunk_view_def find_entry_eq Let_def split: option.split)
qed

lemma insert_plan_view:
  assumes "it_ok t (LogWriter_query w)"
  shows "IndexTable_write_insert_plan t key a sub w =
     IndexTable_plan_insert_chunk t (key_prefix key) a
       (chunk_view t (LogWriter_query w) (IndexTable_chunk_index t (key_prefix key))) sub w"
  using chunk_at_view [OF assms]
  by (auto simp: IndexTable_write_insert_plan_def chunk_view_def Let_def split: option.split)

lemma remove_plan_view:
  assumes "it_ok t (LogWriter_query w)" and "sub < CHUNK_ENTRIES"
  shows "IndexTable_write_remove_plan t key sub w =
     IndexTable_plan_remove_chunk t (key_prefix key)
       (chunk_view t (LogWriter_query w) (IndexTable_chunk_index t (key_prefix key))) sub w"
  using chunk_at_view [OF assms(1)] assms(2)
  by (auto simp: IndexTable_write_remove_plan_def chunk_view_def IndexTable_plan_remove_chunk_def Let_def
      split: option.split)

text \<open>Logging a chunk changes what is seen in that chunk and nothing else.\<close>

lemma chunk_view_insert:
  "chunk_view t (LogWriter_query (LogWriter_insert_index w (it_id t) ci sub c)) ci' =
     (if ci' = ci then c else chunk_view t (LogWriter_query w) ci')"
  by (simp add: chunk_view_def LogWriter_query_def LogWriter_with_index_insert_index)

lemma it_ok_insert:
  "it_ok t (LogWriter_query w) \<Longrightarrow> length c = CHUNK_LEN \<Longrightarrow>
     it_ok t (LogWriter_query (LogWriter_insert_index w (it_id t) ci sub c))"
  by (auto simp: it_ok_def LogWriter_query_def LogWriter_with_index_insert_index)

lemma lookups_write:
  assumes ok: "it_ok t (LogWriter_query w)" and i: "i < CHUNK_ENTRIES"
    and a: "Address_as_u64 a \<le> IndexEntry_last_address (ibits t)" "Address_as_u64 a \<noteq> 0"
    and c: "c = chunk_view t (LogWriter_query w) (IndexTable_chunk_index t (key_prefix key))"
    and w': "w' = LogWriter_insert_index w (it_id t) (IndexTable_chunk_index t (key_prefix key)) sub
          (IndexTable_write_entry (IndexEntry_new a (IndexEntry_extract_key (key_prefix key) (ibits t)) (ibits t)) i c)"
    and free: "\<And>k. \<not> same_bucket t key k \<Longrightarrow> lookups t (LogWriter_query w) k i = None \<or>
      IndexTable_chunk_index t (key_prefix k) \<noteq> IndexTable_chunk_index t (key_prefix key)"
  shows "lookups t (LogWriter_query w') k =
     (if same_bucket t key k then (lookups t (LogWriter_query w) key)(i \<mapsto> a) else lookups t (LogWriter_query w) k)"
proof -
  have b: "bits_ok (ibits t)" using ok by (simp add: it_ok_def)
  have len: "length c = CHUNK_LEN" using length_chunk_view [OF ok] c by simp
  note cw = cand_write [OF len i b a, of "key_prefix key" "key_prefix k"]
  show ?thesis
  proof (cases "IndexTable_chunk_index t (key_prefix k) = IndexTable_chunk_index t (key_prefix key)")
    case False
    then show ?thesis by (auto simp: lookups_def w' chunk_view_insert same_bucket_def)
  next
    case True
    then have eq: "lookups t (LogWriter_query w') k =
        (cand (ibits t) c (key_prefix k))(i := if IndexEntry_extract_key (key_prefix k) (ibits t) =
            IndexEntry_extract_key (key_prefix key) (ibits t) then Some a else None)"
      by (simp add: lookups_def w' chunk_view_insert cw)
    have old: "lookups t (LogWriter_query w) k = cand (ibits t) c (key_prefix k)"
      using True by (simp add: lookups_def c)
    show ?thesis
    proof (cases "same_bucket t key k")
      case True
      then show ?thesis
        using eq old same_bucket_lookups [OF True, of "LogWriter_query w"] by (simp add: same_bucket_def)
    next
      case False
      with \<open>IndexTable_chunk_index t (key_prefix k) = _\<close> have "cand (ibits t) c (key_prefix k) i = None"
        using free [OF False] old by simp
      then show ?thesis
        using eq old False True by (auto simp: same_bucket_def fun_upd_idem)
    qed
  qed
qed

section \<open>Planning\<close>

text \<open>Only chunks of the index \<open>tid\<close> were added to the record.\<close>

definition index_frame :: "itable_id \<Rightarrow> LogWriter \<Rightarrow> LogWriter \<Rightarrow> bool" where
  "index_frame tid w w' \<longleftrightarrow>
     lw_overlays w' = lw_overlays w \<and>
     lc_local_values (lw_log w') = lc_local_values (lw_log w) \<and>
     lc_record_id (lw_log w') = lc_record_id (lw_log w) \<and>
     lc_dropped_tables (lw_log w') = lc_dropped_tables (lw_log w) \<and>
     (\<forall>u. u \<noteq> tid \<longrightarrow> map_of (lc_local_index (lw_log w')) u = map_of (lc_local_index (lw_log w)) u)"

lemma index_frame_refl [simp, intro]: "index_frame tid w w"
  by (simp add: index_frame_def)

lemma index_frame_insert [simp, intro]: "index_frame tid w (LogWriter_insert_index w tid i sub d)"
  by (simp add: index_frame_def LogWriter_insert_index_def Let_def update_conv')

lemma index_frame_stored: "index_frame tid w w' \<Longrightarrow> writer_stored w' = writer_stored w"
  by (intro ext) (simp add: index_frame_def writer_stored_def cong: option.case_cong)

lemma index_frame_with_index:
  "index_frame tid w w' \<Longrightarrow> u \<noteq> tid \<Longrightarrow> LogWriter_with_index w' u = LogWriter_with_index w u"
  by (rule ext) (simp add: index_frame_def LogWriter_with_index_def cong: option.case_cong)

definition address_ok :: "IndexTable \<Rightarrow> Address \<Rightarrow> bool" where
  "address_ok t a \<longleftrightarrow> Address_as_u64 a \<le> IndexEntry_last_address (ibits t) \<and> Address_as_u64 a \<noteq> 0"

definition chunk_full :: "IndexTable \<Rightarrow> LogQuery \<Rightarrow> Key \<Rightarrow> bool" where
  "chunk_full t q key \<longleftrightarrow>
     (\<forall>i<CHUNK_ENTRIES. \<not> IndexEntry_is_empty
        (IndexTable_read_entry (chunk_view t q (IndexTable_chunk_index t (key_prefix key))) i))"

lemma plan_insert:
  assumes ok: "it_ok t (LogWriter_query w)" and a: "address_ok t a"
    and space: "\<not> chunk_full t (LogWriter_query w) key"
  shows "\<exists>i w'. IndexTable_write_insert_plan t key a None w = Inr (Written, w') \<and> i < CHUNK_ENTRIES \<and>
     it_ok t (LogWriter_query w') \<and> index_frame (it_id t) w w' \<and>
     lookups t (LogWriter_query w) key i = None \<and>
     (\<forall>k. lookups t (LogWriter_query w') k =
        (if same_bucket t key k then (lookups t (LogWriter_query w) key)(i \<mapsto> a)
         else lookups t (LogWriter_query w) k))"
proof -
  define c where "c = chunk_view t (LogWriter_query w) (IndexTable_chunk_index t (key_prefix key))"
  have len: "length c = CHUNK_LEN" unfolding c_def by (rule length_chunk_view [OF ok])
  from space obtain i0 where "i0 < CHUNK_ENTRIES" "IndexEntry_is_empty (IndexTable_read_entry c i0)"
    by (auto simp: chunk_full_def c_def)
  then obtain i where f: "List.find (\<lambda>i. IndexEntry_is_empty (IndexTable_read_entry c i)) [0..<CHUNK_ENTRIES] = Some i"
    by (cases "List.find (\<lambda>i. IndexEntry_is_empty (IndexTable_read_entry c i)) [0..<CHUNK_ENTRIES]")
       (auto simp: find_None_iff)
  then have i: "i < CHUNK_ENTRIES" "IndexEntry_is_empty (IndexTable_read_entry c i)"
    by (auto simp: find_Some_iff)
  define w' where "w' = LogWriter_insert_index w (it_id t) (IndexTable_chunk_index t (key_prefix key)) (of_nat i)
      (IndexTable_write_entry (IndexEntry_new a (IndexEntry_extract_key (key_prefix key) (ibits t)) (ibits t)) i c)"
  have none: "lookups t (LogWriter_query w) k i = None \<or>
      IndexTable_chunk_index t (key_prefix k) \<noteq> IndexTable_chunk_index t (key_prefix key)" for k
    using i(2) by (auto simp: lookups_def cand_def c_def)
  have "IndexTable_write_insert_plan t key a None w = Inr (Written, w')"
    using a f len
    by (simp add: insert_plan_view [OF ok] IndexTable_plan_insert_chunk_def c_def [symmetric] Let_def
        address_ok_def not_less w'_def)
  moreover have "it_ok t (LogWriter_query w')"
    unfolding w'_def by (rule it_ok_insert [OF ok length_write_entry [OF len i(1)]])
  moreover have "lookups t (LogWriter_query w') k =
      (if same_bucket t key k then (lookups t (LogWriter_query w) key)(i \<mapsto> a)
       else lookups t (LogWriter_query w) k)" for k
    using lookups_write [OF ok i(1) _ _ c_def w'_def] a none by (auto simp: address_ok_def)
  ultimately show ?thesis
    using i(1) none [of key] by (intro exI [of _ i] exI [of _ w']) (simp add: w'_def)
qed

lemma plan_insert_full:
  assumes ok: "it_ok t (LogWriter_query w)" and "chunk_full t (LogWriter_query w) key"
  shows "IndexTable_write_insert_plan t key a None w = Inr (NeedReindex, w)"
proof -
  define c where "c = chunk_view t (LogWriter_query w) (IndexTable_chunk_index t (key_prefix key))"
  have "List.find (\<lambda>i. IndexEntry_is_empty (IndexTable_read_entry c i)) [0..<CHUNK_ENTRIES] = None"
    using assms(2) by (auto simp: find_None_iff chunk_full_def c_def)
  moreover have "length c = CHUNK_LEN" unfolding c_def by (rule length_chunk_view [OF ok])
  ultimately show ?thesis
    by (simp add: insert_plan_view [OF ok] IndexTable_plan_insert_chunk_def c_def [symmetric] Let_def)
qed

lemma plan_insert_overflow:
  assumes "it_ok t (LogWriter_query w)" and "IndexEntry_last_address (ibits t) < Address_as_u64 a"
  shows "IndexTable_write_insert_plan t key a sub w = Inr (NeedReindex, w)"
  using assms(2) by (simp add: insert_plan_view [OF assms(1)] IndexTable_plan_insert_chunk_def Let_def)

lemma lookups_bound: "lookups t q key i \<noteq> None \<Longrightarrow> i < CHUNK_ENTRIES"
  by (auto simp: lookups_def cand_def Let_def split: if_splits)

lemma lookups_foreign:
  assumes "lookups t q key i \<noteq> None" and "\<not> same_bucket t key k"
  shows "lookups t q k i = None \<or>
     IndexTable_chunk_index t (key_prefix k) \<noteq> IndexTable_chunk_index t (key_prefix key)"
  using assms by (auto simp: lookups_def cand_def same_bucket_def Let_def split: if_splits)

lemma plan_replace:
  assumes ok: "it_ok t (LogWriter_query w)" and a: "address_ok t a"
    and old: "lookups t (LogWriter_query w) key i = Some x"
  shows "\<exists>w'. IndexTable_write_insert_plan t key a (Some i) w = Inr (Written, w') \<and>
     it_ok t (LogWriter_query w') \<and> index_frame (it_id t) w w' \<and>
     (\<forall>k. lookups t (LogWriter_query w') k =
        (if same_bucket t key k then (lookups t (LogWriter_query w) key)(i \<mapsto> a)
         else lookups t (LogWriter_query w) k))"
proof -
  define c where "c = chunk_view t (LogWriter_query w) (IndexTable_chunk_index t (key_prefix key))"
  have len: "length c = CHUNK_LEN" unfolding c_def by (rule length_chunk_view [OF ok])
  have b: "bits_ok (ibits t)" using ok by (simp add: it_ok_def)
  have i: "i < CHUNK_ENTRIES" using old lookups_bound by fastforce
  have mat: "IndexEntry_key_material (IndexTable_read_entry c i) (ibits t) =
      IndexEntry_extract_key (key_prefix key) (ibits t)"
    using old by (auto simp: lookups_def cand_def c_def Let_def split: if_splits)
  define w' where "w' = LogWriter_insert_index w (it_id t) (IndexTable_chunk_index t (key_prefix key)) (of_nat i)
      (IndexTable_write_entry (IndexEntry_new a (IndexEntry_extract_key (key_prefix key) (ibits t)) (ibits t)) i c)"
  have "IndexTable_write_insert_plan t key a (Some i) w = Inr (Written, w')"
    using a len i mat entry_new_material [OF b]
    by (simp add: insert_plan_view [OF ok] IndexTable_plan_insert_chunk_def c_def [symmetric] Let_def
        address_ok_def not_less w'_def)
  moreover have "it_ok t (LogWriter_query w')"
    unfolding w'_def by (rule it_ok_insert [OF ok length_write_entry [OF len i]])
  moreover have "lookups t (LogWriter_query w') k =
      (if same_bucket t key k then (lookups t (LogWriter_query w) key)(i \<mapsto> a)
       else lookups t (LogWriter_query w) k)" for k
    using lookups_write [OF ok i _ _ c_def w'_def] a lookups_foreign [of t "LogWriter_query w" key i] old
    by (auto simp: address_ok_def)
  ultimately show ?thesis by (intro exI [of _ w']) (simp add: w'_def)
qed

lemma plan_remove:
  assumes ok: "it_ok t (LogWriter_query w)" and old: "lookups t (LogWriter_query w) key i = Some x"
  shows "\<exists>w'. IndexTable_write_remove_plan t key i w = Inr (Written, w') \<and>
     it_ok t (LogWriter_query w') \<and> index_frame (it_id t) w w' \<and>
     (\<forall>k. lookups t (LogWriter_query w') k =
        (if same_bucket t key k then (lookups t (LogWriter_query w) key)(i := None)
         else lookups t (LogWriter_query w) k))"
proof -
  define c where "c = chunk_view t (LogWriter_query w) (IndexTable_chunk_index t (key_prefix key))"
  have len: "length c = CHUNK_LEN" unfolding c_def by (rule length_chunk_view [OF ok])
  have i: "i < CHUNK_ENTRIES" using old lookups_bound by fastforce
  define w' where "w' = LogWriter_insert_index w (it_id t) (IndexTable_chunk_index t (key_prefix key)) (of_nat i)
      (IndexTable_write_entry IndexEntry_empty i c)"
  have "\<not> IndexEntry_is_empty (IndexTable_read_entry c i) \<and>
      IndexEntry_key_material (IndexTable_read_entry c i) (ibits t) = IndexEntry_extract_key (key_prefix key) (ibits t)"
    using old by (auto simp: lookups_def cand_def c_def Let_def split: if_splits)
  then have "IndexTable_write_remove_plan t key i w = Inr (Written, w')"
    using len i
    by (simp add: remove_plan_view [OF ok i] IndexTable_plan_remove_chunk_def c_def [symmetric] Let_def w'_def)
  moreover have "it_ok t (LogWriter_query w')"
    unfolding w'_def by (rule it_ok_insert [OF ok length_write_entry [OF len i]])
  moreover have "lookups t (LogWriter_query w') k =
      (if same_bucket t key k then (lookups t (LogWriter_query w) key)(i := None)
       else lookups t (LogWriter_query w) k)" for k
  proof -
    have new: "lookups t (LogWriter_query w') k =
        (if IndexTable_chunk_index t (key_prefix k) = IndexTable_chunk_index t (key_prefix key)
         then (lookups t (LogWriter_query w) k)(i := None) else lookups t (LogWriter_query w) k)"
      by (simp add: lookups_def w'_def chunk_view_insert cand_erase [OF len i]) (simp add: c_def)
    show ?thesis
    proof (cases "same_bucket t key k")
      case True
      then show ?thesis
        using new same_bucket_lookups [OF True, of "LogWriter_query w"] by (simp add: same_bucket_def)
    next
      case False
      then show ?thesis
        using new lookups_foreign [of t "LogWriter_query w" key i k] old by (auto simp: fun_upd_idem)
    qed
  qed
  ultimately show ?thesis by (intro exI [of _ w']) (simp add: w'_def)
qed

lemma get_lookups:
  assumes ok: "it_ok t q"
  shows "\<exists>e i. IndexTable_get t key sub q = Inr (e, i) \<and>
     (if IndexEntry_is_empty e then i = 0 \<and> (\<forall>j\<ge>sub. lookups t q key j = None)
      else sub \<le> i \<and> lookups t q key i = Some (IndexEntry_address e (ibits t)) \<and>
           (\<forall>j. sub \<le> j \<longrightarrow> j < i \<longrightarrow> lookups t q key j = None))"
proof -
  define c where "c = chunk_view t q (IndexTable_chunk_index t (key_prefix key))"
  have lk: "lookups t q key = cand (ibits t) c (key_prefix key)" by (simp add: lookups_def c_def)
  show ?thesis
  proof (cases "first_cand (ibits t) c (key_prefix key) sub")
    case None
    then show ?thesis
      using first_cand_None [OF None] by (auto simp: get_view [OF ok] find_entry_eq c_def [symmetric] lk)
  next
    case (Some i)
    note f = first_cand_Some [OF Some]
    then have "\<not> IndexEntry_is_empty (IndexTable_read_entry c i)"
        "cand (ibits t) c (key_prefix key) i = Some (IndexEntry_address (IndexTable_read_entry c i) (ibits t))"
      by (auto simp: cand_def Let_def split: if_splits)
    with Some f show ?thesis
      by (auto simp: get_view [OF ok] find_entry_eq c_def [symmetric] lk)
  qed
qed

section \<open>The contract of an index\<close>

text \<open>
  What the column relies on: for each key the index is a map from positions to addresses; the
  planned changes update it for the keys of the same bucket and for no other key.
\<close>

locale key_index =
  fixes look :: "'s \<Rightarrow> Key \<Rightarrow> nat \<Rightarrow> Address option"
    and valid :: "'s \<Rightarrow> bool"
    and storable :: "'s \<Rightarrow> Key \<Rightarrow> Address \<Rightarrow> bool"
    and same :: "Key \<Rightarrow> Key \<Rightarrow> bool"
    and ins :: "'s \<Rightarrow> Key \<Rightarrow> Address \<Rightarrow> (PlanOutcome \<times> 's) res"
    and rem :: "'s \<Rightarrow> Key \<Rightarrow> nat \<Rightarrow> (PlanOutcome \<times> 's) res"
  assumes ins_law: "valid s \<Longrightarrow> storable s key a \<Longrightarrow>
      \<exists>i s'. ins s key a = Inr (Written, s') \<and> valid s' \<and> look s key i = None \<and>
        (\<forall>k. look s' k = (if same key k then (look s key)(i \<mapsto> a) else look s k))"
    and rem_law: "valid s \<Longrightarrow> look s key i = Some x \<Longrightarrow>
      \<exists>s'. rem s key i = Inr (Written, s') \<and> valid s' \<and>
        (\<forall>k. look s' k = (if same key k then (look s key)(i := None) else look s k))"
    and same_refl: "same key key"
    and same_look: "same key k \<Longrightarrow> look s key = look s k"
begin

lemma insert_finds:
  assumes "valid s" and "storable s key a"
  shows "\<exists>s'. ins s key a = Inr (Written, s') \<and> valid s' \<and>
     ran (look s' key) = insert a (ran (look s key)) \<and> (\<forall>k. \<not> same key k \<longrightarrow> look s' k = look s k)"
proof -
  obtain i s' where r: "ins s key a = Inr (Written, s')" "valid s'" "look s key i = None"
      "\<forall>k. look s' k = (if same key k then (look s key)(i \<mapsto> a) else look s k)"
    using ins_law [OF assms] by blast
  then have "ran (look s' key) = insert a (ran (look s key))"
    using same_refl [of key] by (simp add: ran_map_upd)
  with r show ?thesis by auto
qed

lemma insert_remove:
  assumes "valid s" and "storable s key a"
  shows "\<exists>i s1 s2. ins s key a = Inr (Written, s1) \<and> rem s1 key i = Inr (Written, s2) \<and> look s2 = look s"
proof -
  obtain i s1 where s1: "ins s key a = Inr (Written, s1)" "valid s1" "look s key i = None"
      "\<forall>k. look s1 k = (if same key k then (look s key)(i \<mapsto> a) else look s k)"
    using ins_law [OF assms] by blast
  then have k1: "look s1 key = (look s key)(i \<mapsto> a)" using same_refl by simp
  then obtain s2 where s2: "rem s1 key i = Inr (Written, s2)"
      "\<forall>k. look s2 k = (if same key k then (look s1 key)(i := None) else look s1 k)"
    using rem_law [OF s1(2), of key i a] by auto
  have "look s2 k = look s k" for k
  proof (cases "same key k")
    case True
    then have "look s2 k = (look s key)(i := None)" using s2(2) k1 by simp
    also have "\<dots> = look s key" using s1(3) by auto
    finally show ?thesis using same_look [OF True] by simp
  next
    case False
    then show ?thesis using s2(2) s1(4) by simp
  qed
  then show ?thesis using s1(1) s2(1) by blast
qed

end

interpretation ixt: key_index "\<lambda>w. lookups t (LogWriter_query w)" "\<lambda>w. it_ok t (LogWriter_query w)"
  "\<lambda>w key a. address_ok t a \<and> \<not> chunk_full t (LogWriter_query w) key" "same_bucket t"
  "\<lambda>w key a. IndexTable_write_insert_plan t key a None w" "\<lambda>w key i. IndexTable_write_remove_plan t key i w"
  for t
proof unfold_locales
  fix w key a
  assume "it_ok t (LogWriter_query w)" "address_ok t a \<and> \<not> chunk_full t (LogWriter_query w) key"
  then show "\<exists>i w'. IndexTable_write_insert_plan t key a None w = Inr (Written, w') \<and>
      it_ok t (LogWriter_query w') \<and> lookups t (LogWriter_query w) key i = None \<and>
      (\<forall>k. lookups t (LogWriter_query w') k =
        (if same_bucket t key k then (lookups t (LogWriter_query w) key)(i \<mapsto> a)
         else lookups t (LogWriter_query w) k))"
    using plan_insert [of t w a key] by blast
next
  fix w key i x
  assume "it_ok t (LogWriter_query w)" "lookups t (LogWriter_query w) key i = Some x"
  then show "\<exists>w'. IndexTable_write_remove_plan t key i w = Inr (Written, w') \<and> it_ok t (LogWriter_query w') \<and>
      (\<forall>k. lookups t (LogWriter_query w') k =
        (if same_bucket t key k then (lookups t (LogWriter_query w) key)(i := None)
         else lookups t (LogWriter_query w) k))"
    using plan_remove [of t w key i x] by blast
next
  show "same_bucket t key key" for key by (simp add: same_bucket_def)
next
  fix key k w
  assume "same_bucket t key k"
  then show "lookups t (LogWriter_query w) key = lookups t (LogWriter_query w) k"
    by (rule same_bucket_lookups)
qed

end
