(* ===== verification/Index_Enact.thy ===== *)
theory Index_Enact
  imports Index_Correct
begin

text \<open>
  Which bits of a key the index keeps, how a chunk moves from the log to the index file when a
  record is enacted, and the properties of the index.
\<close>

section \<open>Which bits of a key the index keeps\<close>

text \<open>
  The chunk number and the key material of an entry are together the first 50 bits of the key,
  whatever the number of index bits.
\<close>

lemma bit_chunk_index:
  assumes "bits_ok (ibits t)"
  shows "bit (IndexTable_chunk_index t k) i \<longleftrightarrow> bit k (64 - unat (ibits t) + i)"
proof -
  have b: "0 < unat (ibits t)" "unat (ibits t) \<le> 49" using assms by (simp_all add: bits_ok_def)
  then have "unat (64 - ibits t) = 64 - unat (ibits t)" using unat_u8_sub [of "ibits t" 64] by simp
  then show ?thesis using b by (simp add: IndexTable_chunk_index_def bit_shr)
qed

lemma recover_index_key:
  assumes b: "bits_ok (ibits t)" and m: "IndexEntry_key_material e (ibits t) = IndexEntry_extract_key k (ibits t)"
  shows "IndexTable_recover_key_prefix t (IndexTable_chunk_index t k) e =
     to_be 8 (k AND NOT (mask 14)) @ replicate 24 0"
proof -
  let ?b = "ibits t"
  have ib: "0 < unat ?b" "unat ?b \<le> 49" using b by (simp_all add: bits_ok_def)
  have s1: "unat (64 - ?b) = 64 - unat ?b" using unat_u8_sub [of ?b 64] ib by simp
  have "64 - (64 - IndexEntry_address_bits ?b) - ?b = 14"
    by (simp add: IndexEntry_address_bits_def CHUNK_ENTRIES_BITS_8_def SIZE_TIERS_BITS_8_def)
  then have s2: "unat (64 - (64 - IndexEntry_address_bits ?b) - ?b) = 14" by simp
  have "shl (IndexTable_chunk_index t k) (64 - unat ?b) OR shl (IndexEntry_extract_key k ?b) 14 =
      k AND NOT (mask 14)"
  proof (rule bit_word_eqI)
    fix i :: nat assume "i < LENGTH(64)"
    then show "bit (shl (IndexTable_chunk_index t k) (64 - unat ?b) OR shl (IndexEntry_extract_key k ?b) 14) i =
        bit (k AND NOT (mask 14)) i"
      using ib
      by (cases "64 - unat ?b \<le> i") (auto simp: bit_or_iff bit_and_iff bit_not_iff bit_mask_iff bit_shl
          bit_chunk_index [OF b] bit_extract_key [OF b])
  qed
  then show ?thesis
    using s1 s2 m by (simp add: IndexTable_recover_key_prefix_def Let_def overwrite_def)
qed

lemma clear_low_extract:
  assumes "bits_ok b"
  shows "IndexEntry_extract_key (k AND NOT (mask 14)) b = IndexEntry_extract_key k b"
  by (rule bit_word_eqI) (auto simp: bit_extract_key [OF assms] bit_and_iff bit_not_iff bit_mask_iff
      dest: bit_imp_le_length)

lemma clear_low_chunk_index:
  assumes "bits_ok (ibits t)"
  shows "IndexTable_chunk_index t (k AND NOT (mask 14)) = IndexTable_chunk_index t k"
  using assms
  by (intro bit_word_eqI) (auto simp: bit_chunk_index bit_and_iff bit_not_iff bit_mask_iff bits_ok_def
      dest: bit_imp_le_length)

lemma to_be_from_be:
  assumes "length xs = n" and "8 * n \<le> LENGTH('a)"
  shows "to_be n (from_be xs :: 'a::len word) = xs"
  using assms by (simp add: to_be_def from_be_def)

lemma nth_to_be: "i < n \<Longrightarrow> to_be n w ! i = ucast (drop_bit (8 * (n - 1 - i)) w)"
  by (simp add: to_be_def rev_nth nth_to_le)

lemma take_6_to_be:
  "take 6 (to_be 8 (k AND NOT (mask 14))) = take 6 (to_be 8 (k :: u64))"
proof (rule nth_equalityI)
  fix i assume "i < length (take 6 (to_be 8 (k AND NOT (mask 14))))"
  then have i: "i < 6" by simp
  have "(ucast (drop_bit (8 * (7 - i)) (k AND NOT (mask 14))) :: u8) = ucast (drop_bit (8 * (7 - i)) k)"
    by (rule bit_word_eqI) (use i in \<open>auto simp: bit_simps\<close>)
  then show "take 6 (to_be 8 (k AND NOT (mask 14))) ! i = take 6 (to_be 8 k) ! i"
    using i by (simp add: nth_to_be)
qed simp

lemma recover_and_partial:
  assumes "bits_ok (ibits t)" and "length key = KEY_LEN"
    and "IndexEntry_key_material e (ibits t) = IndexEntry_extract_key (key_prefix key) (ibits t)"
  shows "overwrite 6 (partial_key key)
     (IndexTable_recover_key_prefix t (IndexTable_chunk_index t (key_prefix key)) e) = key"
proof -
  have "to_be 8 (key_prefix key) = take 8 key"
    unfolding key_prefix_def using assms(2) by (simp add: to_be_from_be KEY_LEN_def)
  then have "take 6 (to_be 8 (key_prefix key AND NOT (mask 14))) = take 6 key"
    by (simp add: take_6_to_be)
  then show ?thesis
    using assms(2)
    by (simp add: recover_index_key [OF assms(1,3)] overwrite_def partial_key_def KEY_LEN_def)
qed

section \<open>Enacting\<close>

definition chunk_slot :: "bytes \<Rightarrow> nat \<Rightarrow> bytes" where
  "chunk_slot c i = slice_of (i * ENTRY_BYTES) ((i + 1) * ENTRY_BYTES) c"

definition masked_bytes :: "u64 \<Rightarrow> bytes \<Rightarrow> bytes" where
  "masked_bytes msk c = concat (map (chunk_slot c) (mask_indices msk))"

lemma length_chunk_slot: "length c = CHUNK_LEN \<Longrightarrow> i < CHUNK_ENTRIES \<Longrightarrow> length (chunk_slot c i) = 8"
  by (simp add: chunk_slot_def ENTRY_BYTES_def CHUNK_LEN_def CHUNK_ENTRIES_def)

lemma index_entry_bytes_masked:
  "index_entry_bytes tid index msk c =
     [2] @ to_le 2 (ITableId_as_u16 tid) @ to_le 8 index @ to_le 8 msk @ masked_bytes msk c"
proof -
  have "chunk_slot c = (\<lambda>i. slice_of (i * ENTRY_BYTES) ((i + 1) * ENTRY_BYTES) c)"
    by (rule ext) (rule chunk_slot_def)
  then show ?thesis by (simp only: index_entry_bytes_def masked_bytes_def)
qed

lemma chunk_eqI:
  assumes "length c = CHUNK_LEN" and "length d = CHUNK_LEN"
    and eq: "\<And>i. i < CHUNK_ENTRIES \<Longrightarrow> chunk_slot c i = chunk_slot d i"
  shows "c = d"
proof (rule nth_equalityI)
  show "length c = length d" using assms by simp
next
  fix k assume "k < length c"
  then have k: "k div 8 < 64" "k < 512" using assms(1) by (simp_all add: CHUNK_LEN_def)
  have nth: "chunk_slot x (k div 8) ! (k mod 8) = x ! k" if "length x = CHUNK_LEN" for x
    using k that by (simp add: chunk_slot_def slice_of_def ENTRY_BYTES_def CHUNK_LEN_def)
  show "c ! k = d ! k"
    using eq [of "k div 8"] nth [OF assms(1)] nth [OF assms(2)] k by (simp add: CHUNK_ENTRIES_def)
qed

lemma chunk_slot_file:
  "i < CHUNK_ENTRIES \<Longrightarrow> chunk_slot (file_bytes m off CHUNK_LEN) i = file_bytes m (off + i * 8) 8"
  by (simp add: chunk_slot_def slice_of_def file_bytes_def ENTRY_BYTES_def CHUNK_LEN_def CHUNK_ENTRIES_def
      drop_map take_map min_def)

lemma enact_entries_bytes:
  assumes "distinct is" and "set is \<subseteq> {..<CHUNK_ENTRIES}" and "length c = CHUNK_LEN"
    and "off + CHUNK_LEN \<le> flen m" and "reader_rest r = concat (map (chunk_slot c) is) @ ys"
  shows "\<exists>m'. enact_entries is off m r = Inr (m', advance r (concat (map (chunk_slot c) is))) \<and>
     flen m' = flen m \<and>
     (\<forall>i<CHUNK_ENTRIES. file_bytes m' (off + i * 8) 8 =
        (if i \<in> set is then chunk_slot c i else file_bytes m (off + i * 8) 8)) \<and>
     (\<forall>o2 n. o2 + n \<le> off \<or> off + CHUNK_LEN \<le> o2 \<longrightarrow> o2 + n \<le> flen m \<longrightarrow>
        file_bytes m' o2 n = file_bytes m o2 n)"
  using assms
proof (induction "is" arbitrary: m r)
  case Nil
  then show ?case by simp
next
  case (Cons i "is")
  then have i: "i < CHUNK_ENTRIES" by simp
  let ?b = "chunk_slot c i"
  have len: "length ?b = 8" by (rule length_chunk_slot [OF Cons.prems(3) i])
  have io: "off + i * 8 + 8 \<le> flen m" "i * 8 + 8 \<le> CHUNK_LEN"
    using Cons.prems(4) i by (simp_all add: CHUNK_LEN_def CHUNK_ENTRIES_def)
  let ?m = "file_write_at m (off + i * 8) ?b"
  have fl: "flen ?m = flen m" using io len by (intro flen_write_at_within) simp
  have rest: "reader_rest r = ?b @ concat (map (chunk_slot c) is) @ ys" using Cons.prems(5) by simp
  have rd: "LogReader_read r ENTRY_BYTES = Inr (?b, advance r ?b)"
    by (rule LogReader_read_rest [OF rest]) (simp add: len ENTRY_BYTES_def)
  obtain m' where m': "enact_entries is off ?m (advance r ?b) =
        Inr (m', advance (advance r ?b) (concat (map (chunk_slot c) is)))"
      "flen m' = flen ?m"
      "\<forall>i<CHUNK_ENTRIES. file_bytes m' (off + i * 8) 8 =
         (if i \<in> set is then chunk_slot c i else file_bytes ?m (off + i * 8) 8)"
      "\<forall>o2 n. o2 + n \<le> off \<or> off + CHUNK_LEN \<le> o2 \<longrightarrow> o2 + n \<le> flen ?m \<longrightarrow>
         file_bytes m' o2 n = file_bytes ?m o2 n"
    using Cons.IH [of ?m "advance r ?b"] Cons.prems reader_rest_advance [OF rest] fl by auto
  have w: "file_bytes ?m (off + j * 8) 8 = (if j = i then ?b else file_bytes m (off + j * 8) 8)"
    if "j < CHUNK_ENTRIES" for j
  proof (cases "j = i")
    case True
    then show ?thesis using file_bytes_write_same [of m "off + i * 8" ?b] len by simp
  next
    case False
    have "off + j * 8 + 8 \<le> flen m"
      using Cons.prems(4) that by (simp add: CHUNK_LEN_def CHUNK_ENTRIES_def)
    then show ?thesis
      using False by (auto intro!: file_bytes_write_other simp: len)
  qed
  show ?case
  proof (intro exI conjI)
    show "enact_entries (i # is) off m r = Inr (m', advance r (concat (map (chunk_slot c) (i # is))))"
      using rd m'(1) by (simp add: ENTRY_BYTES_def)
    show "flen m' = flen m" using m'(2) fl by simp
    show "\<forall>j<CHUNK_ENTRIES. file_bytes m' (off + j * 8) 8 =
        (if j \<in> set (i # is) then chunk_slot c j else file_bytes m (off + j * 8) 8)"
      using m'(3) w Cons.prems(1) by auto
    show "\<forall>o2 n. o2 + n \<le> off \<or> off + CHUNK_LEN \<le> o2 \<longrightarrow> o2 + n \<le> flen m \<longrightarrow>
        file_bytes m' o2 n = file_bytes m o2 n"
    proof (intro allI impI)
      fix o2 n assume o: "o2 + n \<le> off \<or> off + CHUNK_LEN \<le> o2" "o2 + n \<le> flen m"
      then have "file_bytes ?m o2 n = file_bytes m o2 n"
        using io(2) by (intro file_bytes_write_other) (auto simp: len)
      then show "file_bytes m' o2 n = file_bytes m o2 n" using m'(4) o fl by metis
    qed
  qed
qed

lemma chunks_apart:
  assumes "bits_ok b" and "unat ci < 2 ^ unat b" and "unat cj < 2 ^ unat b" and "ci \<noteq> cj"
  shows "chunk_offset cj + CHUNK_LEN \<le> chunk_offset ci \<or> chunk_offset ci + CHUNK_LEN \<le> chunk_offset cj"
proof -
  have "unat ci \<noteq> unat cj" using assms(4) by (simp add: word_unat_eq_iff)
  then have "Suc (unat ci) * 512 \<le> unat cj * 512 \<or> Suc (unat cj) * 512 \<le> unat ci * 512"
    by (metis Suc_leI linorder_neqE_nat mult_le_mono1)
  then show ?thesis
    using chunk_in_map(1) [OF assms(1)] assms(2,3) by (simp add: CHUNK_LEN_def) linarith
qed

lemma enact_chunk:
  assumes ok: "it_ok t q" and ci: "unat ci < 2 ^ unat (ibits t)" and disk: "it_map t = None \<longrightarrow> disk = None"
    and page: "q_with_index q (it_id t) ci = Some c"
    and gone: "q_with_index q' (it_id t) = (q_with_index q (it_id t))(ci := None)"
    and rest: "reader_rest r = to_le 8 msk @ masked_bytes msk c @ ys"
    and agree: "\<forall>i<CHUNK_ENTRIES. \<not> bit msk i \<longrightarrow> chunk_slot (chunk_view t q' ci) i = chunk_slot c i"
  shows "\<exists>t'. IndexTable_enact_plan t disk ci r = Inr (t', advance r (to_le 8 msk @ masked_bytes msk c)) \<and>
     it_id t' = it_id t \<and> it_map t' \<noteq> None \<and> it_ok t' q' \<and>
     (\<forall>cj. unat cj < 2 ^ unat (ibits t) \<longrightarrow> chunk_view t' q' cj = chunk_view t q cj)"
proof -
  let ?off = "chunk_offset ci"
  have b: "bits_ok (ibits t)" and len: "length c = CHUNK_LEN" using ok page by (auto simp: it_ok_def)
  define m where "m = (case it_map t of Some m \<Rightarrow> m | None \<Rightarrow> file_set_len (unat (file_size (ibits t))) file_new)"
  have ml: "flen m = unat (file_size (ibits t))"
    using ok by (auto simp: m_def it_ok_def split: option.split)
  have zero: "file_bytes (file_set_len n file_new) o2 k = replicate k 0" for n o2 k
    by (rule nth_equalityI) (simp_all add: file_bytes_def file_set_len_def file_new_def)
  have old: "file_bytes m (chunk_offset cj) CHUNK_LEN = chunk_view t q cj"
    if "q_with_index q (it_id t) cj = None" for cj
    using that by (simp add: m_def chunk_view_def zero EMPTY_CHUNK_def split: option.split)
  have old_ci: "file_bytes m ?off CHUNK_LEN = chunk_view t q' ci"
    using gone by (simp add: m_def chunk_view_def zero EMPTY_CHUNK_def split: option.split)
  note room = chunk_in_map(2) [OF b ci]
  have mi: "distinct (mask_indices msk)" "set (mask_indices msk) \<subseteq> {..<CHUNK_ENTRIES}"
    by (auto simp: mask_indices_eq CHUNK_ENTRIES_def)
  have rd: "LogReader_read r 8 = Inr (to_le 8 msk, advance r (to_le 8 msk))"
    by (rule LogReader_read_rest [OF rest]) simp
  have rest1: "reader_rest (advance r (to_le 8 msk)) = concat (map (chunk_slot c) (mask_indices msk)) @ ys"
    using reader_rest_advance [OF rest] by (simp add: masked_bytes_def)
  obtain m' where m': "enact_entries (mask_indices msk) ?off m (advance r (to_le 8 msk)) =
        Inr (m', advance r (to_le 8 msk @ masked_bytes msk c))" "flen m' = flen m"
      "\<forall>i<CHUNK_ENTRIES. file_bytes m' (?off + i * 8) 8 =
        (if i \<in> set (mask_indices msk) then chunk_slot c i else file_bytes m (?off + i * 8) 8)"
      "\<forall>o2 n. o2 + n \<le> ?off \<or> ?off + CHUNK_LEN \<le> o2 \<longrightarrow> o2 + n \<le> flen m \<longrightarrow>
        file_bytes m' o2 n = file_bytes m o2 n"
    using enact_entries_bytes [OF mi len _ rest1, of ?off m] room ml by (auto simp: masked_bytes_def)
  have new: "file_bytes m' ?off CHUNK_LEN = c"
  proof (rule chunk_eqI [OF _ len])
    fix i assume i: "i < CHUNK_ENTRIES"
    have "file_bytes m (?off + i * 8) 8 = chunk_slot (chunk_view t q' ci) i"
      using chunk_slot_file [OF i, of m ?off] old_ci by simp
    then show "chunk_slot (file_bytes m' ?off CHUNK_LEN) i = chunk_slot c i"
      using i m'(3) agree by (simp add: chunk_slot_file mask_indices_eq CHUNK_ENTRIES_def)
  qed simp
  have view: "chunk_view (t\<lparr>it_map := Some m'\<rparr>) q' cj = chunk_view t q cj" if cj: "unat cj < 2 ^ unat (ibits t)" for cj
  proof (cases "cj = ci")
    case True
    then show ?thesis using new gone page by (simp add: chunk_view_def)
  next
    case False
    show ?thesis
    proof (cases "q_with_index q (it_id t) cj")
      case None
      have "file_bytes m' (chunk_offset cj) CHUNK_LEN = file_bytes m (chunk_offset cj) CHUNK_LEN"
        using m'(4) chunks_apart [OF b ci cj] False chunk_in_map(2) [OF b cj] ml by auto
      then show ?thesis using None False gone old [OF None] by (simp add: chunk_view_def)
    next
      case (Some d)
      then show ?thesis using False gone by (simp add: chunk_view_def)
    qed
  qed
  have ok': "it_ok (t\<lparr>it_map := Some m'\<rparr>) q'"
    using ok gone ml m'(2) by (auto simp: it_ok_def split: if_splits)
  have "(case it_map t of Some mmap \<Rightarrow> Inr mmap
      | None \<Rightarrow> (case disk of Some _ \<Rightarrow> Inl (Err (Io AlreadyExists))
        | None \<Rightarrow> Inr (file_set_len (unat (file_size (ibits t))) file_new))) = Inr m"
    using disk by (auto simp: m_def split: option.split)
  then have "IndexTable_enact_plan t disk ci r =
      Inr (t\<lparr>it_map := Some m'\<rparr>, advance r (to_le 8 msk @ masked_bytes msk c))"
    using rd m'(1) room ml by (simp add: IndexTable_enact_plan_def Let_def)
  then show ?thesis using ok' view by (intro exI [of _ "t\<lparr>it_map := Some m'\<rparr>"]) simp
qed

lemma validate_chunk:
  assumes "ci < ITableId_total_entries (it_id t)" and "length c = CHUNK_LEN"
    and rest: "reader_rest r = to_le 8 msk @ masked_bytes msk c @ ys"
  shows "IndexTable_validate_plan t ci r = Inr (advance r (to_le 8 msk @ masked_bytes msk c))"
proof -
  have rd: "LogReader_read r 8 = Inr (to_le 8 msk, advance r (to_le 8 msk))"
    by (rule LogReader_read_rest [OF rest]) simp
  have "validate_entries is r = Inr (advance r (concat (map (chunk_slot c) is)))"
    if "reader_rest r = concat (map (chunk_slot c) is) @ ys" "set is \<subseteq> {..<CHUNK_ENTRIES}" for "is" r
    using that
  proof (induction "is" arbitrary: r)
    case Nil
    then show ?case by simp
  next
    case (Cons i "is")
    then have "reader_rest r = chunk_slot c i @ concat (map (chunk_slot c) is) @ ys" by simp
    moreover have "length (chunk_slot c i) = 8" using length_chunk_slot [OF assms(2)] Cons.prems(2) by simp
    ultimately show ?case
      using Cons LogReader_read_rest [of r "chunk_slot c i" "concat (map (chunk_slot c) is) @ ys" 8]
        reader_rest_advance [of r "chunk_slot c i" "concat (map (chunk_slot c) is) @ ys"] by simp
  qed
  then show ?thesis
    using assms(1) rd reader_rest_advance [OF rest]
    by (simp add: IndexTable_validate_plan_def masked_bytes_def mask_indices_eq CHUNK_ENTRIES_def subset_eq)
qed

section \<open>Properties\<close>

definition sample_index :: IndexTable where
  "sample_index = IndexTable_create_new ''db'' (ITableId_new 0 16)"

definition fresh_writer :: LogWriter where
  "fresh_writer = LogWriter_new LogOverlays_default 1"

definition sample_hash :: Key where
  "sample_hash = map of_nat [5..<37]"

lemma fresh_with_index [simp]: "q_with_index (LogWriter_query fresh_writer) u ci = None"
  by (simp add: LogWriter_query_def LogWriter_with_index_def fresh_writer_def LogWriter_new_def
      LogChange_new_def LogOverlays_with_index_def LogOverlays_default_def)

lemma sample_index_facts [simp]:
  "ibits sample_index = 16" "it_map sample_index = None" "bits_ok 16"
  "it_ok sample_index (LogWriter_query fresh_writer)"
  "address_ok sample_index (Address 0x300)"
  "\<not> chunk_full sample_index (LogWriter_query fresh_writer) key"
proof -
  show ib: "ibits sample_index = 16" and mp: "it_map sample_index = None" and ok: "bits_ok 16"
    by (simp_all add: sample_index_def IndexTable_create_new_def bits_ok_def)
  show "it_ok sample_index (LogWriter_query fresh_writer)" by (simp add: it_ok_def ib mp ok)
  show "address_ok sample_index (Address 0x300)"
    by (simp add: address_ok_def ib last_address_mask [OF ok] mask_eq_exp_minus_1 word_le_nat_alt)
  show "\<not> chunk_full sample_index (LogWriter_query fresh_writer) key"
    by (auto simp: chunk_full_def chunk_view_def mp CHUNK_ENTRIES_def intro!: exI [of _ 0])
qed

text \<open>
  C18: inserting an address under a key, when the key's chunk has an empty entry, adds exactly that
  address to the ones the key finds, at a position that was empty; keys with another chunk or other
  stored bits find what they found before, and no value page is touched.
\<close>

theorem index_insert:
  assumes "it_ok t (LogWriter_query w)" and "address_ok t a"
    and "\<not> chunk_full t (LogWriter_query w) key"
  shows "\<exists>i w'. IndexTable_write_insert_plan t key a None w = Inr (Written, w') \<and>
     it_ok t (LogWriter_query w') \<and> writer_stored w' = writer_stored w \<and>
     lookups t (LogWriter_query w) key i = None \<and>
     lookups t (LogWriter_query w') key = (lookups t (LogWriter_query w) key)(i \<mapsto> a) \<and>
     (\<forall>k. \<not> same_bucket t key k \<longrightarrow> lookups t (LogWriter_query w') k = lookups t (LogWriter_query w) k)"
proof -
  have "same_bucket t key key" by (rule ixt.same_refl)
  then show ?thesis
    using plan_insert [OF assms] index_frame_stored by fastforce
qed

theorem index_insert_witness:
  "\<exists>i w'. IndexTable_write_insert_plan sample_index sample_hash (Address 0x300) None fresh_writer =
       Inr (Written, w') \<and>
     lookups sample_index (LogWriter_query w') sample_hash =
       (lookups sample_index (LogWriter_query fresh_writer) sample_hash)(i \<mapsto> Address 0x300)"
  using index_insert [of sample_index fresh_writer "Address 0x300" sample_hash] by auto



text \<open>Removing what was just inserted gives every key back what it found before.\<close>

lemma index_insert_remove:
  assumes "it_ok t (LogWriter_query w)" and "address_ok t a"
    and "\<not> chunk_full t (LogWriter_query w) key"
  shows "\<exists>i w1 w2. IndexTable_write_insert_plan t key a None w = Inr (Written, w1) \<and>
     IndexTable_write_remove_plan t key i w1 = Inr (Written, w2) \<and>
     lookups t (LogWriter_query w2) = lookups t (LogWriter_query w)"
  using ixt.insert_remove [of t w a key] assms by blast

text \<open>
  C24: the index and the value table together keep the whole key: the prefix recovered from a chunk
  number and an entry, completed with the partial key stored with the value, is the key. (The index
  alone keeps its first 50 bits.)
\<close>

theorem index_recovers_key:
  assumes "bits_ok (ibits t)" and "length key = KEY_LEN"
    and "Address_as_u64 a \<le> IndexEntry_last_address (ibits t)"
  shows "let e = IndexEntry_new a (IndexEntry_extract_key (key_prefix key) (ibits t)) (ibits t);
             ci = IndexTable_chunk_index t (key_prefix key)
         in overwrite 6 (partial_key key) (IndexTable_recover_key_prefix t ci e) = key \<and>
            IndexTable_recover_key_prefix t ci e = to_be 8 (key_prefix key AND NOT (mask 14)) @ replicate 24 0 \<and>
            IndexEntry_address e (ibits t) = a"
  using recover_and_partial [OF assms(1,2) entry_new_material [OF assms(1,3)]]
    recover_index_key [OF assms(1) entry_new_material [OF assms(1,3)]] entry_new_address [OF assms(1,3)]
  by (simp add: Let_def)

theorem index_recovers_key_witness:
  "overwrite 6 (partial_key sample_hash)
     (IndexTable_recover_key_prefix sample_index
       (IndexTable_chunk_index sample_index (key_prefix sample_hash))
       (IndexEntry_new (Address 0x300) (IndexEntry_extract_key (key_prefix sample_hash) 16) 16)) = sample_hash"
proof -
  have "length sample_hash = KEY_LEN" by (simp add: sample_hash_def KEY_LEN_def)
  moreover have "Address_as_u64 (Address 0x300) \<le> IndexEntry_last_address (ibits sample_index)"
    using sample_index_facts(5) by (simp only: address_ok_def)
  ultimately show ?thesis
    using index_recovers_key [of sample_index sample_hash "Address 0x300"]
    unfolding Let_def sample_index_facts(1) using sample_index_facts(3) by blast
qed

text \<open>
  C21: enacting a logged chunk reads exactly the mask and the modified entries from the record, creates
  the index file if there is none yet, and is invisible to readers: every key finds the same
  addresses before, with the chunk in the overlay, and after, with the chunk in the file.
\<close>

theorem index_enact_transparent:
  assumes "it_ok t q" and "unat ci < 2 ^ unat (ibits t)" and "it_map t = None \<longrightarrow> disk = None"
    and "q_with_index q (it_id t) ci = Some c"
    and "q_with_index q' (it_id t) = (q_with_index q (it_id t))(ci := None)"
    and "reader_rest r = to_le 8 msk @ masked_bytes msk c @ ys"
    and "\<forall>i<CHUNK_ENTRIES. \<not> bit msk i \<longrightarrow> chunk_slot (chunk_view t q' ci) i = chunk_slot c i"
  shows "\<exists>t'. IndexTable_enact_plan t disk ci r = Inr (t', advance r (to_le 8 msk @ masked_bytes msk c)) \<and>
     it_ok t' q' \<and> lookups t' q' = lookups t q"
proof -
  obtain t' where t': "IndexTable_enact_plan t disk ci r = Inr (t', advance r (to_le 8 msk @ masked_bytes msk c))"
      "it_id t' = it_id t" "it_ok t' q'"
      "\<forall>cj. unat cj < 2 ^ unat (ibits t) \<longrightarrow> chunk_view t' q' cj = chunk_view t q cj"
    using enact_chunk [OF assms] by blast
  have "bits_ok (ibits t)" using assms(1) by (simp add: it_ok_def)
  then have "lookups t' q' k = lookups t q k" for k
    using t'(2,4) chunk_index_less [of t "key_prefix k"]
    by (simp add: lookups_def IndexTable_chunk_index_def)
  then show ?thesis using t'(1,3) by blast
qed

definition sample_chunk :: bytes where
  "sample_chunk = IndexTable_write_entry (IndexEntry 0x300) 3 EMPTY_CHUNK"

definition sample_chunk_query :: LogQuery where
  "sample_chunk_query = \<lparr>q_with_index = (\<lambda>_ ci. if ci = 7 then Some sample_chunk else None), q_value = (\<lambda>_ _ _. None)\<rparr>"

lemma sample_chunk_other:
  "i < CHUNK_ENTRIES \<Longrightarrow> i \<noteq> 3 \<Longrightarrow> chunk_slot EMPTY_CHUNK i = chunk_slot sample_chunk i"
  unfolding chunk_slot_def sample_chunk_def IndexTable_write_entry_def
  by (cases "i < 3")
     (simp_all add: ENTRY_BYTES_def CHUNK_ENTRIES_def CHUNK_LEN_def EMPTY_CHUNK_def slice_overwrite_before
       slice_overwrite_after)

theorem index_enact_transparent_witness:
  "\<exists>t'. IndexTable_enact_plan sample_index None 7
       (LogReader_new (to_le 8 (8 :: u64) @ masked_bytes 8 sample_chunk) 0 False) =
       Inr (t', advance (LogReader_new (to_le 8 (8 :: u64) @ masked_bytes 8 sample_chunk) 0 False)
                  (to_le 8 (8 :: u64) @ masked_bytes 8 sample_chunk)) \<and>
     it_ok t' (LogWriter_query fresh_writer) \<and>
     lookups t' (LogWriter_query fresh_writer) = lookups sample_index sample_chunk_query"
proof (rule index_enact_transparent)
  show "it_ok sample_index sample_chunk_query"
    by (auto simp: it_ok_def sample_chunk_query_def sample_chunk_def CHUNK_ENTRIES_def split: if_splits)
  show "q_with_index sample_chunk_query (it_id sample_index) 7 = Some sample_chunk"
    by (simp add: sample_chunk_query_def)
  show "q_with_index (LogWriter_query fresh_writer) (it_id sample_index) =
      (q_with_index sample_chunk_query (it_id sample_index))(7 := None)"
    by (rule ext) (simp add: sample_chunk_query_def)
  show "reader_rest (LogReader_new (to_le 8 (8 :: u64) @ masked_bytes 8 sample_chunk) 0 False) =
      to_le 8 (8 :: u64) @ masked_bytes 8 sample_chunk @ []"
    by (simp add: reader_rest_def LogReader_new_def)
  have "bit (8 :: u64) 3" by (simp add: bit_iff_odd)
  then show "\<forall>i<CHUNK_ENTRIES. \<not> bit (8 :: u64) i \<longrightarrow>
      chunk_slot (chunk_view sample_index (LogWriter_query fresh_writer) 7) i = chunk_slot sample_chunk i"
    using sample_chunk_other by (metis chunk_view_def fresh_with_index option.simps(4) sample_index_facts(2))
qed simp_all

text \<open>
  C33: validation of a record accepts any chunk number below the number of entries, 64 times the number
  of chunks; for a number past the last chunk, enacting then writes outside of the memory map.
\<close>

theorem index_validate_too_lenient:
  assumes "bits_ok (ibits t)" and "it_map t = Some m" and "flen m = unat (file_size (ibits t))"
    and "unat (ibits t) < 49" and "2 ^ unat (ibits t) \<le> unat ci" and "ci < ITableId_total_entries (it_id t)"
    and "length c = CHUNK_LEN" and "reader_rest r = to_le 8 msk @ masked_bytes msk c @ ys"
  shows "IndexTable_validate_plan t ci r = Inr (advance r (to_le 8 msk @ masked_bytes msk c)) \<and>
     IndexTable_enact_plan t disk ci r = Inl (Panic ''write outside of the memory map'')"
proof -
  have b: "unat (ibits t) \<le> 48" using assms(4) by simp
  have "ITableId_total_entries (it_id t) = of_nat (2 ^ unat (ibits t) * 64)"
    using b by (simp add: ITableId_total_entries_def total_entries_def total_chunks_def shl_def CHUNK_ENTRIES_def)
  moreover have "2 ^ unat (ibits t) * 64 < (2 :: nat) ^ LENGTH(64)"
    using unat_chunks(3) [OF assms(1)] by simp
  ultimately have ci: "unat ci < 2 ^ unat (ibits t) * 64"
    using assms(6) unat_of_nat_small [of "2 ^ unat (ibits t) * 64", where 'a = 64] by (simp add: word_less_nat_alt)
  have "(2 :: nat) ^ unat (ibits t) \<le> 2 ^ 48" by (rule power_increasing) (use b in simp_all)
  then have "2 ^ unat (ibits t) * 64 \<le> (2 :: nat) ^ 48 * 64" by (rule mult_le_mono1)
  with ci have "unat ci < 2 ^ 48 * 64" by (rule less_le_trans)
  then have lt: "unat ci * 512 + 16384 < (2 :: nat) ^ LENGTH(64)" by simp
  have "of_nat META_SIZE + ci * of_nat CHUNK_LEN = of_nat (unat ci * 512 + 16384)"
    by (simp add: META_SIZE_def CHUNK_LEN_def)
  then have "chunk_offset ci = unat ci * 512 + 16384"
    using unat_of_nat_small [OF lt] unfolding chunk_offset_def by simp
  then have "flen m < chunk_offset ci + CHUNK_LEN"
    using assms(3,5) unat_chunks(2) [OF assms(1)] by (simp add: CHUNK_LEN_def)
  then show ?thesis
    using validate_chunk [OF assms(6-8)] assms(2) by (simp add: IndexTable_enact_plan_def Let_def)
qed

theorem index_validate_too_lenient_witness:
  "let t = sample_index\<lparr>it_map := Some (file_set_len (unat (file_size 16)) file_new)\<rparr>;
       r = LogReader_new (to_le 8 (0 :: u64)) 0 False
   in IndexTable_validate_plan t 65536 r = Inr (advance r (to_le 8 (0 :: u64) @ masked_bytes 0 EMPTY_CHUNK)) \<and>
      IndexTable_enact_plan t None 65536 r = Inl (Panic ''write outside of the memory map'')"
  unfolding Let_def
proof (rule index_validate_too_lenient [where m = "file_set_len (unat (file_size 16)) file_new"])
  show "reader_rest (LogReader_new (to_le 8 (0 :: u64)) 0 False) =
      to_le 8 (0 :: u64) @ masked_bytes 0 EMPTY_CHUNK @ []"
    by (simp add: reader_rest_def LogReader_new_def masked_bytes_def mask_indices_eq)
qed (simp_all add: ITableId_total_entries_def total_entries_def total_chunks_def shl_def CHUNK_ENTRIES_def)

end
