(* ===== verification/Column_Stats.thy ===== *)
theory Column_Stats
  imports Value_Table Index_Table
begin

text \<open>
  The statistics of a column (\<open>src/stats.rs\<close>): counters and histograms, their fixed binary form in the
  meta area of the index file (\<open>load_stats\<close> and \<open>write_stats\<close> of \<open>src/index.rs\<close>) and the text
  summary. The atomics are words, so that \<open>fetch_add\<close> and \<open>fetch_sub\<close> wrap; an \<open>AtomicI64\<close> is the
  64-bit word of its two's complement.
\<close>

section \<open>The counters\<close>

definition HISTOGRAM_BUCKETS :: nat where "HISTOGRAM_BUCKETS = 1024"
definition HISTOGRAM_BUCKET_BITS :: nat where "HISTOGRAM_BUCKET_BITS = 5"
definition TOTAL_SIZE :: nat where
  "TOTAL_SIZE = 4 * HISTOGRAM_BUCKETS + 8 * HISTOGRAM_BUCKETS + 8 * SIZE_TIERS + 8 * 11"

record ColumnStats =
  cs_value_histogram :: "u32 list"
  cs_query_histogram :: "u64 list"
  cs_oversized :: u64
  cs_oversized_bytes :: u64
  cs_total_values :: u64
  cs_total_bytes :: u64
  cs_commits :: u64
  cs_inserted_new :: u64
  cs_inserted_overwrite :: u64
  cs_removed_hit :: u64
  cs_removed_miss :: u64
  cs_queries_miss :: u64
  cs_uncompressed_bytes :: u64
  cs_compression_delta :: "u64 list"

definition ColumnStats_empty :: ColumnStats where
  "ColumnStats_empty =
     \<lparr>cs_value_histogram = replicate HISTOGRAM_BUCKETS 0, cs_query_histogram = replicate SIZE_TIERS 0,
      cs_oversized = 0, cs_oversized_bytes = 0, cs_total_values = 0, cs_total_bytes = 0,
      cs_commits = 0, cs_inserted_new = 0, cs_inserted_overwrite = 0, cs_removed_hit = 0,
      cs_removed_miss = 0, cs_queries_miss = 0, cs_uncompressed_bytes = 0,
      cs_compression_delta = replicate HISTOGRAM_BUCKETS 0\<rparr>"

definition value_histogram_index :: "u32 \<Rightarrow> nat option" where
  "value_histogram_index sz =
     (let bucket = unat sz div 2 ^ HISTOGRAM_BUCKET_BITS
      in if bucket < HISTOGRAM_BUCKETS then Some bucket else None)"

definition ColumnStats_query_hit :: "ColumnStats \<Rightarrow> u8 \<Rightarrow> ColumnStats" where
  "ColumnStats_query_hit s size_tier =
     (let i = unat size_tier
      in s\<lparr>cs_query_histogram := (cs_query_histogram s)[i := cs_query_histogram s ! i + 1]\<rparr>)"

definition ColumnStats_query_miss :: "ColumnStats \<Rightarrow> ColumnStats" where
  "ColumnStats_query_miss s = s\<lparr>cs_queries_miss := cs_queries_miss s + 1\<rparr>"

definition ColumnStats_insert :: "ColumnStats \<Rightarrow> u32 \<Rightarrow> u32 \<Rightarrow> ColumnStats" where
  "ColumnStats_insert s sz compressed =
     (let s = (case value_histogram_index sz of
                 Some i \<Rightarrow>
                   s\<lparr>cs_value_histogram := (cs_value_histogram s)[i := cs_value_histogram s ! i + 1],
                     cs_compression_delta := (cs_compression_delta s)
                       [i := cs_compression_delta s ! i + (ucast sz - ucast compressed)]\<rparr>
               | None \<Rightarrow>
                   s\<lparr>cs_oversized := cs_oversized s + 1,
                     cs_oversized_bytes := cs_oversized_bytes s + ucast compressed\<rparr>)
      in s\<lparr>cs_total_values := cs_total_values s + 1,
           cs_total_bytes := cs_total_bytes s + ucast compressed,
           cs_uncompressed_bytes := cs_uncompressed_bytes s + ucast sz\<rparr>)"

definition ColumnStats_remove :: "ColumnStats \<Rightarrow> u32 \<Rightarrow> u32 \<Rightarrow> ColumnStats" where
  "ColumnStats_remove s sz compressed =
     (let s = (case value_histogram_index sz of
                 Some i \<Rightarrow>
                   s\<lparr>cs_value_histogram := (cs_value_histogram s)[i := cs_value_histogram s ! i - 1],
                     cs_compression_delta := (cs_compression_delta s)
                       [i := cs_compression_delta s ! i - (ucast sz - ucast compressed)]\<rparr>
               | None \<Rightarrow>
                   s\<lparr>cs_oversized := cs_oversized s - 1,
                     cs_oversized_bytes := cs_oversized_bytes s - ucast compressed\<rparr>)
      in s\<lparr>cs_total_values := cs_total_values s - 1,
           cs_total_bytes := cs_total_bytes s - ucast compressed,
           cs_uncompressed_bytes := cs_uncompressed_bytes s - ucast sz\<rparr>)"

definition ColumnStats_insert_val :: "ColumnStats \<Rightarrow> u32 \<Rightarrow> u32 \<Rightarrow> ColumnStats" where
  "ColumnStats_insert_val s sz compressed =
     ColumnStats_insert (s\<lparr>cs_inserted_new := cs_inserted_new s + 1\<rparr>) sz compressed"

definition ColumnStats_remove_val :: "ColumnStats \<Rightarrow> u32 \<Rightarrow> u32 \<Rightarrow> ColumnStats" where
  "ColumnStats_remove_val s sz compressed =
     ColumnStats_remove (s\<lparr>cs_removed_hit := cs_removed_hit s + 1\<rparr>) sz compressed"

definition ColumnStats_remove_miss :: "ColumnStats \<Rightarrow> ColumnStats" where
  "ColumnStats_remove_miss s = s\<lparr>cs_removed_miss := cs_removed_miss s + 1\<rparr>"

definition ColumnStats_replace_val :: "ColumnStats \<Rightarrow> u32 \<Rightarrow> u32 \<Rightarrow> u32 \<Rightarrow> u32 \<Rightarrow> ColumnStats" where
  "ColumnStats_replace_val s old old_compressed new new_compressed =
     ColumnStats_insert
       (ColumnStats_remove (s\<lparr>cs_inserted_overwrite := cs_inserted_overwrite s + 1\<rparr>) old old_compressed)
       new new_compressed"

definition ColumnStats_commit :: "ColumnStats \<Rightarrow> ColumnStats" where
  "ColumnStats_commit s = s\<lparr>cs_commits := cs_commits s + 1\<rparr>"


section \<open>The binary form\<close>

text \<open>
  Reading through a \<open>Cursor\<close>: the bytes that are left, a panic when there are too few. Writing
  through a \<open>Cursor\<close> over a slice: the bytes written and the bytes left of the slice; at the end
  of the slice the rest of the buffer is silently not written.
\<close>

definition read_u32 :: "bytes \<Rightarrow> (u32 \<times> bytes) res" where
  "read_u32 cursor =
     (if length cursor < 4 then Inl (Panic ''Incorrect stats buffer'')
      else Inr (from_le (take 4 cursor), drop 4 cursor))"

definition read_u64 :: "bytes \<Rightarrow> (u64 \<times> bytes) res" where
  "read_u64 cursor =
     (if length cursor < 8 then Inl (Panic ''Incorrect stats buffer'')
      else Inr (from_le (take 8 cursor), drop 8 cursor))"

definition read_i64 :: "bytes \<Rightarrow> (u64 \<times> bytes) res" where
  "read_i64 cursor =
     (if length cursor < 8 then Inl (Panic ''Incorrect stats buffer'')
      else Inr (from_le (take 8 cursor), drop 8 cursor))"

primrec read_many :: "(bytes \<Rightarrow> ('a \<times> bytes) res) \<Rightarrow> nat \<Rightarrow> bytes \<Rightarrow> ('a list \<times> bytes) res" where
  "read_many f 0 cursor = Inr ([], cursor)"
| "read_many f (Suc n) cursor =
     and_then (f cursor) (\<lambda>(x, cursor).
     and_then (read_many f n cursor) (\<lambda>(xs, cursor). Inr (x # xs, cursor)))"

definition ColumnStats_from_slice :: "bytes \<Rightarrow> ColumnStats res" where
  "ColumnStats_from_slice data =
     and_then (read_many read_u32 HISTOGRAM_BUCKETS data) (\<lambda>(value_histogram, cursor).
     and_then (read_many read_u64 SIZE_TIERS cursor) (\<lambda>(query_histogram, cursor).
     and_then (read_u64 cursor) (\<lambda>(oversized, cursor).
     and_then (read_u64 cursor) (\<lambda>(oversized_bytes, cursor).
     and_then (read_u64 cursor) (\<lambda>(total_values, cursor).
     and_then (read_u64 cursor) (\<lambda>(total_bytes, cursor).
     and_then (read_u64 cursor) (\<lambda>(commits, cursor).
     and_then (read_u64 cursor) (\<lambda>(inserted_new, cursor).
     and_then (read_u64 cursor) (\<lambda>(inserted_overwrite, cursor).
     and_then (read_u64 cursor) (\<lambda>(removed_hit, cursor).
     and_then (read_u64 cursor) (\<lambda>(removed_miss, cursor).
     and_then (read_u64 cursor) (\<lambda>(queries_miss, cursor).
     and_then (read_u64 cursor) (\<lambda>(uncompressed_bytes, cursor).
     and_then (read_many read_i64 HISTOGRAM_BUCKETS cursor) (\<lambda>(compression_delta, cursor).
       Inr \<lparr>cs_value_histogram = value_histogram, cs_query_histogram = query_histogram,
            cs_oversized = oversized, cs_oversized_bytes = oversized_bytes,
            cs_total_values = total_values, cs_total_bytes = total_bytes, cs_commits = commits,
            cs_inserted_new = inserted_new, cs_inserted_overwrite = inserted_overwrite,
            cs_removed_hit = removed_hit, cs_removed_miss = removed_miss,
            cs_queries_miss = queries_miss, cs_uncompressed_bytes = uncompressed_bytes,
            cs_compression_delta = compression_delta\<rparr>))))))))))))))"

definition cursor_write :: "bytes \<Rightarrow> bytes \<times> bytes \<Rightarrow> bytes \<times> bytes" where
  "cursor_write buf c = (fst c @ take (length (snd c)) buf, drop (length buf) (snd c))"

definition write_u32 :: "u32 \<Rightarrow> bytes \<times> bytes \<Rightarrow> bytes \<times> bytes" where
  "write_u32 val = cursor_write (to_le 4 val)"

definition write_u64 :: "u64 \<Rightarrow> bytes \<times> bytes \<Rightarrow> bytes \<times> bytes" where
  "write_u64 val = cursor_write (to_le 8 val)"

definition write_i64 :: "u64 \<Rightarrow> bytes \<times> bytes \<Rightarrow> bytes \<times> bytes" where
  "write_i64 val = cursor_write (to_le 8 val)"

text \<open>\<open>to_slice\<close> gives the slice it was handed back, overwritten.\<close>

definition ColumnStats_to_slice :: "ColumnStats \<Rightarrow> bytes \<Rightarrow> bytes" where
  "ColumnStats_to_slice s data =
     (let cursor = ([], data);
          cursor = fold write_u32 (cs_value_histogram s) cursor;
          cursor = fold write_u64 (cs_query_histogram s) cursor;
          cursor = write_u64 (cs_oversized s) cursor;
          cursor = write_u64 (cs_oversized_bytes s) cursor;
          cursor = write_u64 (cs_total_values s) cursor;
          cursor = write_u64 (cs_total_bytes s) cursor;
          cursor = write_u64 (cs_commits s) cursor;
          cursor = write_u64 (cs_inserted_new s) cursor;
          cursor = write_u64 (cs_inserted_overwrite s) cursor;
          cursor = write_u64 (cs_removed_hit s) cursor;
          cursor = write_u64 (cs_removed_miss s) cursor;
          cursor = write_u64 (cs_queries_miss s) cursor;
          cursor = write_u64 (cs_uncompressed_bytes s) cursor;
          cursor = fold write_i64 (cs_compression_delta s) cursor
      in fst cursor @ snd cursor)"

definition IndexTable_load_stats :: "IndexTable \<Rightarrow> ColumnStats res" where
  "IndexTable_load_stats t =
     (case it_map t of
        Some mmap \<Rightarrow>
          if HEADER_SIZE + TOTAL_SIZE \<le> flen mmap
          then ColumnStats_from_slice (file_bytes mmap HEADER_SIZE TOTAL_SIZE)
          else Inl (Panic ''range end index out of range for slice'')
      | None \<Rightarrow> Inr ColumnStats_empty)"

definition IndexTable_write_stats :: "IndexTable \<Rightarrow> ColumnStats \<Rightarrow> IndexTable res" where
  "IndexTable_write_stats t stats =
     (case it_map t of
        Some mmap \<Rightarrow>
          if HEADER_SIZE + TOTAL_SIZE \<le> flen mmap
          then Inr (t\<lparr>it_map := Some (file_write_at mmap HEADER_SIZE
                        (ColumnStats_to_slice stats (file_bytes mmap HEADER_SIZE TOTAL_SIZE)))\<rparr>)
          else Inl (Panic ''range end index out of range for slice'')
      | None \<Rightarrow> Inr t)"


section \<open>The summary\<close>

definition writeln :: "string \<Rightarrow> string" where
  "writeln s = s @ [CHR 0x0A]"

definition dec_i64 :: "u64 \<Rightarrow> string" where
  "dec_i64 w = (if sint w < 0 then CHR ''-'' # dec (nat (- sint w)) else dec (nat (sint w)))"

definition bucket_line :: "nat \<Rightarrow> string \<Rightarrow> string" where
  "bucket_line i s =
     writeln (''    '' @ dec (i * 2 ^ HISTOGRAM_BUCKET_BITS) @ ''-''
              @ dec ((i + 1) * 2 ^ HISTOGRAM_BUCKET_BITS - 1) @ '': '' @ s)"

definition ColumnStats_write_stats :: "ColumnStats \<Rightarrow> ColId \<Rightarrow> string" where
  "ColumnStats_write_stats s col =
     writeln (''Column '' @ dec (unat col))
     @ writeln (''Total values: '' @ dec (unat (cs_total_values s)))
     @ writeln (''Total bytes: '' @ dec (unat (cs_total_bytes s)))
     @ writeln (''Total oversized values: '' @ dec (unat (cs_oversized s)))
     @ writeln (''Total oversized bytes: '' @ dec (unat (cs_oversized_bytes s)))
     @ writeln (''Total commits: '' @ dec (unat (cs_commits s)))
     @ writeln (''New value insertions: '' @ dec (unat (cs_inserted_new s)))
     @ writeln (''Existing value insertions: '' @ dec (unat (cs_inserted_overwrite s)))
     @ writeln (''Removals: '' @ dec (unat (cs_removed_hit s)))
     @ writeln (''Missed removals: '' @ dec (unat (cs_removed_miss s)))
     @ writeln (''Uncompressed bytes: '' @ dec (unat (cs_uncompressed_bytes s)))
     @ writeln ''Compression deltas:''
     @ concat (map (\<lambda>i. let count = cs_value_histogram s ! i; delta = cs_compression_delta s ! i
                        in if count \<noteq> 0 \<and> delta \<noteq> 0 then bucket_line i (dec_i64 delta) else [])
                   [0..<HISTOGRAM_BUCKETS])
     @ ''Queries per size tier: [''
     @ concat (map (\<lambda>i. if i = SIZE_TIERS - 1 then writeln (dec (unat (cs_query_histogram s ! i)) @ '']'')
                        else dec (unat (cs_query_histogram s ! i)) @ '', '')
                   [0..<SIZE_TIERS])
     @ writeln (''Missed queries: '' @ dec (unat (cs_queries_miss s)))
     @ writeln ''Value histogram:''
     @ concat (map (\<lambda>i. let count = cs_value_histogram s ! i
                        in if count \<noteq> 0 then bucket_line i (dec (unat count)) else [])
                   [0..<HISTOGRAM_BUCKETS])
     @ writeln ''''"

definition ColumnStats_write_summary :: "ColumnStats \<Rightarrow> string \<Rightarrow> ColId \<Rightarrow> string" where
  "ColumnStats_write_summary s writer col = writer @ ColumnStats_write_stats s col"



section \<open>The binary form is read back as it was written\<close>

definition stats_wf :: "ColumnStats \<Rightarrow> bool" where
  "stats_wf s \<longleftrightarrow> length (cs_value_histogram s) = HISTOGRAM_BUCKETS \<and>
     length (cs_query_histogram s) = SIZE_TIERS \<and> length (cs_compression_delta s) = HISTOGRAM_BUCKETS"

definition stats_words :: "ColumnStats \<Rightarrow> u64 list" where
  "stats_words s =
     [cs_oversized s, cs_oversized_bytes s, cs_total_values s, cs_total_bytes s, cs_commits s,
      cs_inserted_new s, cs_inserted_overwrite s, cs_removed_hit s, cs_removed_miss s,
      cs_queries_miss s, cs_uncompressed_bytes s]"

definition stats_bytes :: "ColumnStats \<Rightarrow> bytes" where
  "stats_bytes s =
     concat (map (to_le 4) (cs_value_histogram s)) @ concat (map (to_le 8) (cs_query_histogram s))
     @ concat (map (to_le 8) (stats_words s)) @ concat (map (to_le 8) (cs_compression_delta s))"

lemma length_concat_const: "\<forall>x\<in>set xs. length (f x) = n \<Longrightarrow> length (concat (map f xs)) = n * length xs"
  by (induction xs) auto

lemma length_stats_bytes: "stats_wf s \<Longrightarrow> length (stats_bytes s) = TOTAL_SIZE"
  by (simp add: stats_bytes_def stats_wf_def length_concat_const [of _ _ 4] length_concat_const [of _ _ 8]
      TOTAL_SIZE_def stats_words_def)

text \<open>Writing as long as the slice has room.\<close>

definition wrote :: "bytes \<Rightarrow> bytes \<Rightarrow> nat \<Rightarrow> bytes \<times> bytes" where
  "wrote xs data n = (xs, drop n data)"

lemma cursor_write_wrote:
  "length xs + length b \<le> length data \<Longrightarrow>
     cursor_write b (wrote xs data (length xs)) = wrote (xs @ b) data (length (xs @ b))"
  by (simp add: cursor_write_def wrote_def add.commute)

lemma fold_cursor_write:
  "length xs + length (concat (map f vs)) \<le> length data \<Longrightarrow>
     fold (\<lambda>v. cursor_write (f v)) vs (wrote xs data (length xs))
       = wrote (xs @ concat (map f vs)) data (length (xs @ concat (map f vs)))"
proof (induction vs arbitrary: xs)
  case (Cons v vs)
  then show ?case
    using cursor_write_wrote [of xs "f v" data] Cons.IH [of "xs @ f v"] by (simp add: add.assoc)
qed simp

lemma to_slice_bytes:
  assumes "length (stats_bytes s) \<le> length data"
  shows "ColumnStats_to_slice s data = stats_bytes s @ drop (length (stats_bytes s)) data"
proof -
  let ?a = "concat (map (to_le 4) (cs_value_histogram s))"
  let ?b = "concat (map (to_le 8) (cs_query_histogram s))"
  let ?c = "concat (map (to_le 8) (stats_words s))"
  let ?d = "concat (map (to_le 8) (cs_compression_delta s))"
  have l: "length ?a + (length ?b + (length ?c + length ?d)) \<le> length data"
    using assms by (simp add: stats_bytes_def)
  have w: "write_u32 = (\<lambda>v. cursor_write (to_le 4 v))" "write_u64 = (\<lambda>v. cursor_write (to_le 8 v))"
    "write_i64 = (\<lambda>v. cursor_write (to_le 8 v))"
    by (simp_all add: fun_eq_iff write_u32_def write_u64_def write_i64_def)
  have "ColumnStats_to_slice s data =
      (let c = fold write_i64 (cs_compression_delta s) (fold write_u64 (stats_words s)
         (fold write_u64 (cs_query_histogram s) (fold write_u32 (cs_value_histogram s) ([], data))))
       in fst c @ snd c)"
    by (simp add: ColumnStats_to_slice_def stats_words_def Let_def)
  also have "([], data) = wrote [] data (length ([] :: bytes))" by (simp add: wrote_def)
  also have "fold write_u32 (cs_value_histogram s) \<dots> = wrote ?a data (length ?a)"
    unfolding w using l by (subst fold_cursor_write) simp_all
  also have "fold write_u64 (cs_query_histogram s) \<dots> = wrote (?a @ ?b) data (length (?a @ ?b))"
    unfolding w using l by (subst fold_cursor_write) simp_all
  also have "fold write_u64 (stats_words s) \<dots> = wrote ((?a @ ?b) @ ?c) data (length ((?a @ ?b) @ ?c))"
    unfolding w using l by (subst fold_cursor_write) simp_all
  also have "fold write_i64 (cs_compression_delta s) \<dots>
      = wrote (((?a @ ?b) @ ?c) @ ?d) data (length (((?a @ ?b) @ ?c) @ ?d))"
    unfolding w using l by (subst fold_cursor_write) simp_all
  finally show ?thesis by (simp add: wrote_def stats_bytes_def Let_def)
qed

text \<open>Reading what was written.\<close>

lemma read_u32_app [simp]: "read_u32 (to_le 4 w @ ys) = Inr (w, ys)"
  by (simp add: read_u32_def)

lemma read_u64_app [simp]: "read_u64 (to_le 8 w @ ys) = Inr (w, ys)"
  by (simp add: read_u64_def)

lemma read_i64_app [simp]: "read_i64 (to_le 8 w @ ys) = Inr (w, ys)"
  by (simp add: read_i64_def)

lemma read_many_app:
  assumes "\<And>x ys. f (g x @ ys) = Inr (x, ys)" and "length xs = n"
  shows "read_many f n (concat (map g xs) @ ys) = Inr (xs, ys)"
  using assms(2) by (induction xs arbitrary: n) (auto simp: assms(1))

lemmas read_arrays = read_many_app [where f = read_u32, OF read_u32_app]
  read_many_app [where f = read_u64, OF read_u64_app] read_many_app [where f = read_i64, OF read_i64_app]

lemma from_slice_bytes: "stats_wf s \<Longrightarrow> ColumnStats_from_slice (stats_bytes s @ ys) = Inr s"
  by (simp add: ColumnStats_from_slice_def stats_bytes_def stats_wf_def read_arrays stats_words_def)


section \<open>Taking back\<close>

lemma remove_insert:
  "stats_wf s \<Longrightarrow> ColumnStats_remove (ColumnStats_insert s a b) a b = s"
  by (cases s) (auto simp: ColumnStats_remove_def ColumnStats_insert_def Let_def stats_wf_def
      value_histogram_index_def split: option.splits)

lemma stats_wf_ops [simp]:
  "stats_wf ColumnStats_empty"
  "stats_wf (ColumnStats_insert s a b) = stats_wf s"
  "stats_wf (ColumnStats_remove s a b) = stats_wf s"
  "stats_wf (ColumnStats_insert_val s a b) = stats_wf s"
  "stats_wf (ColumnStats_remove_val s a b) = stats_wf s"
  "stats_wf (ColumnStats_replace_val s a b c d) = stats_wf s"
  "stats_wf (ColumnStats_query_hit s t) = stats_wf s"
  "stats_wf (ColumnStats_query_miss s) = stats_wf s"
  "stats_wf (ColumnStats_remove_miss s) = stats_wf s"
  "stats_wf (ColumnStats_commit s) = stats_wf s"
  by (auto simp: stats_wf_def ColumnStats_empty_def ColumnStats_insert_def ColumnStats_remove_def
      ColumnStats_insert_val_def ColumnStats_remove_val_def ColumnStats_replace_val_def
      ColumnStats_query_hit_def ColumnStats_query_miss_def ColumnStats_remove_miss_def
      ColumnStats_commit_def Let_def split: option.splits)

lemma ColumnStats_insert_overwrite:
  "ColumnStats_insert (s\<lparr>cs_inserted_overwrite := x\<rparr>) a b = (ColumnStats_insert s a b)\<lparr>cs_inserted_overwrite := x\<rparr>"
  "ColumnStats_remove (s\<lparr>cs_inserted_overwrite := x\<rparr>) a b = (ColumnStats_remove s a b)\<lparr>cs_inserted_overwrite := x\<rparr>"
  "ColumnStats_insert (s\<lparr>cs_inserted_new := x\<rparr>) a b = (ColumnStats_insert s a b)\<lparr>cs_inserted_new := x\<rparr>"
  "ColumnStats_remove (s\<lparr>cs_inserted_new := x\<rparr>) a b = (ColumnStats_remove s a b)\<lparr>cs_inserted_new := x\<rparr>"
  "ColumnStats_remove (s\<lparr>cs_removed_hit := x\<rparr>) a b = (ColumnStats_remove s a b)\<lparr>cs_removed_hit := x\<rparr>"
  "ColumnStats_insert (s\<lparr>cs_removed_hit := x\<rparr>) a b = (ColumnStats_insert s a b)\<lparr>cs_removed_hit := x\<rparr>"
  "cs_inserted_overwrite (ColumnStats_insert s a b) = cs_inserted_overwrite s"
  "cs_removed_hit (ColumnStats_insert s a b) = cs_removed_hit s"
  by (simp_all add: ColumnStats_insert_def ColumnStats_remove_def Let_def split: option.splits)


section \<open>Properties\<close>

text \<open>
  C36: the statistics written into the meta area of an index file are loaded back as they were, and
  every chunk of the index is left alone.
\<close>

theorem stats_persist:
  assumes "stats_wf s" and "it_map t = Some m" and "META_SIZE \<le> flen m"
  shows "\<exists>m'. IndexTable_write_stats t s = Inr (t\<lparr>it_map := Some m'\<rparr>) \<and>
     IndexTable_load_stats (t\<lparr>it_map := Some m'\<rparr>) = Inr s \<and>
     flen m' = flen m \<and> (\<forall>i\<ge>META_SIZE. i < flen m \<longrightarrow> fbyte m' i = fbyte m i)"
proof -
  let ?b = "file_bytes m HEADER_SIZE TOTAL_SIZE"
  have size: "HEADER_SIZE + TOTAL_SIZE \<le> META_SIZE"
    by (simp add: HEADER_SIZE_def TOTAL_SIZE_def META_SIZE_def HISTOGRAM_BUCKETS_def SIZE_TIERS_def)
  have w: "ColumnStats_to_slice s ?b = stats_bytes s"
    using to_slice_bytes [of s ?b] by (simp add: length_stats_bytes assms(1))
  define m' where "m' = file_write_at m HEADER_SIZE (stats_bytes s)"
  have len: "flen m' = flen m"
    unfolding m'_def using size assms(3) by (intro flen_write_at_within) (simp add: length_stats_bytes assms(1))
  have "file_bytes m' HEADER_SIZE TOTAL_SIZE = stats_bytes s"
    using file_bytes_write_same [of m HEADER_SIZE "stats_bytes s"]
    by (simp add: m'_def length_stats_bytes assms(1))
  then have "IndexTable_load_stats (t\<lparr>it_map := Some m'\<rparr>) = Inr s"
    using from_slice_bytes [OF assms(1), of "[]"] size assms(3) len by (simp add: IndexTable_load_stats_def)
  moreover have "IndexTable_write_stats t s = Inr (t\<lparr>it_map := Some m'\<rparr>)"
    using size assms by (simp add: IndexTable_write_stats_def w m'_def)
  moreover have "\<forall>i\<ge>META_SIZE. i < flen m \<longrightarrow> fbyte m' i = fbyte m i"
    using size by (auto simp: m'_def file_write_at_def length_stats_bytes assms(1))
  ultimately show ?thesis using len by blast
qed

definition stats_index :: IndexTable where
  "stats_index = \<lparr>it_id = ITableId_new 0 16, it_map = Some (file_set_len META_SIZE file_new), it_path = ''index''\<rparr>"

theorem stats_persist_witness:
  "\<exists>t'. IndexTable_write_stats stats_index (ColumnStats_insert_val ColumnStats_empty 100 60) = Inr t' \<and>
     IndexTable_load_stats t' = Inr (ColumnStats_insert_val ColumnStats_empty 100 60)"
  using stats_persist [of "ColumnStats_insert_val ColumnStats_empty 100 60" stats_index
      "file_set_len META_SIZE file_new"]
  by (auto simp: stats_index_def)

text \<open>
  C37: a value that is inserted, replaced and removed is taken out of the statistics again: the
  histograms, the totals and the byte counts are what they were, and only the three event counters
  have moved. The counters wrap around, so this holds in every state.
\<close>

theorem stats_balance:
  assumes "stats_wf s"
  shows "ColumnStats_remove_val (ColumnStats_replace_val (ColumnStats_insert_val s a b) a b c d) c d =
     s\<lparr>cs_inserted_new := cs_inserted_new s + 1, cs_inserted_overwrite := cs_inserted_overwrite s + 1,
       cs_removed_hit := cs_removed_hit s + 1\<rparr>"
  using assms
  by (simp add: ColumnStats_remove_val_def ColumnStats_replace_val_def ColumnStats_insert_val_def
      ColumnStats_insert_overwrite remove_insert)

theorem stats_balance_witness:
  "ColumnStats_remove_val (ColumnStats_replace_val (ColumnStats_insert_val ColumnStats_empty 100 60)
      100 60 70000 200) 70000 200 =
     ColumnStats_empty\<lparr>cs_inserted_new := 1, cs_inserted_overwrite := 1, cs_removed_hit := 1\<rparr>"
proof -
  have "cs_inserted_new ColumnStats_empty = 0" "cs_inserted_overwrite ColumnStats_empty = 0"
    "cs_removed_hit ColumnStats_empty = 0" by (simp_all add: ColumnStats_empty_def)
  then show ?thesis using stats_balance [of ColumnStats_empty 100 60 70000 200] by simp
qed

end
