(* ===== verification/Compression.thy ===== *)
theory Compression
  imports Display
begin

text \<open>
  The compressors of a column (\<open>src/compress.rs\<close>). The block format of the \<open>lz4\<close> crate and the frame
  format of the \<open>snap\<close> crate are parameters, the record \<open>Codecs\<close>; \<open>codecs_ok\<close> is what their
  documentation promises of them.
\<close>

datatype CompressionType = NoCompression | Lz4 | Snappy

record Codecs =
  lz4_block_compress :: "bytes \<Rightarrow> bytes option"
  lz4_block_decompress :: "bytes \<Rightarrow> bytes option"
  snap_frame_encode :: "bytes \<Rightarrow> bytes option"
  snap_frame_decode :: "bytes \<Rightarrow> bytes option"

primrec CompressionType_as_u8 :: "CompressionType \<Rightarrow> u8" where
  "CompressionType_as_u8 NoCompression = 0"
| "CompressionType_as_u8 Lz4 = 1"
| "CompressionType_as_u8 Snappy = 2"

definition CompressionType_from_u8 :: "u8 \<Rightarrow> CompressionType res" where
  "CompressionType_from_u8 comp_type =
     (if comp_type = CompressionType_as_u8 NoCompression then Inr NoCompression
      else if comp_type = CompressionType_as_u8 Lz4 then Inr Lz4
      else if comp_type = CompressionType_as_u8 Snappy then Inr Snappy
      else Inl (Panic ''Unkwown compression.''))"

datatype Compressor = CNoCompression | CLz4 | CSnappy

primrec Compressor_from :: "CompressionType \<Rightarrow> Compressor" where
  "Compressor_from NoCompression = CNoCompression"
| "Compressor_from Lz4 = CLz4"
| "Compressor_from Snappy = CSnappy"

record Compress =
  cm_inner :: Compressor
  cm_treshold :: u32

definition Compress_new :: "CompressionType \<Rightarrow> u32 \<Rightarrow> Compress" where
  "Compress_new kind treshold = \<lparr>cm_inner = Compressor_from kind, cm_treshold = treshold\<rparr>"

definition CompressionType_from_compress :: "Compress \<Rightarrow> CompressionType" where
  "CompressionType_from_compress compression =
     (case cm_inner compression of CNoCompression \<Rightarrow> NoCompression | CLz4 \<Rightarrow> Lz4 | CSnappy \<Rightarrow> Snappy)"

definition NoCompression_compress :: "bytes \<Rightarrow> bytes" where
  "NoCompression_compress buf = buf"

definition NoCompression_decompress :: "bytes \<Rightarrow> bytes" where
  "NoCompression_decompress buf = buf"

text \<open>\<open>unwrap\<close> and \<open>expect\<close> on the result of the crate.\<close>

definition expect :: "string \<Rightarrow> 'a option \<Rightarrow> 'a res" where
  "expect msg r = (case r of Some x \<Rightarrow> Inr x | None \<Rightarrow> Inl (Panic msg))"

definition Lz4_compress :: "Codecs \<Rightarrow> bytes \<Rightarrow> bytes res" where
  "Lz4_compress cd buf = expect ''called unwrap on an Err value'' (lz4_block_compress cd buf)"

definition Lz4_decompress :: "Codecs \<Rightarrow> bytes \<Rightarrow> bytes res" where
  "Lz4_decompress cd buf = expect ''called unwrap on an Err value'' (lz4_block_decompress cd buf)"

definition Snappy_compress :: "Codecs \<Rightarrow> bytes \<Rightarrow> bytes res" where
  "Snappy_compress cd val = expect ''Expect in memory write to succeed.'' (snap_frame_encode cd val)"

definition Snappy_decompress :: "Codecs \<Rightarrow> bytes \<Rightarrow> bytes res" where
  "Snappy_decompress cd val = expect ''Compression corrupted.'' (snap_frame_decode cd val)"

definition Compress_compress :: "Codecs \<Rightarrow> Compress \<Rightarrow> bytes \<Rightarrow> bytes res" where
  "Compress_compress cd c buf =
     (case cm_inner c of
        CNoCompression \<Rightarrow> Inr (NoCompression_compress buf)
      | CLz4 \<Rightarrow> Lz4_compress cd buf
      | CSnappy \<Rightarrow> Snappy_compress cd buf)"

definition Compress_decompress :: "Codecs \<Rightarrow> Compress \<Rightarrow> bytes \<Rightarrow> bytes res" where
  "Compress_decompress cd c buf =
     (case cm_inner c of
        CNoCompression \<Rightarrow> Inr (NoCompression_decompress buf)
      | CLz4 \<Rightarrow> Lz4_decompress cd buf
      | CSnappy \<Rightarrow> Snappy_decompress cd buf)"


section \<open>What the codecs promise\<close>

text \<open>
  Both crates compress every buffer of less than \<open>LZ4_MAX_INPUT_SIZE\<close> bytes and decompress what they
  compressed.
\<close>

definition LZ4_MAX_INPUT_SIZE :: nat where
  "LZ4_MAX_INPUT_SIZE = 0x7E000000"

definition codecs_ok :: "Codecs \<Rightarrow> bool" where
  "codecs_ok cd \<longleftrightarrow>
     (\<forall>v. length v < LZ4_MAX_INPUT_SIZE \<longrightarrow>
        (\<exists>w. lz4_block_compress cd v = Some w \<and> lz4_block_decompress cd w = Some v) \<and>
        (\<exists>w. snap_frame_encode cd v = Some w \<and> snap_frame_decode cd w = Some v))"

lemma compress_roundtrip:
  assumes "codecs_ok cd" and "length v < LZ4_MAX_INPUT_SIZE"
  shows "\<exists>w. Compress_compress cd c v = Inr w \<and> Compress_decompress cd c w = Inr v"
  using assms
  by (cases "cm_inner c")
     (force simp: codecs_ok_def Compress_compress_def Compress_decompress_def expect_def
        Lz4_compress_def Lz4_decompress_def Snappy_compress_def Snappy_decompress_def
        NoCompression_compress_def NoCompression_decompress_def)+


section \<open>A small codec\<close>

text \<open>Buffers of zeros are stored as their length, all others as they are.\<close>

definition zero_compress :: "bytes \<Rightarrow> bytes" where
  "zero_compress v =
     (if length v < 2 ^ 32 \<and> v = replicate (length v) 0 then 0 # to_le 4 (of_nat (length v) :: u32) else 1 # v)"

definition zero_decompress :: "bytes \<Rightarrow> bytes" where
  "zero_decompress w =
     (case w of [] \<Rightarrow> [] | c # rest \<Rightarrow> if c = 0 then replicate (unat (from_le rest :: u32)) 0 else rest)"

definition zero_codecs :: Codecs where
  "zero_codecs = \<lparr>lz4_block_compress = (\<lambda>v. Some (zero_compress v)),
     lz4_block_decompress = (\<lambda>w. Some (zero_decompress w)),
     snap_frame_encode = (\<lambda>v. Some (zero_compress v)), snap_frame_decode = (\<lambda>w. Some (zero_decompress w))\<rparr>"

lemma zero_roundtrip: "zero_decompress (zero_compress v) = v"
  by (auto simp: zero_compress_def zero_decompress_def unat_of_nat_small)

lemma zero_codecs_ok [simp]: "codecs_ok zero_codecs"
  by (simp add: codecs_ok_def zero_codecs_def zero_roundtrip)


section \<open>Properties\<close>



end
