(* ===== verification/Db_Options.thy ===== *)
theory Db_Options
  imports Value_Table Compression Complex_Main
begin

text \<open>
  The options of a database and of its columns and the text file \<open>metadata\<close> they are kept in
  (\<open>src/options.rs\<close>). Strings are ASCII. The \<open>hex\<close> crate and the random salt are parameters. The
  default size tiers are computed with \<open>f64\<close>; here they are computed with real numbers, which
  differ from it by less than the distance that rounding to the integer size leaves.
\<close>

section \<open>Strings\<close>

text \<open>\<open>str::split\<close> with a string as the separator.\<close>

fun split_on :: "string \<Rightarrow> string \<Rightarrow> string list" where
  "split_on p [] = [[]]"
| "split_on p (c # cs) =
     (if p \<noteq> [] \<and> take (length p) (c # cs) = p then [] # split_on p (drop (length p - 1) cs)
      else (case split_on p cs of [] \<Rightarrow> [[c]] | x # xs \<Rightarrow> (c # x) # xs))"

definition is_space :: "char \<Rightarrow> bool" where
  "is_space c \<longleftrightarrow> c \<in> {CHR 0x09, CHR 0x0A, CHR 0x0B, CHR 0x0C, CHR 0x0D, CHR '' ''}"

definition trim :: "string \<Rightarrow> string" where
  "trim s = rev (dropWhile is_space (rev (dropWhile is_space s)))"

definition show_bool :: "bool \<Rightarrow> string" where
  "show_bool b = (if b then ''true'' else ''false'')"

definition parse_bool :: "string \<Rightarrow> bool option" where
  "parse_bool s = (if s = ''true'' then Some True else if s = ''false'' then Some False else None)"

text \<open>\<open>BufRead::lines\<close>.\<close>

definition strip_cr :: "string \<Rightarrow> string" where
  "strip_cr s = (if s \<noteq> [] \<and> last s = CHR 0x0D then butlast s else s)"

primrec lines_from :: "string \<Rightarrow> string \<Rightarrow> string list" where
  "lines_from acc [] = (if acc = [] then [] else [acc])"
| "lines_from acc (c # cs) =
     (if c = CHR 0x0A then strip_cr acc # lines_from [] cs else lines_from (acc @ [c]) cs)"

definition lines_of :: "string \<Rightarrow> string list" where
  "lines_of s = lines_from [] s"


section \<open>Columns\<close>

definition CURRENT_VERSION :: u32 where "CURRENT_VERSION = 5"
definition LAST_SUPPORTED_VERSION :: u32 where "LAST_SUPPORTED_VERSION = 4"

record ColumnOptions =
  co_preimage :: bool
  co_uniform :: bool
  co_sizes :: "u16 list"
  co_ref_counted :: bool
  co_compression :: CompressionType
  co_compression_treshold :: u32

definition join_sizes :: "u16 list \<Rightarrow> string" where
  "join_sizes sizes =
     fold (\<lambda>s r. (if r \<noteq> [] then r @ '', '' else r) @ dec (unat s)) sizes []"

definition ColumnOptions_as_string :: "ColumnOptions \<Rightarrow> string" where
  "ColumnOptions_as_string o' =
     ''preimage: '' @ show_bool (co_preimage o') @ '', uniform: '' @ show_bool (co_uniform o')
     @ '', refc: '' @ show_bool (co_ref_counted o')
     @ '', compression: '' @ dec (unat (CompressionType_as_u8 (co_compression o')))
     @ '', sizes: ['' @ join_sizes (co_sizes o') @ '']''"

definition ColumnOptions_is_valid :: "ColumnOptions \<Rightarrow> bool" where
  "ColumnOptions_is_valid o' \<longleftrightarrow>
     \<not> SIZE_TIERS - 1 < length (co_sizes o') \<and>
     list_all (\<lambda>sz. \<not> COMPRESSED_MASK \<le> sz) (co_sizes o')"

text \<open>The loop of \<open>default\<close>: \<open>s\<close> is rounded, half away from zero, and multiplied by the factor.\<close>

primrec default_sizes :: "nat \<Rightarrow> real \<Rightarrow> real \<Rightarrow> u16 list" where
  "default_sizes 0 factor s = []"
| "default_sizes (Suc n) factor s = of_int \<lfloor>s + 1 / 2\<rfloor> # default_sizes n factor (s * factor)"

definition ColumnOptions_default :: ColumnOptions where
  "ColumnOptions_default =
     (let start = real (unat MIN_ENTRY_SIZE);
          stop = real (unat MAX_ENTRY_SIZE);
          n_slices = SIZE_TIERS - 1;
          factor = exp ((ln stop - ln start) / real (n_slices - 1))
      in \<lparr>co_preimage = False, co_uniform = False, co_sizes = default_sizes n_slices factor start,
          co_ref_counted = False, co_compression = NoCompression, co_compression_treshold = 4096\<rparr>)"

definition key_pair :: "string \<Rightarrow> (string \<times> string) option" where
  "key_pair s = (case split_on '': '' s of k # v # _ \<Rightarrow> Some (k, v) | _ \<Rightarrow> None)"

definition bind_opt :: "'a option \<Rightarrow> ('a \<Rightarrow> 'b option res) \<Rightarrow> 'b option res" where
  "bind_opt x f = (case x of None \<Rightarrow> Inr None | Some y \<Rightarrow> f y)"

definition ColumnOptions_from_string :: "string \<Rightarrow> ColumnOptions option res" where
  "ColumnOptions_from_string s =
     (case split_on ''sizes: '' s of
        vals # sizes # _ \<Rightarrow>
          if length sizes < 2 then Inl (Panic ''slice index starts at 1 but ends before'')
          else
            let sizes = slice_of 1 (length sizes - 1) sizes;
                sizes = List.map_filter (\<lambda>v. map_option of_nat (parse_uint (2 ^ 16) (trim v)))
                          (split_on '','' sizes);
                vals = map_of (rev (List.map_filter key_pair (split_on '', '' vals)))
            in bind_opt (Option.bind (vals ''preimage'') parse_bool) (\<lambda>preimage.
               bind_opt (Option.bind (vals ''uniform'') parse_bool) (\<lambda>uniform.
               bind_opt (Option.bind (vals ''refc'') parse_bool) (\<lambda>ref_counted.
                 let compression = (case Option.bind (vals ''compression'') (parse_uint (2 ^ 8)) of
                                      Some c \<Rightarrow> of_nat c | None \<Rightarrow> 0)
                 in and_then (CompressionType_from_u8 compression) (\<lambda>compression.
                      Inr (Some \<lparr>co_preimage = preimage, co_uniform = uniform, co_sizes = sizes,
                                 co_ref_counted = ref_counted, co_compression = compression,
                                 co_compression_treshold = co_compression_treshold ColumnOptions_default\<rparr>)))))
      | _ \<Rightarrow> Inr None)"


section \<open>Databases\<close>

type_synonym Salt = bytes

record Options =
  op_path :: string
  op_columns :: "ColumnOptions list"
  op_sync_wal :: bool
  op_sync_data :: bool
  op_stats :: bool
  op_salt :: "Salt option"

record Metadata =
  md_salt :: Salt
  md_version :: u32
  md_columns :: "ColumnOptions list"

definition Options_with_columns :: "string \<Rightarrow> u8 \<Rightarrow> Options" where
  "Options_with_columns path num_columns =
     \<lparr>op_path = path, op_columns = map (\<lambda>_. ColumnOptions_default) [0..<unat num_columns],
      op_sync_wal = True, op_sync_data = True, op_stats = True, op_salt = None\<rparr>"

definition line :: "string \<Rightarrow> string" where
  "line s = s @ [CHR 0x0A]"

text \<open>What \<open>write_metadata\<close> leaves in the file it creates.\<close>

definition Options_write_metadata :: "(Salt \<Rightarrow> string) \<Rightarrow> Options \<Rightarrow> Salt \<Rightarrow> string" where
  "Options_write_metadata hex_encode o' salt =
     line (''version='' @ dec (unat CURRENT_VERSION))
     @ line (''salt='' @ hex_encode salt)
     @ concat (map (\<lambda>i. line (''col'' @ dec i @ ''='' @ ColumnOptions_as_string (op_columns o' ! i)))
                   [0..<length (op_columns o')])"

record meta_state =
  ms_salt :: "Salt option"
  ms_columns :: "ColumnOptions list"
  ms_version :: u32

definition load_line :: "(string \<Rightarrow> bytes option) \<Rightarrow> string \<Rightarrow> meta_state \<Rightarrow> meta_state res" where
  "load_line hex_decode l s =
     (case split_on ''='' l of
        k # v # _ \<Rightarrow>
          if k = ''version'' then
            (case parse_uint (2 ^ 32) v of
               Some n \<Rightarrow> Inr (s\<lparr>ms_version := of_nat n\<rparr>)
             | None \<Rightarrow> Inl (Err (Corruption ''Bad version string'')))
          else if k = ''salt'' then
            (case hex_decode v of
               None \<Rightarrow> Inl (Err (Corruption ''Bad salt string''))
             | Some salt_slice \<Rightarrow>
                 if length salt_slice \<noteq> 32
                 then Inl (Panic ''source slice length does not match destination slice length'')
                 else Inr (s\<lparr>ms_salt := Some salt_slice\<rparr>))
          else if starts_with ''col'' k then
            and_then (ColumnOptions_from_string v) (\<lambda>col.
              case col of
                None \<Rightarrow> Inl (Err (Corruption ''Bad column metadata''))
              | Some c \<Rightarrow> Inr (s\<lparr>ms_columns := ms_columns s @ [c]\<rparr>))
          else Inr s
      | _ \<Rightarrow> Inl (Err (Corruption ''Bad metadata'')))"

primrec load_lines :: "(string \<Rightarrow> bytes option) \<Rightarrow> string list \<Rightarrow> meta_state \<Rightarrow> meta_state res" where
  "load_lines hex_decode [] s = Inr s"
| "load_lines hex_decode (l # ls) s = and_then (load_line hex_decode l s) (load_lines hex_decode ls)"

text \<open>\<open>load_metadata\<close>; \<open>file\<close> is the content of the metadata file, if there is one.\<close>

definition Options_load_metadata ::
    "(string \<Rightarrow> bytes option) \<Rightarrow> string option \<Rightarrow> Metadata option res" where
  "Options_load_metadata hex_decode file =
     (case file of
        None \<Rightarrow> Inr None
      | Some text \<Rightarrow>
          and_then (load_lines hex_decode (lines_of text) \<lparr>ms_salt = None, ms_columns = [], ms_version = 0\<rparr>)
            (\<lambda>s. if ms_version s < LAST_SUPPORTED_VERSION then
                   Inl (Err (InvalidConfiguration
                     (''Unsupported database version '' @ dec (unat (ms_version s)) @ ''. Expected ''
                      @ dec (unat CURRENT_VERSION))))
                 else case ms_salt s of
                   None \<Rightarrow> Inl (Err (InvalidConfiguration ''Missing salt value''))
                 | Some salt \<Rightarrow>
                     Inr (Some \<lparr>md_salt = salt, md_version = ms_version s, md_columns = ms_columns s\<rparr>)))"

definition config_mismatch :: "nat \<Rightarrow> ColumnOptions \<Rightarrow> ColumnOptions \<Rightarrow> string" where
  "config_mismatch c expected got =
     ''Column config mismatch for column '' @ dec c @ ''. Expected \"'' @ ColumnOptions_as_string expected
     @ ''\", got \"'' @ ColumnOptions_as_string got @ ''\"''"

text \<open>
  \<open>load_and_validate_metadata\<close> with the metadata file and the random salt; the result has the file
  afterwards.
\<close>

definition Options_load_and_validate_metadata ::
    "(Salt \<Rightarrow> string) \<Rightarrow> (string \<Rightarrow> bytes option) \<Rightarrow> Salt \<Rightarrow> Options \<Rightarrow> bool \<Rightarrow> string option
       \<Rightarrow> (Metadata \<times> string option) res" where
  "Options_load_and_validate_metadata hex_encode hex_decode random o' create file =
     and_then (Options_load_metadata hex_decode file) (\<lambda>meta.
       case meta of
         Some meta \<Rightarrow>
           if length (md_columns meta) \<noteq> length (op_columns o')
           then Inl (Err (InvalidConfiguration ''Column config mismatch''))
           else (case List.find (\<lambda>c. md_columns meta ! c \<noteq> op_columns o' ! c) [0..<length (md_columns meta)] of
                   Some c \<Rightarrow>
                     Inl (Err (InvalidConfiguration
                       (config_mismatch c (op_columns o' ! c) (md_columns meta ! c))))
                 | None \<Rightarrow> Inr (meta, file))
       | None \<Rightarrow>
           if create then
             let s = (case op_salt o' of Some s \<Rightarrow> s | None \<Rightarrow> random)
             in Inr (\<lparr>md_salt = s, md_version = CURRENT_VERSION, md_columns = op_columns o'\<rparr>,
                     Some (Options_write_metadata hex_encode o' s))
           else Inl (Err (InvalidConfiguration
             ''Database does not exist. To create a new one, use open_or_create'')))"

definition Options_is_valid :: "Options \<Rightarrow> bool" where
  "Options_is_valid o' \<longleftrightarrow> list_all ColumnOptions_is_valid (op_columns o')"

definition Metadata_columns_to_migrate :: "Metadata \<Rightarrow> u8 set" where
  "Metadata_columns_to_migrate m = {}"



section \<open>Splitting\<close>

lemma split_on_nonempty [simp]: "split_on p s \<noteq> []"
  by (induction p s rule: split_on.induct) (auto split: list.splits)

lemma split_on_notin: "p \<noteq> [] \<Longrightarrow> hd p \<notin> set s \<Longrightarrow> split_on p s = [s]"
  by (induction p s rule: split_on.induct) (auto simp: take_Cons' split: if_splits dest: arg_cong [where f = hd])

lemma split_on_once:
  assumes "p \<noteq> []" and "hd p \<notin> set a"
  shows "split_on p (a @ p @ b) = a # split_on p b"
  using assms(2)
proof (induction a)
  case Nil
  from assms(1) obtain c cs where "p = c # cs" by (cases p) auto
  then show ?case by simp
next
  case (Cons x a)
  have "take (length p) (x # a @ p @ b) \<noteq> p"
    using assms(1) Cons.prems by (cases p) auto
  then show ?case using Cons by simp
qed

lemma lines_from_line:
  "CHR 0x0A \<notin> set l \<Longrightarrow> lines_from acc (l @ CHR 0x0A # rest) = strip_cr (acc @ l) # lines_from [] rest"
  by (induction l arbitrary: acc) auto

lemma lines_of_line:
  "CHR 0x0A \<notin> set l \<Longrightarrow> CHR 0x0D \<notin> set l \<Longrightarrow> lines_of (line l @ rest) = l # lines_of rest"
proof -
  assume "CHR 0x0A \<notin> set l" "CHR 0x0D \<notin> set l"
  moreover from this have "strip_cr l = l" by (cases l rule: rev_cases) (auto simp: strip_cr_def)
  ultimately show ?thesis by (simp add: lines_of_def line_def lines_from_line)
qed

lemma lines_of_lines:
  "\<forall>l\<in>set ls. CHR 0x0A \<notin> set l \<and> CHR 0x0D \<notin> set l \<Longrightarrow> lines_of (concat (map line ls)) = ls"
  by (induction ls) (simp_all add: lines_of_line, simp add: lines_of_def)


section \<open>A column survives the metadata file\<close>

definition flags_string :: "ColumnOptions \<Rightarrow> string" where
  "flags_string c =
     ''preimage: '' @ show_bool (co_preimage c) @ '', uniform: '' @ show_bool (co_uniform c)
     @ '', refc: '' @ show_bool (co_ref_counted c)
     @ '', compression: '' @ dec (unat (CompressionType_as_u8 (co_compression c))) @ '', ''"

lemma as_string_parts:
  "ColumnOptions_as_string c = flags_string c @ ''sizes: '' @ ''['' @ join_sizes (co_sizes c) @ '']''"
  by (simp add: ColumnOptions_as_string_def flags_string_def)

lemma dec_compression: "dec 0 = ''0''" "dec (Suc 0) = ''1''" "dec 2 = ''2''"
  by (simp_all add: dec.simps digit_def)

lemma split_flags:
  "split_on ''sizes: '' (flags_string c @ ''sizes: '' @ rest) = flags_string c # split_on ''sizes: '' rest"
  by (cases "co_preimage c"; cases "co_uniform c"; cases "co_ref_counted c"; cases "co_compression c")
     (simp_all add: flags_string_def show_bool_def dec_compression)

lemma flags_pairs:
  "List.map_filter key_pair (split_on '', '' (flags_string c)) =
     [(''preimage'', show_bool (co_preimage c)), (''uniform'', show_bool (co_uniform c)),
      (''refc'', show_bool (co_ref_counted c)),
      (''compression'', dec (unat (CompressionType_as_u8 (co_compression c))))]"
  by (cases "co_preimage c"; cases "co_uniform c"; cases "co_ref_counted c"; cases "co_compression c")
     (simp_all add: flags_string_def show_bool_def dec_compression key_pair_def map_filter_simps)

lemma parse_show_bool [simp]: "parse_bool (show_bool b) = Some b"
  by (simp add: parse_bool_def show_bool_def)

lemma parse_compression:
  "parse_uint (2 ^ 8) (dec (unat (CompressionType_as_u8 k))) = Some (unat (CompressionType_as_u8 k))"
  by (rule parse_uint_dec) (cases k; simp)

text \<open>The list of sizes.\<close>

lemma join_sizes_fold:
  "r \<noteq> [] \<Longrightarrow> fold (\<lambda>s r. (if r \<noteq> [] then r @ '', '' else r) @ dec (unat s)) sizes r
      = r @ concat (map (\<lambda>s. '', '' @ dec (unat (s :: u16))) sizes)"
  by (induction sizes arbitrary: r) simp_all

lemma join_sizes_Cons:
  "join_sizes (s # ss) = dec (unat s) @ concat (map (\<lambda>s. '', '' @ dec (unat s)) ss)"
  unfolding join_sizes_def by (simp add: join_sizes_fold)

lemma join_sizes_chars:
  "set (join_sizes ss) \<subseteq> set ''0123456789, ''"
proof (cases ss)
  case (Cons s ss')
  have "set (dec (unat x)) \<subseteq> set ''0123456789''" for x :: u16
    using dec_notin by blast
  then have "set (dec (unat x)) \<subseteq> set ''0123456789, ''" for x :: u16
    by (rule subset_trans) auto
  then show ?thesis unfolding Cons join_sizes_Cons by (simp add: UN_subset_iff)
qed (simp add: join_sizes_def)


lemma is_space_dec: "c \<in> set (dec n) \<Longrightarrow> \<not> is_space c"
proof
  assume "c \<in> set (dec n)" "is_space c"
  then show False using dec_notin [of c n] by (auto simp: is_space_def)
qed

lemma dropWhile_none: "\<forall>x\<in>set xs. \<not> P x \<Longrightarrow> dropWhile P xs = xs"
  by (cases xs) auto

lemma dropWhile_dec [simp]: "dropWhile is_space (dec n) = dec n" "dropWhile is_space (rev (dec n)) = rev (dec n)"
  by (simp_all add: dropWhile_none is_space_dec)

lemma trim_dec [simp]: "trim (dec n) = dec n" "trim (CHR '' '' # dec n) = dec n"
  by (simp_all add: trim_def is_space_def [of "CHR '' ''"])

lemma parse_size: "parse_uint (2 ^ 16) (dec (unat (s :: u16))) = Some (unat s)"
  by (rule parse_uint_dec) (use unsigned_less [of s] in simp)

lemma parse_sizes_tail:
  assumes "CHR '','' \<notin> set x"
  shows "split_on '','' (x @ concat (map (\<lambda>s. '', '' @ dec (unat (s :: u16))) ss))
    = x # map (\<lambda>s. CHR '' '' # dec (unat s)) ss"
  using assms
proof (induction ss arbitrary: x)
  case Nil
  then show ?case by (simp add: split_on_notin)
next
  case (Cons s ss)
  have "CHR '','' \<notin> set (CHR '' '' # dec (unat s))" using dec_notin [of "CHR '',''"] by simp
  from Cons.IH [OF this] show ?case
    using split_on_once [of "'',''" x] Cons.prems by simp
qed

lemma parse_sizes:
  "List.map_filter (\<lambda>v. map_option of_nat (parse_uint (2 ^ 16) (trim v))) (split_on '','' (join_sizes ss)) = ss"
proof (cases ss)
  case Nil
  show ?thesis
    by (simp add: Nil join_sizes_def trim_def parse_uint_def map_filter_simps)
next
  case (Cons s ss')
  have "CHR '','' \<notin> set (dec (unat s))" using dec_notin [of "CHR '',''"] by simp
  from parse_sizes_tail [OF this]
  have "split_on '','' (join_sizes ss) = dec (unat s) # map (\<lambda>s. CHR '' '' # dec (unat s)) ss'"
    unfolding Cons join_sizes_Cons .
  moreover have "List.map_filter (\<lambda>v. map_option of_nat (parse_uint (2 ^ 16) (trim v)))
      (map (\<lambda>s. CHR '' '' # dec (unat s)) ss') = ss'"
    by (induction ss') (simp_all add: map_filter_simps parse_size del: power_numeral)
  ultimately show ?thesis by (simp add: Cons map_filter_simps parse_size del: power_numeral)
qed

lemma from_string_as_string:
  "ColumnOptions_from_string (ColumnOptions_as_string c) = Inr (Some (c\<lparr>co_compression_treshold := 4096\<rparr>))"
proof -
  let ?s = "''['' @ join_sizes (co_sizes c) @ '']''"
  have "CHR ''s'' \<notin> set ?s" using join_sizes_chars [of "co_sizes c"] by auto
  then have "split_on ''sizes: '' (ColumnOptions_as_string c) = [flags_string c, ?s]"
    unfolding as_string_parts split_flags by (simp add: split_on_notin)
  moreover have "slice_of 1 (length ?s - 1) ?s = join_sizes (co_sizes c)"
    by (simp add: slice_of_def)
  moreover have "CompressionType_from_u8 (CompressionType_as_u8 k) = Inr k" for k
    by (cases k) (simp_all add: CompressionType_from_u8_def)
  moreover have "co_compression_treshold ColumnOptions_default = 4096"
    by (simp add: ColumnOptions_default_def Let_def)
  ultimately show ?thesis
    by (simp add: ColumnOptions_from_string_def flags_pairs parse_sizes bind_opt_def parse_compression
        del: power_numeral)
qed



section \<open>The metadata file\<close>

text \<open>What the documentation of the \<open>hex\<close> crate promises of \<open>encode\<close> and \<open>decode\<close>.\<close>

definition hex_ok :: "(Salt \<Rightarrow> string) \<Rightarrow> (string \<Rightarrow> bytes option) \<Rightarrow> bool" where
  "hex_ok hex_encode hex_decode \<longleftrightarrow>
     (\<forall>s. hex_decode (hex_encode s) = Some s \<and> set (hex_encode s) \<subseteq> set ''0123456789abcdef'')"

lemma flags_chars: "set (flags_string c) \<subseteq> set ''abcdefghijklmnopqrstuvwxyz:, 012''"
  by (cases "co_preimage c"; cases "co_uniform c"; cases "co_ref_counted c"; cases "co_compression c")
     (simp_all add: flags_string_def show_bool_def dec_compression)

lemma as_string_chars:
  "set (ColumnOptions_as_string c) \<subseteq> set ''abcdefghijklmnopqrstuvwxyz:, 0123456789[]''"
proof -
  have "set (flags_string c) \<subseteq> set ''abcdefghijklmnopqrstuvwxyz:, 0123456789[]''"
    by (rule subset_trans [OF flags_chars]) auto
  moreover have "set (join_sizes (co_sizes c)) \<subseteq> set ''abcdefghijklmnopqrstuvwxyz:, 0123456789[]''"
    by (rule subset_trans [OF join_sizes_chars]) auto
  ultimately show ?thesis unfolding as_string_parts by simp
qed

lemma as_string_plain:
  "CHR ''='' \<notin> set (ColumnOptions_as_string c)" "CHR 0x0A \<notin> set (ColumnOptions_as_string c)"
  "CHR 0x0D \<notin> set (ColumnOptions_as_string c)"
  using as_string_chars [of c] by auto

lemma split_key: "CHR ''='' \<notin> set k \<Longrightarrow> CHR ''='' \<notin> set v \<Longrightarrow> split_on ''='' (k @ ''='' @ v) = [k, v]"
  by (subst split_on_once) (simp_all add: split_on_notin)

definition col_line :: "nat \<Rightarrow> ColumnOptions \<Rightarrow> string" where
  "col_line i c = ''col'' @ dec i @ ''='' @ ColumnOptions_as_string c"

definition salt_line :: "(Salt \<Rightarrow> string) \<Rightarrow> Salt \<Rightarrow> string" where
  "salt_line hex_encode salt = ''salt='' @ hex_encode salt"

definition version_line :: string where
  "version_line = ''version='' @ dec (unat CURRENT_VERSION)"

lemma load_column_line:
  "load_line hex_decode (col_line i c) s =
     Inr (s\<lparr>ms_columns := ms_columns s @ [c\<lparr>co_compression_treshold := 4096\<rparr>]\<rparr>)"
proof -
  have "split_on ''='' ((''col'' @ dec i) @ ''='' @ ColumnOptions_as_string c)
      = [''col'' @ dec i, ColumnOptions_as_string c]"
    using dec_notin [of "CHR ''=''"] by (intro split_key as_string_plain) simp
  then show ?thesis
    by (simp add: col_line_def load_line_def starts_with_def from_string_as_string)
qed

lemma load_column_lines:
  "load_lines hex_decode (map (\<lambda>i. col_line i (f i)) is) s =
     Inr (s\<lparr>ms_columns := ms_columns s @ map (\<lambda>i. (f i)\<lparr>co_compression_treshold := 4096\<rparr>) is\<rparr>)"
  by (induction "is" arbitrary: s) (simp_all add: load_column_line)

definition metadata_lines :: "(Salt \<Rightarrow> string) \<Rightarrow> Options \<Rightarrow> Salt \<Rightarrow> string list" where
  "metadata_lines hex_encode o' salt =
     version_line # salt_line hex_encode salt #
     map (\<lambda>i. col_line i (op_columns o' ! i)) [0..<length (op_columns o')]"

lemma write_metadata_lines:
  "Options_write_metadata hex_encode o' salt = concat (map line (metadata_lines hex_encode o' salt))"
  by (simp add: Options_write_metadata_def metadata_lines_def comp_def version_line_def salt_line_def col_line_def)

lemma lines_of_metadata:
  assumes "hex_ok hex_encode hex_decode"
  shows "lines_of (Options_write_metadata hex_encode o' salt) = metadata_lines hex_encode o' salt"
proof -
  have "CHR 0x0A \<notin> set (hex_encode salt)" "CHR 0x0D \<notin> set (hex_encode salt)"
    using assms unfolding hex_ok_def by fastforce+
  then show ?thesis
    unfolding write_metadata_lines
    using dec_notin [of "CHR 0x0A"] dec_notin [of "CHR 0x0D"] as_string_plain
    by (intro lines_of_lines) (auto simp: metadata_lines_def version_line_def salt_line_def col_line_def)
qed

lemma load_written_metadata:
  assumes "hex_ok hex_encode hex_decode" and "length salt = 32"
  shows "Options_load_metadata hex_decode (Some (Options_write_metadata hex_encode o' salt)) =
     Inr (Some \<lparr>md_salt = salt, md_version = CURRENT_VERSION,
       md_columns = map (\<lambda>c. c\<lparr>co_compression_treshold := 4096\<rparr>) (op_columns o')\<rparr>)"
proof -
  have "CHR ''='' \<notin> set (hex_encode salt)" using assms(1) unfolding hex_ok_def by fastforce
  then have salt: "load_line hex_decode (salt_line hex_encode salt) s = Inr (s\<lparr>ms_salt := Some salt\<rparr>)" for s
    using split_key [of "''salt''" "hex_encode salt"] assms by (simp add: salt_line_def load_line_def hex_ok_def)
  have "split_on ''='' (''version'' @ ''='' @ dec 5) = [''version'', dec 5]"
    using dec_notin [of "CHR ''=''"] by (intro split_key) simp_all
  then have version: "load_line hex_decode version_line s = Inr (s\<lparr>ms_version := 5\<rparr>)" for s
    using parse_uint_dec [of 5 "2 ^ 32"] by (simp add: version_line_def CURRENT_VERSION_def load_line_def)
  have "map (\<lambda>i. (op_columns o' ! i)\<lparr>co_compression_treshold := 4096\<rparr>) [0..<length (op_columns o')]
      = map (\<lambda>c. c\<lparr>co_compression_treshold := 4096\<rparr>) (op_columns o')"
    by (rule nth_equalityI) simp_all
  then show ?thesis
    unfolding Options_load_metadata_def option.case lines_of_metadata [OF assms(1)] metadata_lines_def
    using salt version
    by (simp add: load_column_lines CURRENT_VERSION_def LAST_SUPPORTED_VERSION_def)
qed


section \<open>The default size tiers\<close>

lemma length_default_sizes [simp]: "length (default_sizes n f s) = n"
  by (induction n arbitrary: s) simp_all

lemma nth_default_sizes: "i < n \<Longrightarrow> default_sizes n f s ! i = of_int \<lfloor>s * f ^ i + 1 / 2\<rfloor>"
proof (induction n arbitrary: i s)
  case (Suc n)
  show ?case
  proof (cases i)
    case (Suc j)
    then show ?thesis using Suc.IH [of j "s * f"] \<open>i < Suc n\<close> by (simp add: mult.assoc)
  qed simp
qed simp

definition tier_size :: "nat \<Rightarrow> int" where
  "tier_size i = \<lfloor>32 * exp ((ln 32760 - ln 32) / 254) ^ i + 1 / 2 :: real\<rfloor>"

lemma default_tier: "i < 255 \<Longrightarrow> co_sizes ColumnOptions_default ! i = of_int (tier_size i)"
  by (simp add: ColumnOptions_default_def Let_def nth_default_sizes SIZE_TIERS_def MIN_ENTRY_SIZE_def
      MAX_ENTRY_SIZE_def tier_size_def)

lemma length_default: "length (co_sizes ColumnOptions_default) = 255"
  by (simp add: ColumnOptions_default_def Let_def SIZE_TIERS_def)

lemma tier_size_mono: "i \<le> j \<Longrightarrow> tier_size i \<le> tier_size j"
proof -
  assume "i \<le> j"
  have "1 \<le> exp ((ln 32760 - ln 32) / 254 :: real)" by simp
  from power_increasing [OF \<open>i \<le> j\<close> this] show ?thesis
    unfolding tier_size_def by (intro floor_mono) simp
qed

lemma tier_size_ends: "tier_size 0 = 32" "tier_size 254 = 32760"
proof -
  show "tier_size 0 = 32" by (simp add: tier_size_def)
  have "exp ((ln 32760 - ln 32) / 254) ^ 254 = exp (real 254 * ((ln 32760 - ln 32) / 254) :: real)"
    by (rule exp_of_nat_mult [symmetric])
  also have "real 254 * ((ln 32760 - ln 32) / 254) = ln 32760 - (ln 32 :: real)" by simp
  also have "exp \<dots> = exp (ln 32760) / exp (ln 32)" by (rule exp_diff)
  also have "\<dots> = 32760 / 32" by (simp only: exp_ln zero_less_numeral)
  finally have "32 * exp ((ln 32760 - ln 32) / 254) ^ 254 = (32760 :: real)" by simp
  then show "tier_size 254 = 32760" unfolding tier_size_def by (simp only:) simp
qed

lemma tier_size_bounds: "i < 255 \<Longrightarrow> 32 \<le> tier_size i \<and> tier_size i \<le> 32760"
  using tier_size_mono [of 0 i] tier_size_mono [of i 254] by (simp add: tier_size_ends)

lemma unat_default_tier: "i < 255 \<Longrightarrow> unat (co_sizes ColumnOptions_default ! i) = nat (tier_size i)"
proof -
  assume "i < 255"
  then have b: "0 \<le> tier_size i" "tier_size i < 2 ^ 16" using tier_size_bounds [of i] by simp_all
  then have "of_int (tier_size i) = (of_nat (nat (tier_size i)) :: u16)" by (simp add: of_nat_nat)
  moreover have "nat (tier_size i) < 2 ^ LENGTH(16)" using b by (simp add: nat_less_iff)
  ultimately show ?thesis using \<open>i < 255\<close> by (simp add: default_tier unat_of_nat_small)
qed



section \<open>Properties\<close>

definition hex_digit_val :: "char \<Rightarrow> nat option" where
  "hex_digit_val c =
     (let d = length (takeWhile (\<lambda>x. x \<noteq> c) ''0123456789abcdef'') in if d < 16 then Some d else None)"

fun unhex :: "string \<Rightarrow> bytes option" where
  "unhex [] = Some []"
| "unhex (a # b # s) =
     (case (hex_digit_val a, hex_digit_val b, unhex s) of
        (Some x, Some y, Some bs) \<Rightarrow> Some (of_nat (16 * x + y) # bs) | _ \<Rightarrow> None)"
| "unhex [a] = None"

lemma hex_digit_cases: "d < 16 \<Longrightarrow> hex_digit_val (hex_digit d) = Some d \<and> hex_digit d \<in> set ''0123456789abcdef''"
proof -
  assume "d < 16"
  then have "d \<in> {0,1,2,3,4,5,6,7,8,9,10,11,12,13,14,15}" unfolding insert_iff empty_iff by presburger
  then show ?thesis by (auto simp: hex_digit_val_def hex_digit_def)
qed

lemma hex_ok_hex: "hex_ok hex unhex"
proof -
  have nib: "unat (b :: u8) div 16 < 16" "unat b mod 16 < 16" for b
    using unsigned_less [of b, where 'a = nat] by simp_all
  have "unhex (hex s) = Some s \<and> set (hex s) \<subseteq> set ''0123456789abcdef''" for s
  proof (induction s)
    case (Cons b s)
    have "of_nat (16 * (unat b div 16) + unat b mod 16) = b" by (simp only: mult_div_mod_eq) simp
    then show ?case
      using Cons hex_digit_cases [OF nib(1) [of b]] hex_digit_cases [OF nib(2) [of b]]
      by (simp add: hex_def hex_byte_def)
  qed (simp add: hex_def)
  then show ?thesis by (simp add: hex_ok_def)
qed

definition sample_columns :: "ColumnOptions list" where
  "sample_columns =
     [\<lparr>co_preimage = True, co_uniform = False, co_sizes = [32, 64, 1000], co_ref_counted = True,
       co_compression = Snappy, co_compression_treshold = 4096\<rparr>,
      \<lparr>co_preimage = False, co_uniform = True, co_sizes = [], co_ref_counted = False,
       co_compression = Lz4, co_compression_treshold = 128\<rparr>]"

definition sample_options :: Options where
  "sample_options = \<lparr>op_path = ''db'', op_columns = sample_columns, op_sync_wal = True,
     op_sync_data = True, op_stats = False, op_salt = None\<rparr>"

definition sample_salt :: Salt where
  "sample_salt = replicate 32 7"

lemma length_sample_salt [simp]: "length sample_salt = 32"
  by (simp add: sample_salt_def)

text \<open>
  C35: the metadata file keeps the salt, the version and every column's options, whatever the flags, the
  compression and the list of sizes are; only the compression threshold is not written and comes back
  as its default.
\<close>

theorem options_metadata_roundtrip:
  assumes "hex_ok hex_encode hex_decode" and "length salt = 32"
  shows "Options_load_metadata hex_decode (Some (Options_write_metadata hex_encode o' salt)) =
     Inr (Some \<lparr>md_salt = salt, md_version = CURRENT_VERSION,
       md_columns = map (\<lambda>c. c\<lparr>co_compression_treshold := 4096\<rparr>) (op_columns o')\<rparr>)"
  by (rule load_written_metadata [OF assms])

theorem options_metadata_roundtrip_witness:
  "\<exists>m. Options_load_metadata unhex (Some (Options_write_metadata hex sample_options sample_salt)) = Inr (Some m) \<and>
     md_salt m = sample_salt \<and> map co_sizes (md_columns m) = [[32, 64, 1000], []] \<and>
     map co_compression (md_columns m) = [Snappy, Lz4]"
  using options_metadata_roundtrip [OF hex_ok_hex length_sample_salt, of sample_options]
  by (simp add: sample_options_def sample_columns_def)

text \<open>
  C39: a database opened again with the options it was created with is accepted exactly when every
  column has the default compression threshold; otherwise the first column with another threshold is
  reported as a configuration mismatch.
\<close>

theorem options_reopen:
  assumes "hex_ok hex_encode hex_decode" and "length salt = 32"
  shows "Options_load_and_validate_metadata hex_encode hex_decode random o' create
       (Some (Options_write_metadata hex_encode o' salt)) =
     (case List.find (\<lambda>i. co_compression_treshold (op_columns o' ! i) \<noteq> 4096) [0..<length (op_columns o')] of
        None \<Rightarrow> Inr (\<lparr>md_salt = salt, md_version = CURRENT_VERSION, md_columns = op_columns o'\<rparr>,
                      Some (Options_write_metadata hex_encode o' salt))
      | Some i \<Rightarrow> Inl (Err (InvalidConfiguration (config_mismatch i (op_columns o' ! i)
                      ((op_columns o' ! i)\<lparr>co_compression_treshold := 4096\<rparr>)))))"
proof -
  let ?n = "length (op_columns o')"
  have eq: "c\<lparr>co_compression_treshold := 4096\<rparr> = c \<longleftrightarrow> co_compression_treshold c = 4096" for c :: ColumnOptions
    by (cases c) auto
  have find: "List.find (\<lambda>i. map (\<lambda>c. c\<lparr>co_compression_treshold := 4096\<rparr>) (op_columns o') ! i \<noteq> op_columns o' ! i) [0..<?n]
      = List.find (\<lambda>i. co_compression_treshold (op_columns o' ! i) \<noteq> 4096) [0..<?n]"
    by (rule find_cong) (simp_all add: eq)
  show ?thesis
  proof (cases "List.find (\<lambda>i. co_compression_treshold (op_columns o' ! i) \<noteq> 4096) [0..<?n]")
    case None
    then have "map (\<lambda>c. c\<lparr>co_compression_treshold := 4096\<rparr>) (op_columns o') = op_columns o'"
      by (intro nth_equalityI) (auto simp: find_None_iff eq)
    then show ?thesis
      using None find_None_iff [of "\<lambda>_. False" "[0..<?n]"]
      by (simp add: Options_load_and_validate_metadata_def load_written_metadata [OF assms])
  next
    case (Some i)
    then have "i < ?n" by (auto simp: find_Some_iff)
    then show ?thesis
      using Some find by (simp add: Options_load_and_validate_metadata_def load_written_metadata [OF assms])
  qed
qed

theorem options_reopen_witness:
  "\<exists>e. Options_load_and_validate_metadata hex unhex sample_salt sample_options False
       (Some (Options_write_metadata hex sample_options sample_salt)) = Inl (Err (InvalidConfiguration e))"
  using options_reopen [OF hex_ok_hex length_sample_salt, of sample_salt sample_options False]
  by (simp add: sample_options_def sample_columns_def)

lemma default_sizes_range: "list_all (\<lambda>s. MIN_ENTRY_SIZE \<le> s \<and> s \<le> MAX_ENTRY_SIZE) (co_sizes ColumnOptions_default)"
proof -
  have "unat MIN_ENTRY_SIZE \<le> unat (co_sizes ColumnOptions_default ! i) \<and> unat (co_sizes ColumnOptions_default ! i) \<le> unat MAX_ENTRY_SIZE"
    if "i < 255" for i
    using tier_size_bounds [OF that]
    by (simp add: unat_default_tier that MIN_ENTRY_SIZE_def MAX_ENTRY_SIZE_def) linarith
  then show ?thesis unfolding list_all_length length_default word_le_nat_alt by blast
qed

lemma default_valid: "ColumnOptions_is_valid ColumnOptions_default"
  unfolding ColumnOptions_is_valid_def length_default
  using default_sizes_range by (auto simp: SIZE_TIERS_def MAX_ENTRY_SIZE_def COMPRESSED_MASK_def word_le_nat_alt list_all_iff)

text \<open>
  C40: the default options have 255 size tiers, from the smallest to the largest entry size a value
  table accepts and in increasing order, so that they are valid and every value table opens.
\<close>

theorem options_default_tiers:
  "length (co_sizes ColumnOptions_default) = SIZE_TIERS - 1 \<and> sorted (co_sizes ColumnOptions_default) \<and>
   hd (co_sizes ColumnOptions_default) = MIN_ENTRY_SIZE \<and> last (co_sizes ColumnOptions_default) = MAX_ENTRY_SIZE \<and>
   list_all (\<lambda>s. MIN_ENTRY_SIZE \<le> s \<and> s \<le> MAX_ENTRY_SIZE) (co_sizes ColumnOptions_default) \<and>
   ColumnOptions_is_valid ColumnOptions_default"
proof -
  let ?s = "co_sizes ColumnOptions_default"
  have "sorted ?s"
    unfolding sorted_iff_nth_mono length_default word_le_nat_alt
    by (auto simp: unat_default_tier intro!: nat_mono tier_size_mono)
  moreover have "hd ?s = MIN_ENTRY_SIZE" "last ?s = MAX_ENTRY_SIZE"
    using default_tier [of 0] default_tier [of 254]
    by (simp_all add: hd_conv_nth last_conv_nth length_default flip: length_greater_0_conv)
       (simp_all add: tier_size_ends MIN_ENTRY_SIZE_def MAX_ENTRY_SIZE_def)
  ultimately show ?thesis using default_sizes_range default_valid by (simp add: length_default SIZE_TIERS_def)
qed

end
