(* ===== verification/Log_Files.thy ===== *)
theory Log_Files
  imports Log_Record
begin

text \<open>
  The second half of \<open>src/src/log.rs\<close>: the write-ahead log as a pipeline of files. A file is in
  one stage at a time: it is appended to, waits to be flushed, is read and enacted, waits to be
  cleaned, and goes back to the pool; after a restart the files found on disk are replayed first.

  \<open>lg_files\<close> is the directory: the contents of the log files by path. A stage holds a file by its
  number and position. Bytes written through a \<open>BufWriter\<close> are counted as being in the file at once;
  \<open>into_inner\<close>, which empties its buffer, precedes every read. Two waits on the condition variable
  \<open>done_reading_cv\<close> are modelled by \<open>None\<close> (the call waits).
\<close>

section \<open>State\<close>

definition MAX_LOG_POOL_SIZE :: nat where "MAX_LOG_POOL_SIZE = 16"

record Appending =
  ap_id :: u32
  ap_pos :: nat
  ap_size :: u64

record Flushing =
  fl_id :: u32
  fl_pos :: nat

record Reading =
  rd_id :: u32
  rd_pos :: nat

datatype ReadingState = ReadingLog | Idle

record Log =
  lg_overlays :: LogOverlays
  lg_appending :: "Appending option"
  lg_reading :: "Reading option"
  lg_reading_state :: ReadingState
  lg_flushing :: "Flushing option"
  lg_next_record_id :: u64
  lg_dirty :: bool
  lg_log_pool :: "(u32 \<times> nat) list"
  lg_cleanup_queue :: "(u32 \<times> nat) list"
  lg_replay_queue :: "(u32 \<times> u64 \<times> nat) list"
  lg_path :: string
  lg_next_log_id :: u32
  lg_sync :: bool
  lg_files :: "string \<Rightarrow> bytes option"

definition Log_log_path :: "string \<Rightarrow> u32 \<Rightarrow> string" where
  "Log_log_path root id' = root @ ''/log'' @ dec (unat id')"


section \<open>Opening\<close>

text \<open>\<open>open_log_file\<close>: the number of the first record, unless the file is empty.\<close>

definition Log_open_log_file :: "(string \<Rightarrow> bytes option) \<Rightarrow> string \<Rightarrow> u64 option res" where
  "Log_open_log_file files path =
     (case files path of
        None \<Rightarrow> Inl (Err (Io NotFound))
      | Some d \<Rightarrow>
          if length d = 0 then Inr None
          else if length d < 9 then Inl (Err (Io UnexpectedEof))
          else Inr (Some (from_le (slice_of 1 9 d))))"

text \<open>The loop over the directory entries that are files, in the order the directory lists them.\<close>

primrec open_logs ::
    "string \<Rightarrow> string list \<Rightarrow> (u32 \<times> u64 \<times> nat) list \<Rightarrow> u32 \<Rightarrow> (string \<Rightarrow> bytes option)
       \<Rightarrow> ((u32 \<times> u64 \<times> nat) list \<times> u32 \<times> (string \<Rightarrow> bytes option)) res" where
  "open_logs path [] logs max_log_id files = Inr (logs, max_log_id, files)"
| "open_logs path (name # rest) logs max_log_id files =
     (if take 3 name = ''log'' then
        case parse_uint (2 ^ 32) (drop 3 name) of
          None \<Rightarrow> open_logs path rest logs max_log_id files
        | Some n \<Rightarrow>
            let nlog = of_nat n; p = Log_log_path path nlog
            in and_then (Log_open_log_file files p) (\<lambda>r.
                 case r of
                   Some record_id \<Rightarrow>
                     open_logs path rest (logs @ [(nlog, record_id, 0)])
                       (if max_log_id < nlog then nlog else max_log_id) files
                 | None \<Rightarrow> open_logs path rest logs max_log_id (files(p := None)))
      else open_logs path rest logs max_log_id files)"

definition Log_open :: "string \<Rightarrow> bool \<Rightarrow> string list \<Rightarrow> (string \<Rightarrow> bytes option) \<Rightarrow> Log res" where
  "Log_open path sync_wal names files =
     and_then (open_logs path names [] 0 files) (\<lambda>(logs, max_log_id, files).
       let logs = sort_key (\<lambda>(_, record_id, _). record_id) logs;
           next_log_id = (if logs = [] then 0 else max_log_id + 1)
       in Inr \<lparr>lg_overlays = LogOverlays_default, lg_appending = None, lg_reading = None,
               lg_reading_state = Idle, lg_flushing = None, lg_next_record_id = 1, lg_dirty = True,
               lg_log_pool = [], lg_cleanup_queue = [], lg_replay_queue = logs, lg_path = path,
               lg_next_log_id = next_log_id, lg_sync = sync_wal, lg_files = files\<rparr>)"

definition Log_replay_record_id :: "Log \<Rightarrow> u64 option" where
  "Log_replay_record_id lg =
     (case lg_replay_queue lg of [] \<Rightarrow> None | (_, record_id, _) # _ \<Rightarrow> Some record_id)"

definition Log_drop_log :: "Log \<Rightarrow> u32 \<Rightarrow> Log res" where
  "Log_drop_log lg id' =
     (let path = Log_log_path (lg_path lg) id'
      in case lg_files lg path of
           None \<Rightarrow> Inl (Err (Io NotFound))
         | Some _ \<Rightarrow> Inr (lg\<lparr>lg_files := (lg_files lg)(path := None)\<rparr>))"

primrec drop_logs :: "u32 list \<Rightarrow> Log \<Rightarrow> Log res" where
  "drop_logs [] lg = Inr lg"
| "drop_logs (x # xs) lg = and_then (Log_drop_log lg x) (drop_logs xs)"

definition Log_clear_replay_logs :: "Log \<Rightarrow> Log res" where
  "Log_clear_replay_logs lg =
     (let id' = map_option rd_id (lg_reading lg);
          lg = lg\<lparr>lg_reading := None\<rparr>
      in and_then (case id' of Some i \<Rightarrow> Log_drop_log lg i | None \<Rightarrow> Inr lg) (\<lambda>lg.
           let replay_logs = lg_replay_queue lg;
               lg = lg\<lparr>lg_replay_queue := []\<rparr>
           in and_then (drop_logs (map fst replay_logs) lg) (\<lambda>lg.
                Inr (lg\<lparr>lg_overlays := LogOverlays_default, lg_reading_state := Idle, lg_dirty := False\<rparr>))))"


section \<open>Writing records\<close>

definition Log_begin_record :: "Log \<Rightarrow> LogWriter \<times> Log" where
  "Log_begin_record lg =
     (let id' = lg_next_record_id lg
      in (LogWriter_new (lg_overlays lg) id', lg\<lparr>lg_next_record_id := id' + 1\<rparr>))"

definition write_bytes :: "nat \<Rightarrow> bytes \<Rightarrow> bytes \<Rightarrow> bytes" where
  "write_bytes pos bs d =
     take pos (d @ replicate (pos - length d) 0) @ bs @ drop (pos + length bs) d"

text \<open>\<open>overlays.index.entry(id).or_default().map.extend(overlay)\<close> for every table of the record.\<close>

definition extend_overlays :: "('t, ('k, 'v) hmap) hmap \<Rightarrow> ('t, ('k, 'v) hmap) hmap \<Rightarrow> ('t, ('k, 'v) hmap) hmap" where
  "extend_overlays m new =
     fold (\<lambda>(tid, overlay) m. AList.update tid (hm_extend (entry_or_default m tid) overlay) m) new m"

definition Log_end_record :: "(bytes \<Rightarrow> u32) \<Rightarrow> Log \<Rightarrow> LogChange \<Rightarrow> (u64 \<times> Log) res" where
  "Log_end_record crc lg log =
     and_then (ensure (lc_record_id log + 1 = lg_next_record_id lg)
                 (Panic ''assertion failed: log.record_id + 1 == self.next_record_id'')) (\<lambda>_.
       let (appending, lg) =
             (case lg_appending lg of
                Some a \<Rightarrow> (a, lg)
              | None \<Rightarrow>
                  (case lg_log_pool lg of
                     (i, pos) # pool \<Rightarrow>
                       (\<lparr>ap_id = i, ap_pos = pos, ap_size = 0\<rparr>, lg\<lparr>lg_log_pool := pool\<rparr>)
                   | [] \<Rightarrow>
                       let i = lg_next_log_id lg;
                           path = Log_log_path (lg_path lg) i;
                           files = (case lg_files lg path of
                                      None \<Rightarrow> (lg_files lg)(path := Some []) | Some _ \<Rightarrow> lg_files lg)
                       in (\<lparr>ap_id = i, ap_pos = 0, ap_size = 0\<rparr>,
                           lg\<lparr>lg_next_log_id := i + 1, lg_files := files\<rparr>)));
           (d, bytes) = LogChange_to_file crc log;
           path = Log_log_path (lg_path lg) (ap_id appending);
           ov = lg_overlays lg
       in Inr (bytes,
            lg\<lparr>lg_files := (lg_files lg)(path := map_option (write_bytes (ap_pos appending) d) (lg_files lg path)),
               lg_appending := Some (appending\<lparr>ap_pos := ap_pos appending + length d,
                                               ap_size := ap_size appending + bytes\<rparr>),
               lg_overlays := \<lparr>ov_index = extend_overlays (ov_index ov) (lc_local_index log),
                               ov_value = extend_overlays (ov_value ov) (lc_local_values log)\<rparr>,
               lg_dirty := True\<rparr>))"


section \<open>Reading and enacting\<close>

text \<open>One cleared page: it leaves the overlay if it is still the page of this record.\<close>

definition clear_index_page :: "u64 \<Rightarrow> itable_id \<times> u64 \<Rightarrow> (itable_id, IndexLogOverlay) hmap \<Rightarrow> (itable_id, IndexLogOverlay) hmap" where
  "clear_index_page record_id p m =
     (case map_of m (fst p) of
        None \<Rightarrow> m
      | Some overlay \<Rightarrow>
          (case map_of overlay (snd p) of
             Some (r, _, _) \<Rightarrow> if r = record_id then AList.update (fst p) (AList.delete (snd p) overlay) m else m
           | None \<Rightarrow> m))"

definition clear_value_page :: "u64 \<Rightarrow> vtable_id \<times> u64 \<Rightarrow> (vtable_id, ValueLogOverlay) hmap \<Rightarrow> (vtable_id, ValueLogOverlay) hmap" where
  "clear_value_page record_id p m =
     (case map_of m (fst p) of
        None \<Rightarrow> m
      | Some overlay \<Rightarrow>
          (case map_of overlay (snd p) of
             Some (r, _) \<Rightarrow> if r = record_id then AList.update (fst p) (AList.delete (snd p) overlay) m else m
           | None \<Rightarrow> m))"

definition Log_end_read :: "Log \<Rightarrow> Cleared \<Rightarrow> u64 \<Rightarrow> Log" where
  "Log_end_read lg cleared record_id =
     (let lg = (if lg_next_record_id lg \<le> record_id then lg\<lparr>lg_next_record_id := record_id + 1\<rparr> else lg);
          ov = lg_overlays lg;
          index = fold (clear_index_page record_id) (cl_index cleared) (ov_index ov);
          values = fold (clear_value_page record_id) (cl_values cleared) (ov_value ov)
      in lg\<lparr>lg_overlays := \<lparr>ov_index = filter (\<lambda>(_, overlay). overlay \<noteq> []) index, ov_value = values\<rparr>\<rparr>)"

definition Log_flush_one :: "Log \<Rightarrow> u64 \<Rightarrow> ((bool \<times> bool \<times> bool) \<times> Log) option" where
  "Log_flush_one lg min_size =
     (if lg_flushing lg \<noteq> None \<and> lg_reading_state lg = ReadingLog then None
      else
        let (read_next, cleanup, lg) =
              (case lg_flushing lg of
                 None \<Rightarrow> (False, False, lg)
               | Some flushing \<Rightarrow>
                   let (cleanup, lg) =
                         (case lg_reading lg of
                            Some reading \<Rightarrow>
                              (True, lg\<lparr>lg_cleanup_queue := lg_cleanup_queue lg @ [(rd_id reading, rd_pos reading)],
                                        lg_reading := None, lg_reading_state := Idle\<rparr>)
                          | None \<Rightarrow> (False, lg))
                   in (True, cleanup,
                       lg\<lparr>lg_flushing := None,
                          lg_reading := Some \<lparr>rd_id = fl_id flushing, rd_pos = 0\<rparr>,
                          lg_reading_state := ReadingLog\<rparr>));
            cur_size = (case lg_appending lg of None \<Rightarrow> 0 | Some a \<Rightarrow> ap_size a);
            lg = (if 0 < cur_size \<and> min_size < cur_size
                  then lg\<lparr>lg_appending := None,
                          lg_flushing := map_option (\<lambda>a. \<lparr>fl_id = ap_id a, fl_pos = ap_pos a\<rparr>) (lg_appending lg)\<rparr>
                  else lg)
        in Some ((lg_flushing lg \<noteq> None, read_next, cleanup), lg))"

definition Log_replay_next :: "Log \<Rightarrow> u32 option \<times> Log" where
  "Log_replay_next lg =
     (let lg = (case lg_reading lg of
                  Some reading \<Rightarrow>
                    lg\<lparr>lg_cleanup_queue := lg_cleanup_queue lg @ [(rd_id reading, rd_pos reading)],
                       lg_reading := None\<rparr>
                | None \<Rightarrow> lg)
      in case lg_replay_queue lg of
           (i, _, pos) # rest \<Rightarrow>
             (Some i, lg\<lparr>lg_replay_queue := rest, lg_reading := Some \<lparr>rd_id = i, rd_pos = pos\<rparr>,
                         lg_reading_state := ReadingLog\<rparr>)
         | [] \<Rightarrow> (None, lg\<lparr>lg_reading_state := Idle\<rparr>))"

definition Log_clean_logs :: "Log \<Rightarrow> nat \<Rightarrow> (bool \<times> Log) res" where
  "Log_clean_logs lg count =
     (if length (lg_cleanup_queue lg) < count then Inl (Panic ''range end index out of range'')
      else
        let cleaned = take count (lg_cleanup_queue lg);
            files = fold (\<lambda>(i, _) files.
                       files(Log_log_path (lg_path lg) i := map_option (\<lambda>_. []) (files (Log_log_path (lg_path lg) i))))
                     cleaned (lg_files lg);
            pool = sort_key fst (lg_log_pool lg @ map (\<lambda>(i, _). (i, 0)) cleaned);
            removed = drop MAX_LOG_POOL_SIZE pool;
            lg = lg\<lparr>lg_cleanup_queue := drop count (lg_cleanup_queue lg), lg_files := files,
                    lg_log_pool := take MAX_LOG_POOL_SIZE pool\<rparr>
        in and_then (drop_logs (map fst removed) lg) (\<lambda>lg. Inr (lg_cleanup_queue lg \<noteq> [], lg)))"

definition Log_num_dirty_logs :: "Log \<Rightarrow> nat" where
  "Log_num_dirty_logs lg = length (lg_cleanup_queue lg)"

text \<open>
  \<open>read_next\<close> lends the file that is being read to a \<open>LogReader\<close>; \<open>Log_return_reader\<close> is the end of
  that loan, when the file's position is where the reader left it.
\<close>

definition Log_read_next :: "(bytes \<Rightarrow> u32) \<Rightarrow> Log \<Rightarrow> bool \<Rightarrow> (LogReader option \<times> Log) res" where
  "Log_read_next crc lg validate =
     (if lg_reading_state lg \<noteq> ReadingLog then Inr (None, lg)
      else case lg_reading lg of
        None \<Rightarrow> Inr (None, lg)
      | Some reading \<Rightarrow>
          (case lg_files lg (Log_log_path (lg_path lg) (rd_id reading)) of
             None \<Rightarrow> Inl (Err (Io NotFound))
           | Some d \<Rightarrow>
               (case LogReader_next crc (LogReader_new d (rd_pos reading) validate) of
                  Inr (BeginRecord, reader) \<Rightarrow> Inr (Some reader, lg)
                | Inr (_, _) \<Rightarrow> Inl (Err (Corruption ''Bad log record structure''))
                | Inl (Err (Io UnexpectedEof)) \<Rightarrow> Inr (None, lg\<lparr>lg_reading_state := Idle\<rparr>)
                | Inl e \<Rightarrow> Inl e)))"

definition Log_return_reader :: "Log \<Rightarrow> LogReader \<Rightarrow> Log" where
  "Log_return_reader lg reader =
     lg\<lparr>lg_reading := map_option (\<lambda>r. r\<lparr>rd_pos := lr_pos reader\<rparr>) (lg_reading lg)\<rparr>"

definition Log_kill_logs :: "Log \<Rightarrow> Log res" where
  "Log_kill_logs lg =
     (let pool = lg_log_pool lg;
          lg = lg\<lparr>lg_log_pool := []\<rparr>
      in and_then (drop_logs (map fst pool) lg) (\<lambda>lg.
           case lg_reading lg of
             Some reading \<Rightarrow> Log_drop_log (lg\<lparr>lg_reading := None\<rparr>) (rd_id reading)
           | None \<Rightarrow> Inr lg))"

end
