(* ===== verification/Column_Store.thy ===== *)
theory Column_Store
  imports Column_Stats Db_Options Log_Files
begin

text \<open>
  A column (\<open>src/column.rs\<close>): an index table, the tables of indexes that are being moved to it, and one
  value table per size tier. The external functions are parameters: the codecs of \<open>Compression\<close> and the
  keyed hash \<open>blake2b n key data\<close> of the \<open>blake2-rfc\<close> crate. An operation that changes the column
  (value tables keep their fill marks, \<open>stats\<close> its counters) returns it.

  The index files of the directory that no table has opened are \<open>col_disk\<close>; a table whose map is
  \<open>None\<close> has no file yet.
\<close>

section \<open>State\<close>

definition START_BITS :: u8 where "START_BITS = 16"
definition MAX_REBALANCE_BATCH :: nat where "MAX_REBALANCE_BATCH = 8192"

record Tables =
  tb_index :: IndexTable
  tb_value :: "ValueTable list"

record Reindex =
  rx_queue :: "IndexTable list"
  rx_progress :: u64

record Column =
  col_tables :: Tables
  col_reindex :: Reindex
  col_path :: string
  col_preimage :: bool
  col_uniform_keys :: bool
  col_collect_stats :: bool
  col_ref_counted :: bool
  col_salt :: Salt
  col_stats :: ColumnStats
  col_compression :: Compress
  col_db_version :: u32
  col_disk :: "itable_id \<Rightarrow> disk_file option"

record IterState =
  is_chunk_index :: u64
  is_key :: Key
  is_rc :: u32
  is_value :: bytes

datatype IterStateOrCorrupted = Item IterState | Corrupted IndexEntry "error option"

text \<open>\<open>tables.value[i]\<close>, and the column with that table replaced.\<close>

definition value_at :: "ValueTable list \<Rightarrow> nat \<Rightarrow> ValueTable res" where
  "value_at ts i = (if i < length ts then Inr (ts ! i) else Inl (Panic ''index out of bounds''))"

definition set_value :: "Column \<Rightarrow> nat \<Rightarrow> ValueTable \<Rightarrow> Column" where
  "set_value c i t =
     c\<lparr>col_tables := (col_tables c)\<lparr>tb_value := (tb_value (col_tables c))[i := t]\<rparr>\<rparr>"

definition set_stats :: "Column \<Rightarrow> (ColumnStats \<Rightarrow> ColumnStats) \<Rightarrow> Column" where
  "set_stats c f = (if col_collect_stats c then c\<lparr>col_stats := f (col_stats c)\<rparr> else c)"


section \<open>Opening\<close>

text \<open>\<open>open_index\<close>: the loop over the index bits, from 64 down to \<open>START_BITS\<close>.\<close>

primrec open_indexes ::
    "string \<Rightarrow> (itable_id \<Rightarrow> disk_file option) \<Rightarrow> itable_id list
       \<Rightarrow> IndexTable option \<Rightarrow> IndexTable list \<Rightarrow> ColumnStats
       \<Rightarrow> (IndexTable option \<times> IndexTable list \<times> ColumnStats) res" where
  "open_indexes path disk [] newest reindexing stats = Inr (newest, reindexing, stats)"
| "open_indexes path disk (tid # tids) newest reindexing stats =
     (case IndexTable_open_existing path (disk tid) tid of
        None \<Rightarrow> open_indexes path disk tids newest reindexing stats
      | Some table \<Rightarrow>
          (case newest of
             None \<Rightarrow>
               and_then (IndexTable_load_stats table) (\<lambda>stats.
                 open_indexes path disk tids (Some table) reindexing stats)
           | Some _ \<Rightarrow> open_indexes path disk tids newest (table # reindexing) stats))"

definition Column_open_index ::
    "string \<Rightarrow> ColId \<Rightarrow> (itable_id \<Rightarrow> disk_file option) \<Rightarrow> (IndexTable \<times> IndexTable list \<times> ColumnStats) res" where
  "Column_open_index path col disk =
     and_then (open_indexes path disk
                (map (\<lambda>bits. ITableId_new col (of_nat bits)) (rev [unat START_BITS..<65]))
                None [] ColumnStats_empty)
       (\<lambda>(newest, reindexing, stats).
         let table = (case newest of
                        Some table \<Rightarrow> table
                      | None \<Rightarrow> IndexTable_create_new path (ITableId_new col START_BITS))
         in Inr (table, reindexing, stats))"

definition Column_open_table ::
    "string \<Rightarrow> ColId \<Rightarrow> u8 \<Rightarrow> ColumnOptions \<Rightarrow> u32 \<Rightarrow> (vtable_id \<Rightarrow> disk_file option) \<Rightarrow> ValueTable res" where
  "Column_open_table path col tier options db_version disk =
     (let tid = VTableId_new col tier;
          entry_size = (if unat tier < length (co_sizes options) then Some (co_sizes options ! unat tier)
                        else None)
      in ValueTable_open path (disk tid) tid entry_size (co_ref_counted options) db_version)"

primrec open_tables ::
    "string \<Rightarrow> ColId \<Rightarrow> ColumnOptions \<Rightarrow> u32 \<Rightarrow> (vtable_id \<Rightarrow> disk_file option) \<Rightarrow> nat list
       \<Rightarrow> ValueTable list res" where
  "open_tables path col options db_version disk [] = Inr []"
| "open_tables path col options db_version disk (i # is) =
     and_then (Column_open_table path col (of_nat i) options db_version disk) (\<lambda>t.
     and_then (open_tables path col options db_version disk is) (\<lambda>ts. Inr (t # ts)))"

definition Column_open ::
    "ColId \<Rightarrow> Options \<Rightarrow> Metadata \<Rightarrow> (itable_id \<Rightarrow> disk_file option) \<Rightarrow> (vtable_id \<Rightarrow> disk_file option)
       \<Rightarrow> Column res" where
  "Column_open col options metadata index_disk value_disk =
     and_then (Column_open_index (op_path options) col index_disk) (\<lambda>(index, reindexing, stats).
       let collect_stats = op_stats options;
           path = op_path options
       in if length (md_columns metadata) \<le> unat col then Inl (Panic ''index out of bounds'')
          else
            let options = md_columns metadata ! unat col;
                db_version = md_version metadata
            in and_then (open_tables path col options db_version value_disk
                          [0..<length (co_sizes options) + 1]) (\<lambda>tables.
                 Inr \<lparr>col_tables = \<lparr>tb_index = index, tb_value = tables\<rparr>,
                      col_reindex = \<lparr>rx_queue = reindexing, rx_progress = 0\<rparr>,
                      col_path = path, col_preimage = co_preimage options,
                      col_uniform_keys = co_uniform options, col_collect_stats = collect_stats,
                      col_ref_counted = co_ref_counted options, col_salt = md_salt metadata,
                      col_stats = stats,
                      col_compression = Compress_new (co_compression options) (co_compression_treshold options),
                      col_db_version = db_version,
                      col_disk = (\<lambda>tid. if START_BITS \<le> ITableId_index_bits tid \<and> ITableId_index_bits tid < 65
                                        then None else index_disk tid)\<rparr>))"


section \<open>Keys\<close>

definition Column_hash :: "(nat \<Rightarrow> bytes \<Rightarrow> bytes \<Rightarrow> bytes) \<Rightarrow> Column \<Rightarrow> bytes \<Rightarrow> Key res" where
  "Column_hash blake2b c key =
     (if col_uniform_keys c then
        if length key < 32 then Inl (Panic ''range end index 32 out of range for slice'')
        else Inr (slice_of 0 32 key)
      else Inr (blake2b 32 (col_salt c) key))"


section \<open>Reading\<close>

definition Column_decompress :: "Codecs \<Rightarrow> Column \<Rightarrow> bytes \<Rightarrow> bytes res" where
  "Column_decompress cd c buf = Compress_decompress cd (col_compression c) buf"

text \<open>
  The loop of \<open>get_in_index\<close>. The position in the chunk grows with every iteration, so that
  \<open>CHUNK_ENTRIES + 1\<close> iterations are enough.
\<close>

primrec get_in_index_loop ::
    "nat \<Rightarrow> Codecs \<Rightarrow> Column \<Rightarrow> Key \<Rightarrow> IndexTable \<Rightarrow> LogQuery \<Rightarrow> IndexEntry \<Rightarrow> nat \<Rightarrow> (u8 \<times> bytes) option res" where
  "get_in_index_loop 0 cd c key index lg entry sub_index = Inl Diverge"
| "get_in_index_loop (Suc n) cd c key index lg entry sub_index =
     (if IndexEntry_is_empty entry then Inr None
      else
        let address = IndexEntry_address entry (ITableId_index_bits (it_id index));
            size_tier = Address_size_tier address
        in and_then (value_at (tb_value (col_tables c)) (unat size_tier)) (\<lambda>t.
           and_then (ValueTable_get t key (Address_offset address) lg) (\<lambda>r.
             case r of
               Some (val, compressed) \<Rightarrow>
                 and_then (if compressed then Column_decompress cd c val else Inr val) (\<lambda>val.
                   Inr (Some (size_tier, val)))
             | None \<Rightarrow>
                 and_then (IndexTable_get index key (sub_index + 1) lg) (\<lambda>(next_entry, next_index).
                   get_in_index_loop n cd c key index lg next_entry next_index))))"

definition Column_get_in_index ::
    "Codecs \<Rightarrow> Column \<Rightarrow> Key \<Rightarrow> IndexTable \<Rightarrow> LogQuery \<Rightarrow> (u8 \<times> bytes) option res" where
  "Column_get_in_index cd c key index lg =
     and_then (IndexTable_get index key 0 lg) (\<lambda>(entry, sub_index).
       get_in_index_loop (CHUNK_ENTRIES + 1) cd c key index lg entry sub_index)"

primrec get_in_indexes ::
    "Codecs \<Rightarrow> Column \<Rightarrow> Key \<Rightarrow> LogQuery \<Rightarrow> IndexTable list \<Rightarrow> (u8 \<times> bytes) option res" where
  "get_in_indexes cd c key lg [] = Inr None"
| "get_in_indexes cd c key lg (index # rest) =
     and_then (Column_get_in_index cd c key index lg) (\<lambda>r.
       case r of Some x \<Rightarrow> Inr (Some x) | None \<Rightarrow> get_in_indexes cd c key lg rest)"

definition Column_get :: "Codecs \<Rightarrow> Column \<Rightarrow> Key \<Rightarrow> LogQuery \<Rightarrow> (bytes option \<times> Column) res" where
  "Column_get cd c key lg =
     and_then (Column_get_in_index cd c key (tb_index (col_tables c)) lg) (\<lambda>r.
       case r of
         Some (tier, val) \<Rightarrow> Inr (Some val, set_stats c (\<lambda>s. ColumnStats_query_hit s tier))
       | None \<Rightarrow>
           and_then (get_in_indexes cd c key lg (rx_queue (col_reindex c))) (\<lambda>r.
             case r of
               Some (tier, val) \<Rightarrow> Inr (Some val, set_stats c (\<lambda>s. ColumnStats_query_hit s tier))
             | None \<Rightarrow> Inr (None, set_stats c ColumnStats_query_miss)))"

definition Column_get_size :: "Codecs \<Rightarrow> Column \<Rightarrow> Key \<Rightarrow> LogQuery \<Rightarrow> (u32 option \<times> Column) res" where
  "Column_get_size cd c key lg =
     and_then (Column_get cd c key lg) (\<lambda>(v, c). Inr (map_option (\<lambda>v. of_nat (length v)) v, c))"


section \<open>Choosing a table\<close>

definition Column_compress_internal ::
    "Codecs \<Rightarrow> Compress \<Rightarrow> Key \<Rightarrow> bytes \<Rightarrow> Tables \<Rightarrow> (bytes option \<times> nat) res" where
  "Column_compress_internal cd compression key val tables =
     and_then
       (if unat (cm_treshold compression) < length val then
          and_then (Compress_compress cd compression val) (\<lambda>cvalue.
            if length cvalue < length val then Inr (length cvalue, Some cvalue)
            else Inr (length val, None))
        else Inr (length val, None))
       (\<lambda>(len, result).
         let target_tier =
               (case List.find (\<lambda>i. len \<le> unat (ValueTable_value_size (tb_value tables ! i)))
                       [0..<length (tb_value tables)] of
                  Some tier \<Rightarrow> tier
                | None \<Rightarrow> length (tb_value tables) - 1)
         in Inr (result, target_tier))"

definition Column_compress :: "Codecs \<Rightarrow> Column \<Rightarrow> Key \<Rightarrow> bytes \<Rightarrow> (bytes option \<times> nat) res" where
  "Column_compress cd c key val = Column_compress_internal cd (col_compression c) key val (col_tables c)"


section \<open>Searching\<close>

primrec search_index_loop ::
    "nat \<Rightarrow> Key \<Rightarrow> IndexTable \<Rightarrow> ValueTable list \<Rightarrow> LogQuery \<Rightarrow> IndexEntry \<Rightarrow> nat
       \<Rightarrow> (IndexTable \<times> nat \<times> u8 \<times> Address) option res" where
  "search_index_loop 0 key index tables lg existing_entry sub_index = Inl Diverge"
| "search_index_loop (Suc n) key index tables lg existing_entry sub_index =
     (if IndexEntry_is_empty existing_entry then Inr None
      else
        let existing_address = IndexEntry_address existing_entry (ITableId_index_bits (it_id index));
            existing_tier = Address_size_tier existing_address
        in and_then (value_at tables (unat existing_tier)) (\<lambda>t.
           and_then (ValueTable_has_key_at t (Address_offset existing_address) key lg) (\<lambda>found.
             if found then Inr (Some (index, sub_index, existing_tier, existing_address))
             else
               and_then (IndexTable_get index key (sub_index + 1) lg) (\<lambda>(next_entry, next_index).
                 search_index_loop n key index tables lg next_entry next_index))))"

definition Column_search_index ::
    "Key \<Rightarrow> IndexTable \<Rightarrow> Tables \<Rightarrow> LogWriter \<Rightarrow> (IndexTable \<times> nat \<times> u8 \<times> Address) option res" where
  "Column_search_index key index tables lg =
     and_then (IndexTable_get index key 0 (LogWriter_query lg)) (\<lambda>(existing_entry, sub_index).
       search_index_loop (CHUNK_ENTRIES + 1) key index (tb_value tables) (LogWriter_query lg)
         existing_entry sub_index)"

primrec search_indexes ::
    "Key \<Rightarrow> Tables \<Rightarrow> LogWriter \<Rightarrow> IndexTable list \<Rightarrow> (IndexTable \<times> nat \<times> u8 \<times> Address) option res" where
  "search_indexes key tables lg [] = Inr None"
| "search_indexes key tables lg (index # rest) =
     and_then (Column_search_index key index tables lg) (\<lambda>r.
       case r of Some x \<Rightarrow> Inr (Some x) | None \<Rightarrow> search_indexes key tables lg rest)"

definition Column_search_all_indexes ::
    "Key \<Rightarrow> Tables \<Rightarrow> Reindex \<Rightarrow> LogWriter \<Rightarrow> (IndexTable \<times> nat \<times> u8 \<times> Address) option res" where
  "Column_search_all_indexes key tables reindex lg =
     and_then (Column_search_index key (tb_index tables) tables lg) (\<lambda>r.
       case r of Some x \<Rightarrow> Inr (Some x) | None \<Rightarrow> search_indexes key tables lg (rx_queue reindex))"

definition Column_trigger_reindex :: "Column \<Rightarrow> Column" where
  "Column_trigger_reindex c =
     (let tables = col_tables c;
          reindex = col_reindex c;
          old_table = tb_index tables;
          new_index_id = ITableId_new (ITableId_col (it_id old_table)) (ITableId_index_bits (it_id old_table) + 1);
          new_table = IndexTable_create_new (col_path c) new_index_id
      in c\<lparr>col_tables := tables\<lparr>tb_index := new_table\<rparr>,
           col_reindex := reindex\<lparr>rx_queue := rx_queue reindex @ [old_table]\<rparr>\<rparr>)"



section \<open>Planning\<close>

text \<open>
  The recursion of \<open>write_reindex_plan\<close> and \<open>write_plan\<close> after \<open>trigger_reindex\<close> meets an index table
  with one more bit every time. The first argument bounds it by the number of table numbers.
\<close>

definition reindex_limit :: nat where
  "reindex_limit = 256"

primrec reindex_plan_loop ::
    "nat \<Rightarrow> Column \<Rightarrow> Key \<Rightarrow> Address \<Rightarrow> LogWriter \<Rightarrow> (PlanOutcome \<times> Column \<times> LogWriter) res" where
  "reindex_plan_loop 0 c key address lg = Inl Diverge"
| "reindex_plan_loop (Suc n) c key address lg =
     and_then (Column_search_index key (tb_index (col_tables c)) (col_tables c) lg) (\<lambda>found.
       if found \<noteq> None then Inr (Skipped, c, lg)
       else
         and_then (IndexTable_write_insert_plan (tb_index (col_tables c)) key address None lg)
           (\<lambda>(outcome, lg).
             case outcome of
               NeedReindex \<Rightarrow>
                 and_then (reindex_plan_loop n (Column_trigger_reindex c) key address lg)
                   (\<lambda>(_, c, lg). Inr (NeedReindex, c, lg))
             | _ \<Rightarrow> Inr (Written, c, lg)))"

definition Column_write_reindex_plan ::
    "Column \<Rightarrow> Key \<Rightarrow> Address \<Rightarrow> LogWriter \<Rightarrow> (PlanOutcome \<times> Column \<times> LogWriter) res" where
  "Column_write_reindex_plan c key address lg = reindex_plan_loop reindex_limit c key address lg"

text \<open>
  The size of a stored value as it is stored and decompressed, which is what the statistics count.
  \<open>expect\<close> panics when \<open>get\<close> does not find what \<open>size\<close> found.
\<close>

definition stored_sizes ::
    "Codecs \<Rightarrow> Column \<Rightarrow> ValueTable \<Rightarrow> Key \<Rightarrow> u64 \<Rightarrow> LogQuery \<Rightarrow> (u32 \<times> u32) res" where
  "stored_sizes cd c t key offset lg =
     and_then (ValueTable_size t key offset lg) (\<lambda>r.
       let (cur_size, compressed) = (case r of Some x \<Rightarrow> x | None \<Rightarrow> (0, False))
       in if compressed then
            and_then (ValueTable_get t key offset lg) (\<lambda>r.
            and_then (expect ''Same query as size'' r) (\<lambda>(compressed, _).
            and_then (Column_decompress cd c compressed) (\<lambda>uncompressed.
              Inr (cur_size, of_nat (length uncompressed)))))
          else Inr (cur_size, cur_size))"

text \<open>\<open>write_plan\<close> of a value for a key that is stored at \<open>existing_address\<close>.\<close>

definition write_existing ::
    "Codecs \<Rightarrow> Column \<Rightarrow> Key \<Rightarrow> bytes \<Rightarrow> IndexTable \<times> nat \<times> u8 \<times> Address \<Rightarrow> LogWriter
       \<Rightarrow> (PlanOutcome \<times> Column \<times> LogWriter) res" where
  "write_existing cd c key val existing lg =
     (let (table, sub_index, existing_tier, existing_address) = existing;
          existing_tier = unat existing_tier;
          offset = Address_offset existing_address
      in and_then (value_at (tb_value (col_tables c)) existing_tier) (\<lambda>et.
         if col_ref_counted c then
           and_then (ValueTable_write_inc_ref et offset lg) (\<lambda>lg. Inr (Written, c, lg))
         else if col_preimage c then Inr (Skipped, c, lg)
         else
           and_then (Column_compress cd c key val) (\<lambda>(cval, target_tier).
             let (cval, compressed) = (case cval of Some v \<Rightarrow> (v, True) | None \<Rightarrow> (val, False))
             in and_then
                  (if col_collect_stats c then
                     and_then (stored_sizes cd c et key offset (LogWriter_query lg)) (\<lambda>(cur_size, uncompressed).
                       Inr (set_stats c (\<lambda>s. ColumnStats_replace_val s cur_size uncompressed
                              (of_nat (length val)) (of_nat (length cval)))))
                   else Inr c)
                  (\<lambda>c.
                if existing_tier = target_tier then
                  and_then (ValueTable_write_replace_plan et offset key cval lg compressed) (\<lambda>(t, lg).
                    Inr (Written, set_value c target_tier t, lg))
                else
                  and_then (ValueTable_write_remove_plan et offset lg) (\<lambda>(t, lg).
                    let c = set_value c existing_tier t
                    in and_then (value_at (tb_value (col_tables c)) target_tier) (\<lambda>tt.
                       and_then (ValueTable_write_insert_plan tt key cval lg compressed)
                         (\<lambda>(new_offset, t, lg).
                           let c = set_value c target_tier t;
                               new_address = Address_new new_offset (of_nat target_tier);
                               index = tb_index (col_tables c);
                               sub_index = (if it_id table = it_id index then Some sub_index else None)
                           in and_then (IndexTable_write_insert_plan index key new_address sub_index lg)
                                (\<lambda>(outcome, lg). Inr (outcome, c, lg))))))))) "

text \<open>The first part of \<open>write_plan\<close> for a key that is not stored: the value and its index entry.\<close>

definition write_new ::
    "Codecs \<Rightarrow> Column \<Rightarrow> Key \<Rightarrow> bytes \<Rightarrow> LogWriter \<Rightarrow> (PlanOutcome \<times> nat \<times> Column \<times> LogWriter) res" where
  "write_new cd c key val lg =
     and_then (Column_compress cd c key val) (\<lambda>(cval, target_tier).
       let (cval, compressed) = (case cval of Some v \<Rightarrow> (v, True) | None \<Rightarrow> (val, False))
       in and_then (value_at (tb_value (col_tables c)) target_tier) (\<lambda>tt.
          and_then (ValueTable_write_insert_plan tt key cval lg compressed) (\<lambda>(offset, t, lg).
            let c = set_value c target_tier t;
                address = Address_new offset (of_nat target_tier)
            in and_then (IndexTable_write_insert_plan (tb_index (col_tables c)) key address None lg)
                 (\<lambda>(outcome, lg). Inr (outcome, length cval, c, lg)))))"

definition write_removal ::
    "Codecs \<Rightarrow> Column \<Rightarrow> Key \<Rightarrow> IndexTable \<times> nat \<times> u8 \<times> Address \<Rightarrow> LogWriter
       \<Rightarrow> (PlanOutcome \<times> Column \<times> LogWriter) res" where
  "write_removal cd c key existing lg =
     (let (table, sub_index, existing_tier, existing_address) = existing;
          existing_tier = unat existing_tier;
          offset = Address_offset existing_address
      in and_then (value_at (tb_value (col_tables c)) existing_tier) (\<lambda>et.
         and_then (if col_collect_stats c then
                     and_then (stored_sizes cd c et key offset (LogWriter_query lg)) (\<lambda>s. Inr (Some s))
                   else Inr None) (\<lambda>cur_size.
         and_then (if col_ref_counted c then
                     and_then (ValueTable_write_dec_ref et offset lg) (\<lambda>(kept, t, lg). Inr (\<not> kept, t, lg))
                   else
                     and_then (ValueTable_write_remove_plan et offset lg) (\<lambda>(t, lg). Inr (True, t, lg)))
           (\<lambda>(remove, t, lg).
             let c = set_value c existing_tier t
             in if remove then
                  let c = (case cur_size of
                             Some (compressed_size, uncompressed_size) \<Rightarrow>
                               c\<lparr>col_stats := ColumnStats_remove_val (col_stats c) uncompressed_size compressed_size\<rparr>
                           | None \<Rightarrow> c)
                  in and_then (IndexTable_write_remove_plan table key sub_index lg) (\<lambda>(_, lg).
                       Inr (Written, c, lg))
                else Inr (Written, c, lg)))))"

primrec write_plan_loop ::
    "nat \<Rightarrow> Codecs \<Rightarrow> Column \<Rightarrow> Key \<Rightarrow> bytes option \<Rightarrow> LogWriter \<Rightarrow> (PlanOutcome \<times> Column \<times> LogWriter) res" where
  "write_plan_loop 0 cd c key val lg = Inl Diverge"
| "write_plan_loop (Suc n) cd c key val lg =
     and_then (Column_search_all_indexes key (col_tables c) (col_reindex c) lg) (\<lambda>existing.
       case val of
         Some v \<Rightarrow>
           (case existing of
              Some e \<Rightarrow> write_existing cd c key v e lg
            | None \<Rightarrow>
                and_then (write_new cd c key v lg) (\<lambda>(outcome, clen, c, lg).
                  case outcome of
                    NeedReindex \<Rightarrow>
                      and_then (write_plan_loop n cd (Column_trigger_reindex c) key val lg)
                        (\<lambda>(_, c, lg). Inr (NeedReindex, c, lg))
                  | _ \<Rightarrow>
                      Inr (Written, set_stats c (\<lambda>s. ColumnStats_insert_val s (of_nat (length v)) (of_nat clen)), lg)))
       | None \<Rightarrow>
           (case existing of
              Some e \<Rightarrow> write_removal cd c key e lg
            | None \<Rightarrow> Inr (Skipped, set_stats c ColumnStats_remove_miss, lg)))"

definition Column_write_plan ::
    "Codecs \<Rightarrow> Column \<Rightarrow> Key \<Rightarrow> bytes option \<Rightarrow> LogWriter \<Rightarrow> (PlanOutcome \<times> Column \<times> LogWriter) res" where
  "Column_write_plan cd c key val lg = write_plan_loop reindex_limit cd c key val lg"

primrec complete_plans :: "ValueTable list \<Rightarrow> LogWriter \<Rightarrow> ValueTable list \<times> LogWriter" where
  "complete_plans [] lg = ([], lg)"
| "complete_plans (t # ts) lg =
     (let (t, lg) = ValueTable_complete_plan t lg; (ts, lg) = complete_plans ts lg in (t # ts, lg))"

definition Column_complete_plan :: "Column \<Rightarrow> LogWriter \<Rightarrow> Column \<times> LogWriter" where
  "Column_complete_plan c lg =
     (let (ts, lg) = complete_plans (tb_value (col_tables c)) lg;
          c = c\<lparr>col_tables := (col_tables c)\<lparr>tb_value := ts\<rparr>\<rparr>
      in (set_stats c ColumnStats_commit, lg))"


section \<open>Enacting\<close>

definition set_index :: "Column \<Rightarrow> IndexTable \<Rightarrow> Column" where
  "set_index c t = c\<lparr>col_tables := (col_tables c)\<lparr>tb_index := t\<rparr>\<rparr>"

definition set_queue :: "Column \<Rightarrow> IndexTable list \<Rightarrow> Column" where
  "set_queue c q = c\<lparr>col_reindex := (col_reindex c)\<lparr>rx_queue := q\<rparr>\<rparr>"

text \<open>The position of a table in the reindex queue.\<close>

definition queue_position :: "Column \<Rightarrow> itable_id \<Rightarrow> nat option" where
  "queue_position c tid =
     List.find (\<lambda>i. it_id (rx_queue (col_reindex c) ! i) = tid) [0..<length (rx_queue (col_reindex c))]"

definition Column_enact_plan :: "Column \<Rightarrow> LogAction \<Rightarrow> LogReader \<Rightarrow> (Column \<times> LogReader) res" where
  "Column_enact_plan c action lg =
     (case action of
        InsertIndex table index \<Rightarrow>
          if it_id (tb_index (col_tables c)) = table then
            and_then (IndexTable_enact_plan (tb_index (col_tables c)) (col_disk c table) index lg)
              (\<lambda>(t, lg). Inr (set_index c t, lg))
          else (case queue_position c table of
                  Some i \<Rightarrow>
                    and_then (IndexTable_enact_plan (rx_queue (col_reindex c) ! i) (col_disk c table) index lg)
                      (\<lambda>(t, lg). Inr (set_queue c ((rx_queue (col_reindex c))[i := t]), lg))
                | None \<Rightarrow> Inl (Err (Corruption ''Missing table'')))
      | InsertValue table index \<Rightarrow>
          and_then (value_at (tb_value (col_tables c)) (unat (VTableId_size_tier table))) (\<lambda>t.
          and_then (ValueTable_enact_plan t index lg) (\<lambda>(t, lg).
            Inr (set_value c (unat (VTableId_size_tier table)) t, lg)))
      | _ \<Rightarrow> Inl (Panic ''Unexpected log action''))"

text \<open>
  \<open>validate_plan\<close> starts a reindex for every number of bits between the newest index table and the
  missing one. When the missing table is not a later one this goes on until the number of bits is
  met again; the bound is the number of table numbers. The column is returned beside the result:
  the database goes on with it after a record that is not valid.
\<close>

primrec validate_plan_loop :: "nat \<Rightarrow> Column \<Rightarrow> LogAction \<Rightarrow> LogReader \<Rightarrow> LogReader res \<times> Column" where
  "validate_plan_loop 0 c action lg = (Inl Diverge, c)"
| "validate_plan_loop (Suc n) c action lg =
     (case action of
        InsertIndex table index \<Rightarrow>
          if it_id (tb_index (col_tables c)) = table then
            (IndexTable_validate_plan (tb_index (col_tables c)) index lg, c)
          else (case queue_position c table of
                  Some i \<Rightarrow> (IndexTable_validate_plan (rx_queue (col_reindex c) ! i) index lg, c)
                | None \<Rightarrow> validate_plan_loop n (Column_trigger_reindex c) action lg)
      | InsertValue table index \<Rightarrow>
          (and_then (value_at (tb_value (col_tables c)) (unat (VTableId_size_tier table))) (\<lambda>t.
             ValueTable_validate_plan t index lg), c)
      | _ \<Rightarrow> (Inl (Panic ''Unexpected log action''), c))"

definition Column_validate_plan :: "Column \<Rightarrow> LogAction \<Rightarrow> LogReader \<Rightarrow> LogReader res \<times> Column" where
  "Column_validate_plan c action lg = validate_plan_loop reindex_limit c action lg"

primrec refresh_tables :: "ValueTable list \<Rightarrow> ValueTable list res" where
  "refresh_tables [] = Inr []"
| "refresh_tables (t # ts) =
     and_then (ValueTable_refresh_metadata t) (\<lambda>t. and_then (refresh_tables ts) (\<lambda>ts. Inr (t # ts)))"

definition Column_refresh_metadata :: "Column \<Rightarrow> Column res" where
  "Column_refresh_metadata c =
     and_then (refresh_tables (tb_value (col_tables c))) (\<lambda>ts.
       Inr (c\<lparr>col_tables := (col_tables c)\<lparr>tb_value := ts\<rparr>\<rparr>))"

text \<open>\<open>flush\<close>; the flush of a memory map changes nothing that is modelled.\<close>

definition Column_flush :: "Column \<Rightarrow> Column" where
  "Column_flush c =
     c\<lparr>col_tables := (col_tables c)\<lparr>tb_value := map ValueTable_flush (tb_value (col_tables c))\<rparr>\<rparr>"


section \<open>Statistics\<close>

definition Column_write_stats :: "Column \<Rightarrow> string \<Rightarrow> (Column \<times> string) res" where
  "Column_write_stats c writer =
     and_then (IndexTable_write_stats (tb_index (col_tables c)) (col_stats c)) (\<lambda>t.
       Inr (set_index c t,
            ColumnStats_write_summary (col_stats c) writer (ITableId_col (it_id (tb_index (col_tables c))))))"

definition Column_clear_stats :: "Column \<Rightarrow> Column res" where
  "Column_clear_stats c =
     and_then (IndexTable_write_stats (tb_index (col_tables c)) ColumnStats_empty) (\<lambda>t. Inr (set_index c t))"



section \<open>Iterating\<close>

text \<open>
  The closure of \<open>iter_while_inner\<close> is a function \<open>f\<close> threaded with a state. In the branch for preimage
  columns its error is turned into \<open>false\<close>; a panic (of \<open>f\<close> or of the decompression) still ends
  the iteration, which the second part of the threaded state records.
\<close>

definition preimage_item ::
    "Codecs \<Rightarrow> (nat \<Rightarrow> bytes \<Rightarrow> bytes \<Rightarrow> bytes) \<Rightarrow> Column \<Rightarrow> ('s \<Rightarrow> IterStateOrCorrupted \<Rightarrow> bool res \<times> 's)
       \<Rightarrow> 's \<times> fault option \<Rightarrow> u64 \<Rightarrow> u32 \<Rightarrow> bytes \<Rightarrow> bool \<Rightarrow> bool \<times> ('s \<times> fault option)" where
  "preimage_item cd blake2b c f sp index rc val compressed =
     (case (and_then (if compressed then Column_decompress cd c val else Inr val) (\<lambda>val.
            and_then (Column_hash blake2b c (blake2b 32 [] val)) (\<lambda>key. Inr (key, val)))) of
        Inl e \<Rightarrow> (False, (fst sp, Some e))
      | Inr (key, val) \<Rightarrow>
          (case f (fst sp) (Item \<lparr>is_chunk_index = index, is_key = key, is_rc = rc, is_value = val\<rparr>) of
             (Inr go_on, s) \<Rightarrow> (go_on, (s, None))
           | (Inl (Err e), s) \<Rightarrow> (False, (s, None))
           | (Inl e, s) \<Rightarrow> (False, (s, Some e))))"

primrec iter_preimages ::
    "Codecs \<Rightarrow> (nat \<Rightarrow> bytes \<Rightarrow> bytes \<Rightarrow> bytes) \<Rightarrow> Column \<Rightarrow> LogQuery
       \<Rightarrow> ('s \<Rightarrow> IterStateOrCorrupted \<Rightarrow> bool res \<times> 's) \<Rightarrow> ValueTable list \<Rightarrow> 's \<Rightarrow> 's res" where
  "iter_preimages cd blake2b c lg f [] s = Inr s"
| "iter_preimages cd blake2b c lg f (t # ts) s =
     and_then (ValueTable_iter_while t lg (preimage_item cd blake2b c f) (s, None)) (\<lambda>(s, e).
       case e of Some e \<Rightarrow> Inl e | None \<Rightarrow> iter_preimages cd blake2b c lg f ts s)"

text \<open>The address of an entry; databases before version 4 had 4 bits of size tier.\<close>

definition entry_location :: "Column \<Rightarrow> IndexEntry \<Rightarrow> u8 \<times> u64" where
  "entry_location c entry =
     (let bits = ITableId_index_bits (it_id (tb_index (col_tables c)))
      in if 4 \<le> col_db_version c then
           let address = IndexEntry_address entry bits
           in (Address_size_tier address, Address_offset address)
         else
           let addr_bits = bits + 10;
               address = IndexEntry_as_u64 entry AND (shl 1 (unat addr_bits) - 1)
           in (ucast (address AND 0x0f), shr address 4))"

definition iter_entry ::
    "Codecs \<Rightarrow> Column \<Rightarrow> LogQuery \<Rightarrow> ('s \<Rightarrow> IterStateOrCorrupted \<Rightarrow> bool res \<times> 's) \<Rightarrow> bool \<Rightarrow> u64
       \<Rightarrow> IndexEntry \<Rightarrow> 's \<Rightarrow> (bool \<times> 's) res" where
  "iter_entry cd c lg f skip_preimage_indexes chunk entry s =
     (if IndexEntry_is_empty entry then Inr (True, s)
      else
        let (size_tier, offset) = entry_location c entry;
            values = tb_value (col_tables c)
        in if skip_preimage_indexes \<and> col_preimage c \<and> unat size_tier \<noteq> length values - 1 then Inr (True, s)
           else
             and_then (value_at values (unat size_tier)) (\<lambda>t.
               case ValueTable_get_with_meta t offset lg of
                 Inr (Some (val, rc, pk, compressed)) \<Rightarrow>
                   let key = overwrite 6 pk (IndexTable_recover_key_prefix (tb_index (col_tables c)) chunk entry)
                   in and_then (if compressed then Column_decompress cd c val else Inr val) (\<lambda>val.
                        let (r, s) = f s (Item \<lparr>is_chunk_index = chunk, is_key = key, is_rc = rc, is_value = val\<rparr>)
                        in and_then r (\<lambda>go_on. Inr (go_on, s)))
               | Inr None \<Rightarrow>
                   let (r, s) = f s (Corrupted entry None) in and_then r (\<lambda>_. Inr (True, s))
               | Inl (Err e) \<Rightarrow>
                   let (r, s) = f s (Corrupted entry (Some e)) in and_then r (\<lambda>_. Inr (True, s))
               | Inl e \<Rightarrow> Inl e))"

primrec iter_entries ::
    "('s \<Rightarrow> IndexEntry \<Rightarrow> (bool \<times> 's) res) \<Rightarrow> IndexEntry list \<Rightarrow> 's \<Rightarrow> (bool \<times> 's) res" where
  "iter_entries g [] s = Inr (True, s)"
| "iter_entries g (entry # rest) s =
     and_then (g s entry) (\<lambda>(go_on, s). if go_on then iter_entries g rest s else Inr (False, s))"

primrec iter_chunks ::
    "Codecs \<Rightarrow> Column \<Rightarrow> LogQuery \<Rightarrow> ('s \<Rightarrow> IterStateOrCorrupted \<Rightarrow> bool res \<times> 's) \<Rightarrow> bool \<Rightarrow> u64 list \<Rightarrow> 's \<Rightarrow> 's res" where
  "iter_chunks cd c lg f skip [] s = Inr s"
| "iter_chunks cd c lg f skip (chunk # chunks) s =
     and_then (IndexTable_entries (tb_index (col_tables c)) chunk lg) (\<lambda>entries.
     and_then (iter_entries (\<lambda>s entry. iter_entry cd c lg f skip chunk entry s) entries s) (\<lambda>(go_on, s).
       if go_on then iter_chunks cd c lg f skip chunks s else Inr s))"

definition Column_iter_while_inner ::
    "Codecs \<Rightarrow> (nat \<Rightarrow> bytes \<Rightarrow> bytes \<Rightarrow> bytes) \<Rightarrow> Column \<Rightarrow> LogQuery
       \<Rightarrow> ('s \<Rightarrow> IterStateOrCorrupted \<Rightarrow> bool res \<times> 's) \<Rightarrow> u64 \<Rightarrow> bool \<Rightarrow> 's \<Rightarrow> 's res" where
  "Column_iter_while_inner cd blake2b c lg f start_chunk skip_preimage_indexes s =
     and_then (if skip_preimage_indexes \<and> col_preimage c
               then iter_preimages cd blake2b c lg f (butlast (tb_value (col_tables c))) s
               else Inr s) (\<lambda>s.
       iter_chunks cd c lg f skip_preimage_indexes
         (map of_nat [unat start_chunk..<unat (ITableId_total_chunks (it_id (tb_index (col_tables c))))]) s)"

definition Column_iter_while ::
    "Codecs \<Rightarrow> (nat \<Rightarrow> bytes \<Rightarrow> bytes \<Rightarrow> bytes) \<Rightarrow> Column \<Rightarrow> LogQuery \<Rightarrow> ('s \<Rightarrow> IterState \<Rightarrow> bool \<times> 's) \<Rightarrow> 's \<Rightarrow> 's res" where
  "Column_iter_while cd blake2b c lg f s =
     Column_iter_while_inner cd blake2b c lg
       (\<lambda>s state. case state of
          Item item \<Rightarrow> (let (go_on, s) = f s item in (Inr go_on, s))
        | Corrupted _ _ \<Rightarrow> (Inl (Err (Corruption ''Missing indexed value'')), s))
       0 True s"

text \<open>
  \<open>check_from_index\<close> reports through the log. The reports are collected in order; which parts of an
  item are shown depends on the display option.
\<close>

datatype CheckDisplay = DisplayNone | DisplayFull | DisplayShort u64

record CheckOptions =
  ck_column :: "u8 option"
  ck_from :: "u64 option"
  ck_bound :: "u64 option"
  ck_display :: CheckDisplay

definition CheckOptions_new ::
    "u8 option \<Rightarrow> u64 option \<Rightarrow> u64 option \<Rightarrow> bool \<Rightarrow> u64 option \<Rightarrow> CheckOptions" where
  "CheckOptions_new column from' bound display_content truncate_value_display =
     \<lparr>ck_column = column, ck_from = from', ck_bound = bound,
      ck_display = (if display_content then
                      (case truncate_value_display of Some t \<Rightarrow> DisplayShort t | None \<Rightarrow> DisplayFull)
                    else DisplayNone)\<rparr>"

datatype report =
    ReportFull Key u32 bytes
  | ReportShort Key u32 nat bytes
  | ReportCorrupted u64 "error option"

definition check_item :: "CheckOptions \<Rightarrow> report list \<Rightarrow> IterStateOrCorrupted \<Rightarrow> bool res \<times> report list" where
  "check_item p reports state =
     (case state of
        Item i \<Rightarrow>
          if Some (is_chunk_index i) = ck_bound p then (Inr False, reports)
          else
            (Inr True,
             reports @
             (case ck_display p of
                DisplayFull \<Rightarrow> [ReportFull (is_key i) (is_rc i) (is_value i)]
              | DisplayShort t \<Rightarrow>
                  [ReportShort (is_key i) (is_rc i) (length (is_value i))
                     (take (min (unat t) (length (is_value i))) (is_value i))]
              | DisplayNone \<Rightarrow> []))
      | Corrupted entry e \<Rightarrow> (Inr True, reports @ [ReportCorrupted (IndexEntry_as_u64 entry) e]))"

definition Column_check_from_index ::
    "Codecs \<Rightarrow> (nat \<Rightarrow> bytes \<Rightarrow> bytes \<Rightarrow> bytes) \<Rightarrow> Column \<Rightarrow> LogQuery \<Rightarrow> CheckOptions \<Rightarrow> report list res" where
  "Column_check_from_index cd blake2b c lg check_param =
     (let start_chunk = (case ck_from check_param of Some n \<Rightarrow> n | None \<Rightarrow> 0)
      in Column_iter_while_inner cd blake2b c lg (check_item check_param) start_chunk False [])"


section \<open>Moving an index\<close>

text \<open>The entries of one chunk, as the batch of \<open>reindex\<close> has them.\<close>

definition reindex_chunk :: "IndexTable \<Rightarrow> u64 \<Rightarrow> IndexEntry list \<Rightarrow> (Key \<times> Address) list" where
  "reindex_chunk source source_index entries =
     map (\<lambda>entry. (IndexTable_recover_key_prefix source source_index entry,
                   IndexEntry_address entry (ITableId_index_bits (it_id source))))
         (filter (\<lambda>entry. \<not> IndexEntry_is_empty entry) entries)"

function reindex_loop ::
    "IndexTable \<Rightarrow> LogQuery \<Rightarrow> u64 \<Rightarrow> (Key \<times> Address) list \<Rightarrow> (u64 \<times> (Key \<times> Address) list) res" where
  "reindex_loop source lg source_index plan =
     (if source_index < ITableId_total_chunks (it_id source) \<and> length plan < MAX_REBALANCE_BATCH then
        and_then (IndexTable_entries source source_index lg) (\<lambda>entries.
          reindex_loop source lg (source_index + 1) (plan @ reindex_chunk source source_index entries))
      else Inr (source_index, plan))"
  by auto

termination
proof (relation "measure (\<lambda>(source, lg, i, plan). unat (ITableId_total_chunks (it_id source)) - unat i)", goal_cases)
  case (2 source lg source_index plan x)
  then have "unat source_index < unat (ITableId_total_chunks (it_id source))"
    by (simp add: word_less_nat_alt)
  moreover from this have "unat (source_index + 1) = Suc (unat source_index)"
    using unsigned_less [of "ITableId_total_chunks (it_id source)", where 'a = nat]
    by (simp add: unat_add_no_overflow)
  ultimately show ?case by simp
qed simp

declare reindex_loop.simps [simp del]

definition Column_reindex ::
    "Column \<Rightarrow> LogQuery \<Rightarrow> ((itable_id option \<times> (Key \<times> Address) list) \<times> Column) res" where
  "Column_reindex c lg =
     (case rx_queue (col_reindex c) of
        [] \<Rightarrow> Inr ((None, []), c)
      | source # _ \<Rightarrow>
          let progress = rx_progress (col_reindex c);
              total = ITableId_total_chunks (it_id source)
          in if progress \<noteq> total then
               and_then (reindex_loop source lg progress []) (\<lambda>(source_index, plan).
                 Inr ((if source_index = total then Some (it_id source) else None, plan),
                      c\<lparr>col_reindex := (col_reindex c)\<lparr>rx_progress := source_index\<rparr>\<rparr>))
             else Inr ((None, []), c))"

definition Column_drop_index :: "Column \<Rightarrow> itable_id \<Rightarrow> Column res" where
  "Column_drop_index c tid =
     (case rx_queue (col_reindex c) of
        table # rest \<Rightarrow>
          if it_id table = tid then
            let c = c\<lparr>col_reindex := \<lparr>rx_queue = rest, rx_progress = 0\<rparr>\<rparr>;
                disk = (case it_map table of Some m \<Rightarrow> Some m | None \<Rightarrow> col_disk c tid)
            in and_then (IndexTable_drop_file table disk) (\<lambda>disk.
                 Inr (c\<lparr>col_disk := (col_disk c)(tid := disk)\<rparr>))
          else Inr c
      | [] \<Rightarrow> Inr c)"

end
