(* ===== verification/Db_Inner.thy ===== *)
theory Db_Inner
  imports Column_Store
begin

text \<open>
  The database without its threads (\<open>DbInner\<close> of \<open>src/db.rs\<close>): the commit queue and its overlay, the
  log, the columns, and what each background worker does in one round. A round that has to wait for a
  condition variable is \<open>None\<close>. The \<open>work\<close> flags of the condition variables are part of the state.
  What a failed round leaves behind in the tables is not modelled: the error ends the worker, is
  stored by \<open>store_err\<close> and makes every later commit fail.
\<close>

section \<open>State\<close>

text \<open>The external functions.\<close>

record Crates =
  cr_crc32 :: "bytes \<Rightarrow> u32"
  cr_blake2b :: "nat \<Rightarrow> bytes \<Rightarrow> bytes \<Rightarrow> bytes"
  cr_codecs :: Codecs
  cr_hex_encode :: "bytes \<Rightarrow> string"
  cr_hex_decode :: "string \<Rightarrow> bytes option"

definition MAX_COMMIT_QUEUE_BYTES :: nat where "MAX_COMMIT_QUEUE_BYTES = 16 * 1024 * 1024"
definition MAX_LOG_QUEUE_BYTES :: int where "MAX_LOG_QUEUE_BYTES = 128 * 1024 * 1024"
definition MIN_LOG_SIZE :: u64 where "MIN_LOG_SIZE = 64 * 1024 * 1024"
definition KEEP_LOGS :: nat where "KEEP_LOGS = 16"

type_synonym operation = "ColId \<times> Key \<times> bytes option"

record Commit =
  cm_id :: u64
  cm_bytes :: nat
  cm_changeset :: "operation list"

record CommitQueue =
  cq_record_id :: u64
  cq_bytes :: nat
  cq_commits :: "Commit list"

type_synonym commit_overlay = "(Key, u64 \<times> bytes option) hmap"

record DbInner =
  db_columns :: "Column list"
  db_options :: Options
  db_metadata :: Metadata
  db_shutdown :: bool
  db_log :: Log
  db_commit_queue :: CommitQueue
  db_log_worker_wait :: bool
  db_commit_worker_wait :: bool
  db_commit_overlay :: "commit_overlay list"
  db_log_queue :: u64
  db_flush_worker_wait :: bool
  db_cleanup_worker_wait :: bool
  db_last_enacted :: u64
  db_next_reindex :: u64
  db_bg_err :: "error option"
  db_stats_txt :: "string option"

datatype EnableCommitPipelineStages = CommitOverlay | LogOverlay | DbFile | Standard

definition EnableCommitPipelineStages_default :: EnableCommitPipelineStages where
  "EnableCommitPipelineStages_default = Standard"

record InternalOptions =
  io_create :: bool
  io_read_only :: bool
  io_commit_stages :: EnableCommitPipelineStages
  io_skip_check_lock :: bool

text \<open>The directory of a database: its files as they are found when it is opened.\<close>

record Disk =
  dk_exists :: bool
  dk_locked :: bool
  dk_metadata :: "string option"
  dk_index :: "itable_id \<Rightarrow> disk_file option"
  dk_value :: "vtable_id \<Rightarrow> disk_file option"
  dk_names :: "string list"
  dk_logs :: "string \<Rightarrow> bytes option"

definition WaitCondvar_new :: bool where
  "WaitCondvar_new = False"

definition WaitCondvar_signal :: "bool \<Rightarrow> bool" where
  "WaitCondvar_signal work = True"

text \<open>\<open>wait\<close> returns once the flag is set, and clears it; \<open>None\<close> is still waiting.\<close>

definition WaitCondvar_wait :: "bool \<Rightarrow> bool option" where
  "WaitCondvar_wait work = (if work then Some False else None)"


section \<open>Opening\<close>

primrec open_columns :: "Options \<Rightarrow> Metadata \<Rightarrow> Disk \<Rightarrow> nat list \<Rightarrow> Column list res" where
  "open_columns options metadata disk [] = Inr []"
| "open_columns options metadata disk (c # cs) =
     and_then (Column_open (of_nat c) options metadata (dk_index disk) (dk_value disk)) (\<lambda>col.
     and_then (open_columns options metadata disk cs) (\<lambda>cols. Inr (col # cols)))"

definition DbInner_open ::
    "Crates \<Rightarrow> Salt \<Rightarrow> Options \<Rightarrow> InternalOptions \<Rightarrow> Disk \<Rightarrow> (DbInner \<times> Disk) res" where
  "DbInner_open cr random options inner_options disk =
     (let disk = (if io_create inner_options then disk\<lparr>dk_exists := True\<rparr> else disk)
      in if \<not> dk_exists disk then Inl (Err (Io NotFound))
         else if \<not> io_skip_check_lock inner_options \<and> dk_locked disk then Inl (Err (Locked WouldBlock))
         else
           let disk = (if io_skip_check_lock inner_options then disk else disk\<lparr>dk_locked := True\<rparr>)
           in and_then (Options_load_and_validate_metadata (cr_hex_encode cr) (cr_hex_decode cr) random options
                         (io_create inner_options) (dk_metadata disk)) (\<lambda>(metadata, file).
              and_then (Log_open (op_path options) (op_sync_wal options) (dk_names disk) (dk_logs disk)) (\<lambda>lg.
                let last_enacted = (case Log_replay_record_id lg of Some r \<Rightarrow> r | None \<Rightarrow> 2) - 1
                in and_then (open_columns options metadata disk [0..<length (md_columns metadata)]) (\<lambda>columns.
                     Inr (\<lparr>db_columns = columns, db_options = options, db_metadata = metadata,
                           db_shutdown = False, db_log = lg,
                           db_commit_queue = \<lparr>cq_record_id = 0, cq_bytes = 0, cq_commits = []\<rparr>,
                           db_log_worker_wait = WaitCondvar_new, db_commit_worker_wait = WaitCondvar_new,
                           db_commit_overlay = map (\<lambda>_. []) (md_columns metadata), db_log_queue = 0,
                           db_flush_worker_wait = WaitCondvar_new, db_cleanup_worker_wait = WaitCondvar_new,
                           db_last_enacted = last_enacted, db_next_reindex = 1, db_bg_err = None,
                           db_stats_txt = None\<rparr>,
                          disk\<lparr>dk_metadata := file\<rparr>)))))"


section \<open>Reading\<close>

definition column_at :: "DbInner \<Rightarrow> ColId \<Rightarrow> Column res" where
  "column_at d col =
     (if unat col < length (db_columns d) then Inr (db_columns d ! unat col)
      else Inl (Panic ''index out of bounds''))"

definition set_column :: "DbInner \<Rightarrow> ColId \<Rightarrow> Column \<Rightarrow> DbInner" where
  "set_column d col c = d\<lparr>db_columns := (db_columns d)[unat col := c]\<rparr>"

definition overlay_get :: "DbInner \<Rightarrow> ColId \<Rightarrow> Key \<Rightarrow> bytes option option" where
  "overlay_get d col key =
     (if unat col < length (db_commit_overlay d)
      then map_option snd (map_of (db_commit_overlay d ! unat col) key) else None)"

definition DbInner_get :: "Crates \<Rightarrow> DbInner \<Rightarrow> ColId \<Rightarrow> bytes \<Rightarrow> (bytes option \<times> DbInner) res" where
  "DbInner_get cr d col key =
     and_then (column_at d col) (\<lambda>c.
     and_then (Column_hash (cr_blake2b cr) c key) (\<lambda>key.
       case overlay_get d col key of
         Some v \<Rightarrow> Inr (v, d)
       | None \<Rightarrow>
           and_then (Column_get (cr_codecs cr) c key (LogOverlays_query (lg_overlays (db_log d)))) (\<lambda>(v, c).
             Inr (v, set_column d col c))))"

definition DbInner_get_size :: "Crates \<Rightarrow> DbInner \<Rightarrow> ColId \<Rightarrow> bytes \<Rightarrow> (u32 option \<times> DbInner) res" where
  "DbInner_get_size cr d col key =
     and_then (column_at d col) (\<lambda>c.
     and_then (Column_hash (cr_blake2b cr) c key) (\<lambda>key.
       case overlay_get d col key of
         Some v \<Rightarrow> Inr (map_option (\<lambda>v. of_nat (length v)) v, d)
       | None \<Rightarrow>
           and_then (Column_get_size (cr_codecs cr) c key (LogOverlays_query (lg_overlays (db_log d)))) (\<lambda>(v, c).
             Inr (v, set_column d col c))))"


section \<open>Committing\<close>

text \<open>
  The loop of \<open>commit_raw\<close> over the operations: their size, and the overlay of the most recent values.
\<close>

primrec queue_operations ::
    "Metadata \<Rightarrow> u64 \<Rightarrow> operation list \<Rightarrow> nat \<Rightarrow> commit_overlay list \<Rightarrow> (nat \<times> commit_overlay list) res" where
  "queue_operations md record_id [] bytes overlay = Inr (bytes, overlay)"
| "queue_operations md record_id (x # xs) bytes overlay =
     (let (c, k, v) = x;
          i = unat c;
          bytes = bytes + length k + (case v of None \<Rightarrow> 0 | Some v \<Rightarrow> length v)
      in if length (md_columns md) \<le> i then Inl (Panic ''index out of bounds'')
         else if \<not> co_ref_counted (md_columns md ! i) \<or> v \<noteq> None then
           if length overlay \<le> i then Inl (Panic ''index out of bounds'')
           else queue_operations md record_id xs bytes (overlay[i := AList.update k (record_id, v) (overlay ! i)])
         else queue_operations md record_id xs bytes overlay)"

text \<open>\<open>commit_raw\<close> from the check of the background error on.\<close>

definition commit_raw_queue :: "DbInner \<Rightarrow> operation list \<Rightarrow> DbInner res" where
  "commit_raw_queue d commit =
     (case db_bg_err d of
        Some err \<Rightarrow> Inl (Err (Background err))
      | None \<Rightarrow>
          let queue = db_commit_queue d;
              queue = queue\<lparr>cq_record_id := cq_record_id queue + 1\<rparr>;
              record_id = cq_record_id queue + 1
          in and_then (queue_operations (db_metadata d) record_id commit 0 (db_commit_overlay d))
               (\<lambda>(bytes, overlay).
                 Inr (d\<lparr>db_commit_overlay := overlay,
                        db_commit_queue := queue\<lparr>cq_commits := cq_commits queue @
                            [\<lparr>cm_id = record_id, cm_bytes = bytes, cm_changeset = commit\<rparr>],
                          cq_bytes := cq_bytes queue + bytes\<rparr>,
                        db_log_worker_wait := WaitCondvar_signal (db_log_worker_wait d)\<rparr>)))"

text \<open>
  \<open>commit_raw\<close> waits once when the queue is over its limit. \<open>woken\<close> says that it has been woken up.
\<close>

definition DbInner_commit_raw :: "DbInner \<Rightarrow> operation list \<Rightarrow> bool \<Rightarrow> DbInner res option" where
  "DbInner_commit_raw d commit woken =
     (if MAX_COMMIT_QUEUE_BYTES < cq_bytes (db_commit_queue d) \<and> \<not> woken then None
      else Some (commit_raw_queue d commit))"

primrec hash_operations ::
    "Crates \<Rightarrow> DbInner \<Rightarrow> (ColId \<times> bytes \<times> bytes option) list \<Rightarrow> operation list res" where
  "hash_operations cr d [] = Inr []"
| "hash_operations cr d (x # xs) =
     (let (c, k, v) = x
      in and_then (column_at d c) (\<lambda>col.
         and_then (Column_hash (cr_blake2b cr) col k) (\<lambda>k.
         and_then (hash_operations cr d xs) (\<lambda>xs. Inr ((c, k, v) # xs)))))"

definition DbInner_commit ::
    "Crates \<Rightarrow> DbInner \<Rightarrow> (ColId \<times> bytes \<times> bytes option) list \<Rightarrow> bool \<Rightarrow> DbInner res option" where
  "DbInner_commit cr d tx woken =
     (case hash_operations cr d tx of
        Inl e \<Rightarrow> Some (Inl e)
      | Inr commit \<Rightarrow> DbInner_commit_raw d commit woken)"


section \<open>Logging commits\<close>

primrec write_operations ::
    "Codecs \<Rightarrow> operation list \<Rightarrow> bool \<Rightarrow> Column list \<Rightarrow> LogWriter \<Rightarrow> (bool \<times> Column list \<times> LogWriter) res" where
  "write_operations cd [] reindex cols writer = Inr (reindex, cols, writer)"
| "write_operations cd (x # xs) reindex cols writer =
     (let (c, key, val) = x; i = unat c
      in if length cols \<le> i then Inl (Panic ''index out of bounds'')
         else
           and_then (Column_write_plan cd (cols ! i) key val writer) (\<lambda>(outcome, col, writer).
             write_operations cd xs (reindex \<or> outcome = NeedReindex) (cols[i := col]) writer))"

primrec complete_columns :: "Column list \<Rightarrow> LogWriter \<Rightarrow> Column list \<times> LogWriter" where
  "complete_columns [] writer = ([], writer)"
| "complete_columns (c # cs) writer =
     (let (c, writer) = Column_complete_plan c writer; (cs, writer) = complete_columns cs writer
      in (c # cs, writer))"

text \<open>A key leaves the overlay if its value is still the one of this commit.\<close>

definition clean_overlay :: "u64 \<Rightarrow> operation \<Rightarrow> commit_overlay list \<Rightarrow> commit_overlay list" where
  "clean_overlay cid x overlay =
     (let (c, key, _) = x; i = unat c
      in case map_of (overlay ! i) key of
           Some (r, _) \<Rightarrow> if r = cid then overlay[i := AList.delete key (overlay ! i)] else overlay
         | None \<Rightarrow> overlay)"

definition DbInner_start_reindex :: "DbInner \<Rightarrow> u64 \<Rightarrow> DbInner" where
  "DbInner_start_reindex d record_id = d\<lparr>db_next_reindex := record_id\<rparr>"

definition process_commit :: "Crates \<Rightarrow> DbInner \<Rightarrow> Commit \<Rightarrow> DbInner res" where
  "process_commit cr d commit =
     (let (writer, lg) = Log_begin_record (db_log d)
      in and_then (write_operations (cr_codecs cr) (cm_changeset commit) False (db_columns d) writer)
           (\<lambda>(reindex, cols, writer).
             let (cols, writer) = complete_columns cols writer;
                 record_id = LogWriter_record_id writer
             in and_then (Log_end_record (cr_crc32 cr) lg (LogWriter_drain writer)) (\<lambda>(bytes, lg).
                  let d = d\<lparr>db_columns := cols, db_log := lg,
                            db_log_queue := db_log_queue d + bytes,
                            db_flush_worker_wait := WaitCondvar_signal (db_flush_worker_wait d),
                            db_commit_overlay := fold (clean_overlay (cm_id commit)) (cm_changeset commit)
                                                   (db_commit_overlay d)\<rparr>
                  in Inr (if reindex then DbInner_start_reindex d record_id else d))))"

definition DbInner_process_commits :: "Crates \<Rightarrow> DbInner \<Rightarrow> (bool \<times> DbInner) res option" where
  "DbInner_process_commits cr d =
     (if \<not> db_shutdown d \<and> MAX_LOG_QUEUE_BYTES < sint (db_log_queue d) then None
      else
        case cq_commits (db_commit_queue d) of
          [] \<Rightarrow> Some (Inr (False, d))
        | commit # rest \<Rightarrow>
            let queue = db_commit_queue d;
                d = d\<lparr>db_commit_queue := queue\<lparr>cq_commits := rest, cq_bytes := cq_bytes queue - cm_bytes commit\<rparr>\<rparr>
            in Some (and_then (process_commit cr d commit) (\<lambda>d. Inr (True, d))))"



section \<open>Logging a reindex\<close>

primrec write_batch ::
    "(Key \<times> Address) list \<Rightarrow> bool \<Rightarrow> Column \<Rightarrow> LogWriter \<Rightarrow> (bool \<times> Column \<times> LogWriter) res" where
  "write_batch [] next_reindex column writer = Inr (next_reindex, column, writer)"
| "write_batch (x # xs) next_reindex column writer =
     and_then (Column_write_reindex_plan column (fst x) (snd x) writer) (\<lambda>(outcome, column, writer).
       write_batch xs (next_reindex \<or> outcome = NeedReindex) column writer)"

definition reindex_record ::
    "Crates \<Rightarrow> DbInner \<Rightarrow> nat \<Rightarrow> itable_id option \<Rightarrow> (Key \<times> Address) list \<Rightarrow> DbInner res" where
  "reindex_record cr d i drop_index batch =
     (let (writer, lg) = Log_begin_record (db_log d)
      in and_then (write_batch batch False (db_columns d ! i) writer) (\<lambda>(next_reindex, column, writer).
           let writer = (case drop_index of Some table \<Rightarrow> LogWriter_drop_table writer table | None \<Rightarrow> writer);
               record_id = LogWriter_record_id writer
           in and_then (Log_end_record (cr_crc32 cr) lg (LogWriter_drain writer)) (\<lambda>(bytes, lg).
                let d = d\<lparr>db_columns := (db_columns d)[i := column], db_log := lg,
                          db_log_queue := db_log_queue d + bytes\<rparr>;
                    d = (if next_reindex then DbInner_start_reindex d record_id else d)
                in Inr (d\<lparr>db_flush_worker_wait := WaitCondvar_signal (db_flush_worker_wait d)\<rparr>))))"

text \<open>The loop over the columns stops at the first one that has something to move.\<close>

primrec reindex_columns :: "Crates \<Rightarrow> DbInner \<Rightarrow> nat list \<Rightarrow> (bool \<times> DbInner) res" where
  "reindex_columns cr d [] = Inr (False, d\<lparr>db_next_reindex := 0\<rparr>)"
| "reindex_columns cr d (i # is) =
     and_then (Column_reindex (db_columns d ! i) (LogOverlays_query (lg_overlays (db_log d))))
       (\<lambda>((drop_index, batch), column).
         let d = d\<lparr>db_columns := (db_columns d)[i := column]\<rparr>
         in if batch \<noteq> [] \<or> drop_index \<noteq> None then
              and_then (reindex_record cr d i drop_index batch) (\<lambda>d. Inr (True, d))
            else reindex_columns cr d is)"

definition DbInner_process_reindex :: "Crates \<Rightarrow> DbInner \<Rightarrow> (bool \<times> DbInner) res" where
  "DbInner_process_reindex cr d =
     (let next_reindex = db_next_reindex d
      in if next_reindex = 0 \<or> db_last_enacted d < next_reindex then Inr (False, d)
         else reindex_columns cr d [0..<length (db_columns d)])"


section \<open>Enacting\<close>

text \<open>
  The validation of a record: \<open>Inr (Some reader)\<close> at its end, \<open>Inr None\<close> when it is not valid. Every
  action takes at least one byte, so that the bytes left in the file bound both loops.
\<close>

definition validate_action ::
    "Column list \<Rightarrow> ColId \<Rightarrow> LogAction \<Rightarrow> LogReader \<Rightarrow> LogReader res \<times> Column list" where
  "validate_action cols col action reader =
     (if length cols \<le> unat col then (Inl (Panic ''index out of bounds''), cols)
      else let (r, c) = Column_validate_plan (cols ! unat col) action reader in (r, cols[unat col := c]))"

primrec validate_record ::
    "nat \<Rightarrow> Crates \<Rightarrow> Column list \<Rightarrow> LogReader \<Rightarrow> LogReader option res \<times> Column list" where
  "validate_record 0 cr cols reader = (Inl Diverge, cols)"
| "validate_record (Suc n) cr cols reader =
     (case LogReader_next (cr_crc32 cr) reader of
        Inl (Err e) \<Rightarrow> (Inr None, cols)
      | Inl e \<Rightarrow> (Inl e, cols)
      | Inr (action, reader) \<Rightarrow>
          (case action of
             BeginRecord \<Rightarrow> (Inr None, cols)
           | EndRecord \<Rightarrow> (Inr (Some reader), cols)
           | InsertIndex table _ \<Rightarrow>
               (case validate_action cols (ITableId_col table) action reader of
                  (Inr reader, cols) \<Rightarrow> validate_record n cr cols reader
                | (Inl (Err e), cols) \<Rightarrow> (Inr None, cols)
                | (Inl e, cols) \<Rightarrow> (Inl e, cols))
           | InsertValue table _ \<Rightarrow>
               (case validate_action cols (VTableId_col table) action reader of
                  (Inr reader, cols) \<Rightarrow> validate_record n cr cols reader
                | (Inl (Err e), cols) \<Rightarrow> (Inr None, cols)
                | (Inl e, cols) \<Rightarrow> (Inl e, cols))
           | DropTable _ \<Rightarrow> validate_record n cr cols reader))"

definition enact_action ::
    "Column list \<Rightarrow> ColId \<Rightarrow> LogAction \<Rightarrow> LogReader \<Rightarrow> (Column list \<times> LogReader) res" where
  "enact_action cols col action reader =
     (if length cols \<le> unat col then Inl (Panic ''index out of bounds'')
      else and_then (Column_enact_plan (cols ! unat col) action reader) (\<lambda>(c, reader).
             Inr (cols[unat col := c], reader)))"

primrec enact_record ::
    "nat \<Rightarrow> Crates \<Rightarrow> Column list \<Rightarrow> u64 \<Rightarrow> LogReader \<Rightarrow> (Column list \<times> u64 \<times> LogReader) res" where
  "enact_record 0 cr cols next_reindex reader = Inl Diverge"
| "enact_record (Suc n) cr cols next_reindex reader =
     and_then (LogReader_next (cr_crc32 cr) reader) (\<lambda>(action, reader).
       case action of
         BeginRecord \<Rightarrow> Inl (Err (Corruption ''Bad log record''))
       | EndRecord \<Rightarrow> Inr (cols, next_reindex, reader)
       | InsertIndex table _ \<Rightarrow>
           and_then (enact_action cols (ITableId_col table) action reader) (\<lambda>(cols, reader).
             enact_record n cr cols next_reindex reader)
       | InsertValue table _ \<Rightarrow>
           and_then (enact_action cols (VTableId_col table) action reader) (\<lambda>(cols, reader).
             enact_record n cr cols next_reindex reader)
       | DropTable table \<Rightarrow>
           if length cols \<le> unat (ITableId_col table) then Inl (Panic ''index out of bounds'')
           else
             and_then (Column_drop_index (cols ! unat (ITableId_col table)) table) (\<lambda>c.
               enact_record n cr (cols[unat (ITableId_col table) := c]) (lr_record_id reader) reader))"

definition reader_fuel :: "LogReader \<Rightarrow> nat" where
  "reader_fuel reader = length (lr_file reader) - lr_pos reader + 1"

text \<open>The log reverts to what was enacted before.\<close>

definition revert_replay :: "DbInner \<Rightarrow> (bool \<times> DbInner) res" where
  "revert_replay d = and_then (Log_clear_replay_logs (db_log d)) (\<lambda>lg. Inr (False, d\<lparr>db_log := lg\<rparr>))"

text \<open>\<open>enact_logs\<close> after the validation: the record is applied and its pages leave the overlays.\<close>

definition enact_reader :: "Crates \<Rightarrow> DbInner \<Rightarrow> bool \<Rightarrow> LogReader \<Rightarrow> (bool \<times> DbInner) res" where
  "enact_reader cr d validation_mode reader =
     and_then (enact_record (reader_fuel reader) cr (db_columns d) (db_next_reindex d) reader)
       (\<lambda>(cols, next_reindex, reader).
         let record_id = lr_record_id reader;
             bytes = lr_read_bytes reader;
             cleared = LogReader_drain reader;
             lg = Log_end_read (Log_return_reader (db_log d) reader) cleared record_id;
             d = d\<lparr>db_columns := cols, db_next_reindex := next_reindex, db_last_enacted := record_id,
                   db_log := lg\<rparr>
         in Inr (True, if validation_mode then d else d\<lparr>db_log_queue := db_log_queue d - bytes\<rparr>))"

definition DbInner_enact_logs :: "Crates \<Rightarrow> DbInner \<Rightarrow> bool \<Rightarrow> (bool \<times> DbInner) res" where
  "DbInner_enact_logs cr d validation_mode =
     (case Log_read_next (cr_crc32 cr) (db_log d) validation_mode of
        Inl (Err (Corruption e)) \<Rightarrow>
          if validation_mode then revert_replay d else Inl (Err (Corruption e))
      | Inl e \<Rightarrow> Inl e
      | Inr (None, lg) \<Rightarrow> Inr (False, d\<lparr>db_log := lg\<rparr>)
      | Inr (Some reader, lg) \<Rightarrow>
          let d = d\<lparr>db_log := lg\<rparr>
          in if validation_mode then
               if lr_record_id reader \<noteq> db_last_enacted d + 1 then revert_replay d
               else
                 (case validate_record (reader_fuel reader) cr (db_columns d) reader of
                    (Inl e, _) \<Rightarrow> Inl e
                  | (Inr None, cols) \<Rightarrow> revert_replay (d\<lparr>db_columns := cols\<rparr>)
                  | (Inr (Some reader), cols) \<Rightarrow>
                      and_then (LogReader_next (cr_crc32 cr) (LogReader_reset reader)) (\<lambda>(_, reader).
                        enact_reader cr (d\<lparr>db_columns := cols\<rparr>) validation_mode reader))
             else enact_reader cr d validation_mode reader)"


section \<open>Flushing, cleaning and replaying\<close>

definition DbInner_flush_logs :: "DbInner \<Rightarrow> u64 \<Rightarrow> (bool \<times> DbInner) option" where
  "DbInner_flush_logs d min_log_size =
     (case Log_flush_one (db_log d) min_log_size of
        None \<Rightarrow> None
      | Some ((flush_next, read_next, cleanup_next), lg) \<Rightarrow>
          let d = d\<lparr>db_log := lg\<rparr>;
              d = (if read_next then d\<lparr>db_commit_worker_wait := WaitCondvar_signal (db_commit_worker_wait d)\<rparr> else d);
              d = (if cleanup_next then d\<lparr>db_cleanup_worker_wait := WaitCondvar_signal (db_cleanup_worker_wait d)\<rparr> else d)
          in Some (flush_next, d))"

definition DbInner_cleanup_logs :: "DbInner \<Rightarrow> (bool \<times> DbInner) res" where
  "DbInner_cleanup_logs d =
     (let keep_logs = (if op_sync_data (db_options d) then 0 else KEEP_LOGS);
          num_cleanup = Log_num_dirty_logs (db_log d)
      in if keep_logs < num_cleanup then
           let d = (if op_sync_data (db_options d) then d\<lparr>db_columns := map Column_flush (db_columns d)\<rparr> else d)
           in and_then (Log_clean_logs (db_log d) (num_cleanup - keep_logs)) (\<lambda>(more, lg).
                Inr (more, d\<lparr>db_log := lg\<rparr>))
         else Inr (False, d))"

definition DbInner_clean_all_logs :: "DbInner \<Rightarrow> DbInner res" where
  "DbInner_clean_all_logs d =
     (let d = d\<lparr>db_columns := map Column_flush (db_columns d)\<rparr>;
          num_cleanup = Log_num_dirty_logs (db_log d)
      in and_then (Log_clean_logs (db_log d) num_cleanup) (\<lambda>(_, lg). Inr (d\<lparr>db_log := lg\<rparr>)))"

text \<open>
  \<open>while enact_logs()? {}\<close>. Every record that is enacted takes bytes of the file that is being read, so
  that the length of the file bounds the loop.
\<close>

definition reading_bytes :: "DbInner \<Rightarrow> nat" where
  "reading_bytes d =
     (case lg_reading (db_log d) of
        None \<Rightarrow> 0
      | Some r \<Rightarrow>
          (case lg_files (db_log d) (Log_log_path (lg_path (db_log d)) (rd_id r)) of
             None \<Rightarrow> 0 | Some f \<Rightarrow> length f))"

primrec enact_all :: "nat \<Rightarrow> Crates \<Rightarrow> DbInner \<Rightarrow> bool \<Rightarrow> DbInner res" where
  "enact_all 0 cr d validation_mode = Inl Diverge"
| "enact_all (Suc n) cr d validation_mode =
     and_then (DbInner_enact_logs cr d validation_mode) (\<lambda>(more, d).
       if more then enact_all n cr d validation_mode else Inr d)"

primrec replay_logs :: "nat \<Rightarrow> Crates \<Rightarrow> DbInner \<Rightarrow> DbInner res" where
  "replay_logs 0 cr d = Inl Diverge"
| "replay_logs (Suc n) cr d =
     (let (next, lg) = Log_replay_next (db_log d);
          d = d\<lparr>db_log := lg\<rparr>
      in case next of
           None \<Rightarrow> Inr d
         | Some _ \<Rightarrow> and_then (enact_all (reading_bytes d + 1) cr d True) (replay_logs n cr))"

primrec refresh_columns :: "Column list \<Rightarrow> Column list res" where
  "refresh_columns [] = Inr []"
| "refresh_columns (c # cs) =
     and_then (Column_refresh_metadata c) (\<lambda>c. and_then (refresh_columns cs) (\<lambda>cs. Inr (c # cs)))"

definition DbInner_replay_all_logs :: "Crates \<Rightarrow> DbInner \<Rightarrow> DbInner res" where
  "DbInner_replay_all_logs cr d =
     and_then (replay_logs (length (lg_replay_queue (db_log d)) + 1) cr d) (\<lambda>d.
     and_then (refresh_columns (db_columns d)) (\<lambda>cols. Inr (d\<lparr>db_columns := cols\<rparr>)))"


section \<open>Shutting down\<close>

definition DbInner_shutdown :: "DbInner \<Rightarrow> DbInner" where
  "DbInner_shutdown d =
     d\<lparr>db_shutdown := True,
       db_flush_worker_wait := WaitCondvar_signal (db_flush_worker_wait d),
       db_log_worker_wait := WaitCondvar_signal (db_log_worker_wait d),
       db_commit_worker_wait := WaitCondvar_signal (db_commit_worker_wait d),
       db_cleanup_worker_wait := WaitCondvar_signal (db_cleanup_worker_wait d)\<rparr>"

primrec process_all :: "nat \<Rightarrow> Crates \<Rightarrow> DbInner \<Rightarrow> DbInner res" where
  "process_all 0 cr d = Inl Diverge"
| "process_all (Suc n) cr d =
     (case DbInner_process_commits cr d of
        None \<Rightarrow> Inl Diverge
      | Some r \<Rightarrow> and_then r (\<lambda>(more, d). if more then process_all n cr d else Inr d))"

definition flush_now :: "DbInner \<Rightarrow> DbInner res" where
  "flush_now d = (case DbInner_flush_logs d 0 of None \<Rightarrow> Inl Diverge | Some (_, d) \<Rightarrow> Inr d)"

primrec write_columns_stats :: "Column list \<Rightarrow> string \<Rightarrow> (Column list \<times> string) res" where
  "write_columns_stats [] writer = Inr ([], writer)"
| "write_columns_stats (c # cs) writer =
     and_then (Column_write_stats c writer) (\<lambda>(c, writer).
     and_then (write_columns_stats cs writer) (\<lambda>(cs, writer). Inr (c # cs, writer)))"

definition DbInner_collect_stats :: "DbInner \<Rightarrow> string \<Rightarrow> u8 option \<Rightarrow> (DbInner \<times> string) res" where
  "DbInner_collect_stats d writer column =
     (case column of
        Some col \<Rightarrow>
          and_then (column_at d col) (\<lambda>c.
          and_then (Column_write_stats c writer) (\<lambda>(c, writer). Inr (set_column d col c, writer)))
      | None \<Rightarrow>
          and_then (write_columns_stats (db_columns d) writer) (\<lambda>(cs, writer).
            Inr (d\<lparr>db_columns := cs\<rparr>, writer)))"

primrec clear_columns_stats :: "Column list \<Rightarrow> Column list res" where
  "clear_columns_stats [] = Inr []"
| "clear_columns_stats (c # cs) =
     and_then (Column_clear_stats c) (\<lambda>c. and_then (clear_columns_stats cs) (\<lambda>cs. Inr (c # cs)))"

definition DbInner_clear_stats :: "DbInner \<Rightarrow> u8 option \<Rightarrow> DbInner res" where
  "DbInner_clear_stats d column =
     (case column of
        Some col \<Rightarrow>
          and_then (column_at d col) (\<lambda>c. and_then (Column_clear_stats c) (\<lambda>c. Inr (set_column d col c)))
      | None \<Rightarrow> and_then (clear_columns_stats (db_columns d)) (\<lambda>cs. Inr (d\<lparr>db_columns := cs\<rparr>)))"

definition DbInner_kill_logs :: "Crates \<Rightarrow> DbInner \<Rightarrow> DbInner res" where
  "DbInner_kill_logs cr d =
     and_then (enact_all (reading_bytes d + 1) cr d False) (\<lambda>d.
     and_then (flush_now d) (\<lambda>d.
     and_then (process_all (length (cq_commits (db_commit_queue d)) + 1) cr d) (\<lambda>d.
     and_then (enact_all (reading_bytes d + 1) cr d False) (\<lambda>d.
     and_then (flush_now d) (\<lambda>d.
     and_then (enact_all (reading_bytes d + 1) cr d False) (\<lambda>d.
     and_then (DbInner_clean_all_logs d) (\<lambda>d.
     and_then (Log_kill_logs (db_log d)) (\<lambda>lg.
       let d = d\<lparr>db_log := lg\<rparr>
       in if op_stats (db_options d) then
            and_then (DbInner_collect_stats d [] None) (\<lambda>(d, txt). Inr (d\<lparr>db_stats_txt := Some txt\<rparr>))
          else Inr d))))))))"

definition DbInner_store_err :: "DbInner \<Rightarrow> error option \<Rightarrow> DbInner" where
  "DbInner_store_err d result =
     (case result of
        None \<Rightarrow> d
      | Some e \<Rightarrow>
          if db_bg_err d = None then DbInner_shutdown (d\<lparr>db_bg_err := Some e\<rparr>) else d)"

definition DbInner_iter_column_while ::
    "Crates \<Rightarrow> DbInner \<Rightarrow> ColId \<Rightarrow> ('s \<Rightarrow> IterState \<Rightarrow> bool \<times> 's) \<Rightarrow> 's \<Rightarrow> 's res" where
  "DbInner_iter_column_while cr d col f s =
     and_then (column_at d col) (\<lambda>c.
       Column_iter_while (cr_codecs cr) (cr_blake2b cr) c (LogOverlays_query (lg_overlays (db_log d))) f s)"

end
