(* ===== verification/Log_Correct.thy ===== *)
theory Log_Correct
  imports Log_Files Index_Enact "HOL-Library.Multiset"
begin

text \<open>
  What the log does: ending a record publishes exactly what its writer saw; ending a read removes
  exactly the pages of the record; the files move through their stages in order and are in one
  stage at a time; a record written to a file is read back action by action.
\<close>

section \<open>Publishing a record\<close>

definition hmm_wf :: "('t, ('k, 'v) hmap) hmap \<Rightarrow> bool" where
  "hmm_wf m \<longleftrightarrow> hm_wf m \<and> (\<forall>x\<in>set m. hm_wf (snd x))"

lemma hmm_wf_entry: "hmm_wf m \<Longrightarrow> map_of m k = Some v \<Longrightarrow> hm_wf v"
  unfolding hmm_wf_def by (force dest: map_of_SomeD)

lemma update_all:
  "\<forall>x\<in>set m. P (snd x) \<Longrightarrow> P v \<Longrightarrow> \<forall>x\<in>set (AList.update k v m). P (snd x)"
  by (induction m) auto

lemma hmm_wf_update: "hmm_wf m \<Longrightarrow> hm_wf v \<Longrightarrow> hmm_wf (AList.update k v m)"
  unfolding hmm_wf_def by (intro conjI hm_wf_update update_all) auto

lemma hmm_wf_default: "hmm_wf m \<Longrightarrow> hm_wf (entry_or_default m k)"
  by (auto simp: entry_or_default_def hmm_wf_entry split: option.split)

definition lc_wf :: "LogChange \<Rightarrow> bool" where
  "lc_wf lc \<longleftrightarrow> hmm_wf (lc_local_index lc) \<and> hmm_wf (lc_local_values lc)"

lemma lc_wf_new [simp]: "lc_wf (LogChange_new r)"
  by (simp add: lc_wf_def LogChange_new_def hmm_wf_def)

lemma lc_wf_insert_value:
  "lc_wf (lw_log w) \<Longrightarrow> lc_wf (lw_log (LogWriter_insert_value w t i d))"
  by (simp add: lc_wf_def LogWriter_insert_value_def Let_def hmm_wf_update hmm_wf_default)

lemma lc_wf_insert_index:
  "lc_wf (lw_log w) \<Longrightarrow> lc_wf (lw_log (LogWriter_insert_index w t i sub d))"
  by (simp add: lc_wf_def LogWriter_insert_index_def Let_def hmm_wf_update hmm_wf_default)

lemma map_of_extend_overlays:
  assumes "hm_wf new"
  shows "map_of (extend_overlays m new) t =
     (case map_of new t of None \<Rightarrow> map_of m t | Some ov \<Rightarrow> Some (hm_extend (entry_or_default m t) ov))"
  using assms
proof (induction new arbitrary: m)
  case Nil
  then show ?case by (simp add: extend_overlays_def)
next
  case (Cons x new)
  obtain u ov where x: "x = (u, ov)" by (cases x)
  let ?m = "AList.update u (hm_extend (entry_or_default m u) ov) m"
  have wf: "hm_wf new" and nin: "map_of new u = None"
    using Cons.prems x by (auto simp: hm_wf_def map_of_eq_None_iff)
  have "extend_overlays m (x # new) = extend_overlays ?m new" by (simp add: extend_overlays_def x)
  moreover have "entry_or_default ?m t = entry_or_default m t" if "t \<noteq> u"
    using that by (simp add: entry_or_default_def update_conv')
  ultimately show ?case
    using Cons.IH [OF wf, of ?m] nin by (auto simp: x update_conv' split: option.splits)
qed

text \<open>The page tables find under a table and a number, in overlays or in a record.\<close>

definition page :: "('t, ('k, 'v) hmap) hmap \<Rightarrow> 't \<Rightarrow> 'k \<Rightarrow> 'v option" where
  "page m t i = (case map_of m t of None \<Rightarrow> None | Some ov \<Rightarrow> map_of ov i)"

lemma page_extend_overlays:
  assumes "hmm_wf new"
  shows "page (extend_overlays m new) t i = (case page new t i of None \<Rightarrow> page m t i | Some v \<Rightarrow> Some v)"
proof -
  have wf: "hm_wf new" using assms by (simp add: hmm_wf_def)
  show ?thesis
    using hmm_wf_entry [OF assms, of t]
    by (auto simp: page_def map_of_extend_overlays [OF wf] map_of_extend entry_or_default_def map_add_def
        split: option.splits)
qed

lemma overlays_stored_page: "overlays_stored ov t i = map_option snd (page (ov_value ov) t i)"
  by (simp add: overlays_stored_def page_def split: option.split)

lemma writer_stored_page:
  "writer_stored w t i =
     (case page (lc_local_values (lw_log w)) t i of
        None \<Rightarrow> overlays_stored (lw_overlays w) t i | Some (_, d) \<Rightarrow> Some d)"
  by (simp add: writer_stored_def page_def split: option.split)

lemma overlays_with_index_page:
  "LogOverlays_with_index ov t i = map_option (\<lambda>(_, _, d). d) (page (ov_index ov) t i)"
  by (simp add: LogOverlays_with_index_def page_def split: option.split)

lemma writer_with_index_page:
  "LogWriter_with_index w t i =
     (case page (lc_local_index (lw_log w)) t i of
        None \<Rightarrow> LogOverlays_with_index (lw_overlays w) t i | Some (_, _, d) \<Rightarrow> Some d)"
  by (auto simp: LogWriter_with_index_def page_def split: option.split)

lemma publish:
  assumes "lc_wf lc" and "Log_end_record crc lg lc = Inr (n, lg')"
    and "lw_overlays w = lg_overlays lg" and "lw_log w = lc"
  shows "overlays_stored (lg_overlays lg') = writer_stored w"
    and "LogOverlays_with_index (lg_overlays lg') = LogWriter_with_index w"
proof -
  have ov: "lg_overlays lg' = \<lparr>ov_index = extend_overlays (ov_index (lg_overlays lg)) (lc_local_index lc),
      ov_value = extend_overlays (ov_value (lg_overlays lg)) (lc_local_values lc)\<rparr>"
    using assms(2)
    by (auto simp: Log_end_record_def Let_def and_then_eq_Inr split: prod.splits option.splits list.splits)
  show "overlays_stored (lg_overlays lg') = writer_stored w"
    using assms(1,3,4)
    by (intro ext) (auto simp: overlays_stored_page writer_stored_page ov page_extend_overlays lc_wf_def
        split: option.split)
  show "LogOverlays_with_index (lg_overlays lg') = LogWriter_with_index w"
    using assms(1,3,4)
    by (intro ext) (auto simp: overlays_with_index_page writer_with_index_page ov page_extend_overlays lc_wf_def
        split: option.split)
qed


section \<open>Ending a read\<close>

lemma page_clear_value:
  "page (clear_value_page r p m) t i =
     (if (t, i) = p \<and> (\<exists>d. page m t i = Some (r, d)) then None else page m t i)"
  by (cases p) (auto simp: clear_value_page_def page_def update_conv' delete_conv' split: option.splits)

lemma page_clear_index:
  "page (clear_index_page r p m) t i =
     (if (t, i) = p \<and> (\<exists>d. page m t i = Some (r, d)) then None else page m t i)"
  by (cases p) (auto simp: clear_index_page_def page_def update_conv' delete_conv' split: option.splits)

lemma page_fold_clear:
  assumes "\<And>p m t i. page (clear r p m) t i =
     (if (t, i) = p \<and> (\<exists>d. page m t i = Some (r, d)) then None else page m t i)"
  shows "page (fold (clear r) ps m) t i =
     (if (t, i) \<in> set ps \<and> (\<exists>d. page m t i = Some (r, d)) then None else page m t i)"
  by (induction ps arbitrary: m) (auto simp: assms)

lemma hm_wf_clear_index: "hm_wf m \<Longrightarrow> hm_wf (fold (clear_index_page r) ps m)"
proof (induction ps arbitrary: m)
  case (Cons p ps)
  have "hm_wf (clear_index_page r p m)"
    using Cons.prems by (auto simp: clear_index_page_def split: option.split)
  then show ?case using Cons.IH by simp
qed simp

lemma page_filter_nonempty:
  "hm_wf m \<Longrightarrow> page (filter (\<lambda>(_, ov). ov \<noteq> []) m) t i = page m t i"
proof (induction m)
  case (Cons x m)
  obtain u ov where x: "x = (u, ov)" by (cases x)
  have wf: "hm_wf m" and nin: "map_of m u = None"
    using Cons.prems x by (auto simp: hm_wf_def map_of_eq_None_iff)
  have "map_of (filter (\<lambda>(_, ov). ov \<noteq> []) m) u = None"
    using nin by (force simp: map_of_eq_None_iff)
  then show ?case
    using Cons.IH [OF wf] nin by (cases "t = u") (auto simp: page_def x)
qed (simp add: page_def)

lemma end_read_pages:
  assumes "hm_wf (ov_index (lg_overlays lg))"
  shows "page (ov_value (lg_overlays (Log_end_read lg cleared r))) t i =
     (if (t, i) \<in> set (cl_values cleared) \<and> (\<exists>d. page (ov_value (lg_overlays lg)) t i = Some (r, d))
      then None else page (ov_value (lg_overlays lg)) t i)"
    and "page (ov_index (lg_overlays (Log_end_read lg cleared r))) u j =
     (if (u, j) \<in> set (cl_index cleared) \<and> (\<exists>d. page (ov_index (lg_overlays lg)) u j = Some (r, d))
      then None else page (ov_index (lg_overlays lg)) u j)"
  using page_fold_clear [of clear_value_page r, OF page_clear_value, of "cl_values cleared" "ov_value (lg_overlays lg)" t i]
    page_fold_clear [of clear_index_page r, OF page_clear_index, of "cl_index cleared" "ov_index (lg_overlays lg)" u j]
    page_filter_nonempty [OF hm_wf_clear_index [OF assms], of r "cl_index cleared" u j]
  by (auto simp: Log_end_read_def Let_def)

section \<open>Stages\<close>

definition opt_list :: "'a option \<Rightarrow> 'a list" where
  "opt_list x = (case x of None \<Rightarrow> [] | Some y \<Rightarrow> [y])"

lemma opt_list_simps [simp]: "opt_list None = []" "opt_list (Some y) = [y]"
  by (simp_all add: opt_list_def)

text \<open>The files in the order they leave the log: cleaned first, appended last.\<close>

definition pipeline :: "Log \<Rightarrow> u32 list" where
  "pipeline lg =
     map fst (lg_cleanup_queue lg) @ map rd_id (opt_list (lg_reading lg)) @
     map fl_id (opt_list (lg_flushing lg)) @ map ap_id (opt_list (lg_appending lg))"

definition log_ids :: "Log \<Rightarrow> u32 list" where
  "log_ids lg = pipeline lg @ map fst (lg_log_pool lg) @ map fst (lg_replay_queue lg)"

definition on_disk :: "Log \<Rightarrow> u32 \<Rightarrow> bool" where
  "on_disk lg i \<longleftrightarrow> lg_files lg (Log_log_path (lg_path lg) i) \<noteq> None"

definition log_inv :: "Log \<Rightarrow> bool" where
  "log_inv lg \<longleftrightarrow>
     distinct (log_ids lg) \<and> (\<forall>i\<in>set (log_ids lg). on_disk lg i \<and> i < lg_next_log_id lg)"

lemma log_path_inject: "Log_log_path root i = Log_log_path root j \<longleftrightarrow> i = j"
  by (auto simp: Log_log_path_def dec_inject word_unat_eq_iff)

lemma flush_one_order:
  assumes "Log_flush_one lg n = Some (r, lg')"
  shows "pipeline lg' = pipeline lg" and "lg_files lg' = lg_files lg" and "lg_path lg' = lg_path lg"
    and "lg_log_pool lg' = lg_log_pool lg" and "lg_replay_queue lg' = lg_replay_queue lg"
    and "lg_next_log_id lg' = lg_next_log_id lg" and "lg_overlays lg' = lg_overlays lg"
  using assms
  by (auto simp: Log_flush_one_def pipeline_def Let_def split: option.splits prod.splits if_splits)

lemma log_inv_flush:
  assumes "log_inv lg" and "Log_flush_one lg n = Some (r, lg')"
  shows "log_inv lg'"
  using assms(1) flush_one_order [OF assms(2)] by (simp add: log_inv_def log_ids_def on_disk_def)

lemma replay_next_order:
  assumes "Log_replay_next lg = (r, lg')"
  shows "mset (log_ids lg') = mset (log_ids lg)" and "lg_files lg' = lg_files lg"
    and "lg_path lg' = lg_path lg" and "lg_next_log_id lg' = lg_next_log_id lg"
  using assms
  by (auto simp: Log_replay_next_def log_ids_def pipeline_def Let_def split: option.splits list.splits)

lemma log_inv_perm:
  assumes "log_inv lg" and "mset (log_ids lg') = mset (log_ids lg)"
    and "\<And>i. i \<in> set (log_ids lg) \<Longrightarrow> on_disk lg' i" and "lg_next_log_id lg' = lg_next_log_id lg"
  shows "log_inv lg'"
  using assms mset_eq_imp_distinct_iff [OF assms(2)] mset_eq_setD [OF assms(2)]
  by (auto simp: log_inv_def)

lemma log_inv_replay:
  assumes "log_inv lg" and "Log_replay_next lg = (r, lg')"
  shows "log_inv lg'"
  using replay_next_order [OF assms(2)] assms(1)
  by (intro log_inv_perm [OF assms(1)]) (auto simp: log_inv_def on_disk_def)

lemma log_inv_end_record:
  assumes inv: "log_inv lg" and r: "Log_end_record crc lg lc = Inr (n, lg')"
    and room: "unat (lg_next_log_id lg) + 1 < 2 ^ 32"
  shows "log_inv lg'"
proof -
  have up: "i < x \<Longrightarrow> i < x + 1" if "unat x + 1 < 2 ^ 32" for i x :: u32
    using that by (simp add: word_less_nat_alt unat_add_no_overflow)
  have nx: "x < x + 1" if "unat x + 1 < 2 ^ 32" for x :: u32
    using that by (simp add: word_less_nat_alt unat_add_no_overflow)
  show ?thesis
  proof (cases "lg_appending lg")
    case (Some a)
    then have "log_ids lg' = log_ids lg" "\<forall>i\<in>set (log_ids lg). on_disk lg i \<longrightarrow> on_disk lg' i"
        "lg_next_log_id lg' = lg_next_log_id lg"
      using r by (auto simp: Log_end_record_def log_ids_def pipeline_def on_disk_def Let_def and_then_eq_Inr
          split: prod.splits)
    then show ?thesis using inv by (simp add: log_inv_def)
  next
    case None
    show ?thesis
    proof (cases "lg_log_pool lg")
      case (Cons x pool)
      then have "mset (log_ids lg') = mset (log_ids lg)" "\<forall>i. on_disk lg i \<longrightarrow> on_disk lg' i"
          "lg_next_log_id lg' = lg_next_log_id lg"
        using r None by (auto simp: Log_end_record_def log_ids_def pipeline_def on_disk_def Let_def and_then_eq_Inr
            split: prod.splits)
      then show ?thesis using inv by (intro log_inv_perm [OF inv]) (auto simp: log_inv_def)
    next
      case Nil
      let ?i = "lg_next_log_id lg"
      have ids: "log_ids lg' = pipeline lg @ ?i # map fst (lg_replay_queue lg)"
          "\<forall>i. i = ?i \<or> on_disk lg i \<longrightarrow> on_disk lg' i" "lg_next_log_id lg' = ?i + 1"
        using r None Nil by (auto simp: Log_end_record_def log_ids_def pipeline_def on_disk_def Let_def
            and_then_eq_Inr split: prod.splits option.splits)
      have old: "log_ids lg = pipeline lg @ map fst (lg_replay_queue lg)" by (simp add: log_ids_def Nil)
      have "?i \<notin> set (log_ids lg)" using inv by (auto simp: log_inv_def)
      then have "distinct (log_ids lg')" using inv by (simp add: log_inv_def ids old)
      moreover have "on_disk lg' i \<and> i < lg_next_log_id lg'" if "i \<in> set (log_ids lg')" for i
        using that inv ids up [OF room, of i] nx [OF room] by (auto simp: log_inv_def old)
      ultimately show ?thesis by (simp add: log_inv_def)
    qed
  qed
qed

lemma drop_logs_ok:
  assumes "distinct xs" and "\<forall>i\<in>set xs. on_disk lg i"
  shows "drop_logs xs lg =
     Inr (lg\<lparr>lg_files := \<lambda>p. if p \<in> Log_log_path (lg_path lg) ` set xs then None else lg_files lg p\<rparr>)"
  using assms
proof (induction xs arbitrary: lg)
  case Nil
  then show ?case by simp
next
  case (Cons x xs)
  let ?lg = "lg\<lparr>lg_files := (lg_files lg)(Log_log_path (lg_path lg) x := None)\<rparr>"
  have "Log_drop_log lg x = Inr ?lg"
    using Cons.prems(2) by (auto simp: Log_drop_log_def on_disk_def Let_def)
  moreover have "\<forall>i\<in>set xs. on_disk ?lg i"
    using Cons.prems by (auto simp: on_disk_def log_path_inject)
  ultimately show ?case
    using Cons.IH [of ?lg] Cons.prems(1) by (auto simp: fun_eq_iff)
qed

lemma truncate_files:
  "fold (\<lambda>(i, _) files. files(P i := map_option (\<lambda>_. []) (files (P i)))) xs f p =
     (if p \<in> P ` fst ` set xs then map_option (\<lambda>_. []) (f p) else f p)"
proof (induction xs arbitrary: f)
  case (Cons x xs)
  then show ?case by (cases x) (auto simp: option.map_comp comp_def)
qed simp

lemma log_inv_removed:
  assumes "distinct (log_ids lg' @ rm)" and "\<forall>i\<in>set (log_ids lg'). on_disk lg i \<and> i < lg_next_log_id lg'"
    and "lg_path lg' = lg_path lg"
    and "lg_files lg' = (\<lambda>p. if p \<in> Log_log_path (lg_path lg) ` set rm then None else lg_files lg p)"
  shows "log_inv lg'"
proof -
  have "on_disk lg' i" if "i \<in> set (log_ids lg')" for i
  proof -
    have "i \<notin> set rm" using assms(1) that by auto
    then show ?thesis using assms(2-4) that by (auto simp: on_disk_def log_path_inject)
  qed
  then show ?thesis using assms(1,2) by (simp add: log_inv_def)
qed

lemma clean_logs_ok:
  assumes inv: "log_inv lg" and count: "n \<le> length (lg_cleanup_queue lg)"
  shows "\<exists>lg'. Log_clean_logs lg n = Inr (drop n (lg_cleanup_queue lg) \<noteq> [], lg') \<and> log_inv lg' \<and>
     length (lg_log_pool lg') \<le> MAX_LOG_POOL_SIZE \<and>
     lg_cleanup_queue lg' = drop n (lg_cleanup_queue lg) \<and>
     (\<forall>i\<in>fst ` set (take n (lg_cleanup_queue lg)).
        lg_files lg' (Log_log_path (lg_path lg) i) \<in> {None, Some []}) \<and>
     (\<forall>i\<in>set (log_ids lg) - fst ` set (take n (lg_cleanup_queue lg)) - fst ` set (lg_log_pool lg).
        lg_files lg' (Log_log_path (lg_path lg) i) = lg_files lg (Log_log_path (lg_path lg) i))"
proof -
  define cl where "cl = take n (lg_cleanup_queue lg)"
  define pool where "pool = sort_key fst (lg_log_pool lg @ map (\<lambda>(i, _). (i, 0 :: nat)) cl)"
  define rm where "rm = map fst (drop MAX_LOG_POOL_SIZE pool)"
  define P where "P = Log_log_path (lg_path lg)"
  define f where "f = fold (\<lambda>(i, _) files. files(P i := map_option (\<lambda>_. []) (files (P i)))) cl (lg_files lg)"
  define lg1 where "lg1 = lg\<lparr>lg_cleanup_queue := drop n (lg_cleanup_queue lg), lg_files := f,
      lg_log_pool := take MAX_LOG_POOL_SIZE pool\<rparr>"
  have f: "f p = (if p \<in> P ` fst ` set cl then map_option (\<lambda>_. []) (lg_files lg p) else lg_files lg p)" for p
    unfolding f_def by (rule truncate_files)
  have fst_cl: "map fst (map (\<lambda>(i, _). (i, 0 :: nat)) cl) = map fst cl" by (simp add: comp_def case_prod_beta)
  have pm: "mset (map fst pool) = mset (map fst (lg_log_pool lg)) + mset (map fst cl)"
  proof -
    have "mset (map fst pool) = mset (map fst (lg_log_pool lg @ map (\<lambda>(i, _). (i, 0 :: nat)) cl))"
      by (simp only: pool_def mset_map mset_sort)
    then show ?thesis by (simp only: map_append mset_append fst_cl)
  qed
  have cq: "mset (map fst (lg_cleanup_queue lg)) = mset (map fst cl) + mset (map fst (drop n (lg_cleanup_queue lg)))"
    unfolding cl_def by (metis append_take_drop_id map_append mset_append)
  have tk: "mset (map fst pool) = mset (map fst (take MAX_LOG_POOL_SIZE pool)) + mset rm"
    unfolding rm_def by (metis append_take_drop_id map_append mset_append)
  have ids: "mset (log_ids lg) = mset (log_ids lg1) + mset rm"
    using pm cq tk by (simp add: log_ids_def pipeline_def lg1_def del: mset_map)
  have dist: "distinct (log_ids lg1 @ rm)"
    using inv mset_eq_imp_distinct_iff [of "log_ids lg1 @ rm" "log_ids lg"] ids by (simp add: log_inv_def)
  have sub: "set (log_ids lg) = set (log_ids lg1) \<union> set rm"
    using ids by (metis set_append mset_append mset_eq_setD)
  have disk1: "on_disk lg1 i" if "i \<in> set (log_ids lg)" for i
    using that inv by (auto simp: log_inv_def on_disk_def lg1_def f P_def)
  define lg' where "lg' = lg1\<lparr>lg_files := \<lambda>p. if p \<in> Log_log_path (lg_path lg1) ` set rm then None else lg_files lg1 p\<rparr>"
  have lgf: "lg_files lg' p = (if p \<in> P ` set rm then None else f p)" for p
    by (simp add: lg'_def lg1_def P_def)
  have dr: "drop_logs rm lg1 = Inr lg'"
    unfolding lg'_def by (rule drop_logs_ok) (use dist disk1 sub in auto)
  have "Log_clean_logs lg n = Inr (drop n (lg_cleanup_queue lg) \<noteq> [], lg')"
    using count dr unfolding lg1_def rm_def pool_def f_def P_def cl_def
    by (simp add: Log_clean_logs_def Let_def) (simp add: lg'_def lg1_def)
  moreover have "log_inv lg'"
  proof (rule log_inv_removed)
    have same: "log_ids lg' = log_ids lg1" "lg_next_log_id lg' = lg_next_log_id lg"
      by (simp_all add: lg'_def log_ids_def pipeline_def) (simp add: lg1_def)
    show "distinct (log_ids lg' @ rm)" using dist by (simp only: same)
    show "\<forall>i\<in>set (log_ids lg'). on_disk lg1 i \<and> i < lg_next_log_id lg'"
      using disk1 inv sub by (auto simp: same log_inv_def)
  qed (simp_all add: lg'_def)
  moreover have "lg_files lg' (P i) \<in> {None, Some []}" if "i \<in> fst ` set cl" for i
    using that by (auto simp: lgf f)
  moreover have "lg_files lg' (P i) = lg_files lg (P i)"
    if "i \<in> set (log_ids lg) - fst ` set cl - fst ` set (lg_log_pool lg)" for i
  proof -
    have "set (map fst pool) = fst ` set (lg_log_pool lg) \<union> fst ` set cl"
      using pm by (metis mset_eq_setD set_append mset_append set_map image_Un)
    moreover have "set rm \<subseteq> set (map fst pool)" unfolding rm_def by (metis drop_map set_drop_subset)
    ultimately have "i \<notin> set rm" using that by blast
    then have "P i \<notin> P ` set rm" "P i \<notin> P ` fst ` set cl"
      using that by (simp_all add: P_def image_iff log_path_inject)
    then show ?thesis by (simp only: lgf f if_False)
  qed
  ultimately show ?thesis
    unfolding cl_def P_def by (intro exI [of _ lg']) (auto simp: lg'_def lg1_def)
qed

lemma clear_replay_logs_ok:
  assumes inv: "log_inv lg"
  shows "\<exists>lg'. Log_clear_replay_logs lg = Inr lg' \<and> log_inv lg' \<and> lg_reading lg' = None \<and>
     lg_replay_queue lg' = [] \<and> lg_overlays lg' = LogOverlays_default"
proof -
  define xs where "xs = map rd_id (opt_list (lg_reading lg))"
  define ys where "ys = map fst (lg_replay_queue lg)"
  define P where "P = Log_log_path (lg_path lg)"
  have d: "distinct xs" "distinct ys" "set xs \<inter> set ys = {}" "\<forall>i\<in>set xs \<union> set ys. on_disk lg i"
    using inv by (auto simp: log_inv_def log_ids_def pipeline_def xs_def ys_def)
  define lg1 where "lg1 = lg\<lparr>lg_reading := None, lg_files := \<lambda>p. if p \<in> P ` set xs then None else lg_files lg p\<rparr>"
  have r1: "(case map_option rd_id (lg_reading lg) of Some i \<Rightarrow> Log_drop_log (lg\<lparr>lg_reading := None\<rparr>) i
      | None \<Rightarrow> Inr (lg\<lparr>lg_reading := None\<rparr>)) = Inr lg1"
    using d(4) by (auto simp: lg1_def xs_def Log_drop_log_def on_disk_def P_def Let_def fun_eq_iff
        split: option.splits)
  define lg2 where "lg2 = lg1\<lparr>lg_replay_queue := [],
      lg_files := \<lambda>p. if p \<in> P ` (set xs \<union> set ys) then None else lg_files lg p\<rparr>"
  have "\<forall>i\<in>set ys. on_disk (lg1\<lparr>lg_replay_queue := []\<rparr>) i"
    using d(3,4) by (auto simp: lg1_def on_disk_def P_def log_path_inject)
  note on1 = this
  have r2: "drop_logs ys (lg1\<lparr>lg_replay_queue := []\<rparr>) = Inr lg2"
  proof -
    have "(\<lambda>p. if p \<in> P ` set ys then None else lg_files lg1 p) =
        (\<lambda>p. if p \<in> P ` (set xs \<union> set ys) then None else lg_files lg p)"
      by (rule ext) (auto simp: lg1_def)
    then show ?thesis
      using drop_logs_ok [OF d(2) on1]
      by (simp add: lg2_def P_def cong: if_cong) (simp add: lg1_def)
  qed
  define lg' where "lg' = lg2\<lparr>lg_overlays := LogOverlays_default, lg_reading_state := Idle, lg_dirty := False\<rparr>"
  have "lg_replay_queue lg1 = lg_replay_queue lg" by (simp add: lg1_def)
  then have "Log_clear_replay_logs lg = Inr lg'"
    using r1 r2 by (simp add: Log_clear_replay_logs_def Let_def ys_def lg'_def)
  moreover have "log_inv lg'"
  proof -
    have old: "log_ids lg = map fst (lg_cleanup_queue lg) @ xs @ map fl_id (opt_list (lg_flushing lg)) @
        map ap_id (opt_list (lg_appending lg)) @ map fst (lg_log_pool lg) @ ys"
      by (simp add: log_ids_def pipeline_def xs_def ys_def)
    have new: "log_ids lg' = map fst (lg_cleanup_queue lg) @ map fl_id (opt_list (lg_flushing lg)) @
        map ap_id (opt_list (lg_appending lg)) @ map fst (lg_log_pool lg)"
      by (simp add: lg'_def lg2_def lg1_def log_ids_def pipeline_def)
    have dist: "distinct (log_ids lg)" using inv by (simp add: log_inv_def)
    show ?thesis
    proof (rule log_inv_removed [where lg = lg and rm = "xs @ ys"])
      have "mset (log_ids lg' @ xs @ ys) = mset (log_ids lg)" unfolding old new by simp
      then show "distinct (log_ids lg' @ xs @ ys)" using dist mset_eq_imp_distinct_iff by blast
      have "set (log_ids lg') \<subseteq> set (log_ids lg)" unfolding old new by auto
      moreover have "lg_next_log_id lg' = lg_next_log_id lg" by (simp add: lg'_def lg2_def lg1_def)
      ultimately show "\<forall>i\<in>set (log_ids lg'). on_disk lg i \<and> i < lg_next_log_id lg'"
        using inv unfolding log_inv_def by auto
    qed (simp_all add: lg'_def lg2_def lg1_def P_def)
  qed
  ultimately show ?thesis by (intro exI [of _ lg']) (simp add: lg'_def lg2_def lg1_def)
qed

text \<open>Steps of the log. \<open>kill_logs\<close> only runs when the database is dropped and ends the run.\<close>

inductive log_step :: "(bytes \<Rightarrow> u32) \<Rightarrow> Log \<Rightarrow> Log \<Rightarrow> bool" for crc where
  begin_record: "log_step crc lg (snd (Log_begin_record lg))"
| end_record: "Log_end_record crc lg lc = Inr (n, lg') \<Longrightarrow> unat (lg_next_log_id lg) + 1 < 2 ^ 32 \<Longrightarrow> log_step crc lg lg'"
| flush_one: "Log_flush_one lg m = Some (r, lg') \<Longrightarrow> log_step crc lg lg'"
| replay_next: "log_step crc lg (snd (Log_replay_next lg))"
| read_next: "Log_read_next crc lg v = Inr (rd, lg') \<Longrightarrow> log_step crc lg lg'"
| return_reader: "log_step crc lg (Log_return_reader lg rd)"
| end_read: "log_step crc lg (Log_end_read lg cleared rid)"
| clean_logs: "Log_clean_logs lg k = Inr (b, lg') \<Longrightarrow> log_step crc lg lg'"
| clear_replay: "Log_clear_replay_logs lg = Inr lg' \<Longrightarrow> log_step crc lg lg'"

lemma log_inv_same:
  "log_inv lg \<Longrightarrow> log_ids lg' = log_ids lg \<Longrightarrow> lg_files lg' = lg_files lg \<Longrightarrow> lg_path lg' = lg_path lg \<Longrightarrow>
     lg_next_log_id lg' = lg_next_log_id lg \<Longrightarrow> log_inv lg'"
  by (simp add: log_inv_def on_disk_def)

lemma log_step_inv: "log_step crc lg lg' \<Longrightarrow> log_inv lg \<Longrightarrow> log_inv lg'"
proof (induction rule: log_step.induct)
  case (begin_record lg)
  then show ?case
    by (rule log_inv_same) (simp_all add: Log_begin_record_def Let_def log_ids_def pipeline_def)
next
  case (end_record lg lc n lg')
  then show ?case using log_inv_end_record by blast
next
  case (flush_one lg m r lg')
  then show ?case using log_inv_flush by blast
next
  case (replay_next lg)
  then show ?case using log_inv_replay by (metis prod.collapse)
next
  case (read_next lg v rd lg')
  then have "lg' = lg \<or> lg' = lg\<lparr>lg_reading_state := Idle\<rparr>"
    by (auto simp: Log_read_next_def split: if_splits option.splits sum.splits prod.splits LogAction.splits
        fault.splits error.splits io_error.splits)
  then show ?case
    using read_next.prems by (auto intro: log_inv_same simp: log_ids_def pipeline_def)
next
  case (return_reader lg rd)
  then show ?case
    by (rule log_inv_same)
       (cases "lg_reading lg"; simp add: Log_return_reader_def log_ids_def pipeline_def)+
next
  case (end_read lg cleared rid)
  then show ?case
    by (rule log_inv_same) (simp_all add: Log_end_read_def Let_def log_ids_def pipeline_def)
next
  case (clean_logs lg k b lg')
  then have "k \<le> length (lg_cleanup_queue lg)"
    by (auto simp: Log_clean_logs_def split: if_splits)
  then show ?case using clean_logs_ok [OF clean_logs.prems] clean_logs.hyps by fastforce
next
  case (clear_replay lg lg')
  then show ?case using clear_replay_logs_ok [OF clear_replay.prems] by fastforce
qed

section \<open>Reading a record back\<close>

text \<open>The actions of a record with the bytes that belong to them, in file order.\<close>

definition record_items :: "LogChange \<Rightarrow> (LogAction \<times> bytes) list" where
  "record_items lc =
     concat (map (\<lambda>(t, ov). map (\<lambda>(i, (_, msk, c)). (InsertIndex t i, to_le 8 msk @ masked_bytes msk c)) ov)
               (lc_local_index lc)) @
     concat (map (\<lambda>(t, ov). map (\<lambda>(i, (_, d)). (InsertValue t i, d)) ov) (lc_local_values lc)) @
     map (\<lambda>t. (DropTable t, [])) (lc_dropped_tables lc)"

fun action_header :: "LogAction \<Rightarrow> bytes" where
  "action_header (InsertIndex t i) = [2] @ to_le 2 (ITableId_as_u16 t) @ to_le 8 i"
| "action_header (InsertValue t i) = [3] @ to_le 2 (VTableId_as_u16 t) @ to_le 8 i"
| "action_header (DropTable t) = [5] @ to_le 2 (ITableId_as_u16 t)"
| "action_header _ = []"

definition item_bytes :: "LogAction \<times> bytes \<Rightarrow> bytes" where
  "item_bytes x = action_header (fst x) @ snd x"

definition page_item :: "LogAction \<times> bytes \<Rightarrow> bool" where
  "page_item x \<longleftrightarrow> (case fst x of BeginRecord \<Rightarrow> False | EndRecord \<Rightarrow> False | DropTable _ \<Rightarrow> snd x = [] | _ \<Rightarrow> True)"

lemma concat_map_map: "concat (map f (map g xs)) = concat (map (\<lambda>x. f (g x)) xs)"
  by (simp add: comp_def)

lemma LogChange_body_items:
  "LogChange_body lc = [1] @ to_le 8 (lc_record_id lc) @ concat (map item_bytes (record_items lc)) @ [4]"
proof -
  have 1: "concat (map item_bytes (concat (map (\<lambda>(t, ov). map (\<lambda>(i, (_, msk, c)).
        (InsertIndex t i, to_le 8 msk @ masked_bytes msk c)) ov) m))) =
      concat (map (\<lambda>(t, ov). concat (map (\<lambda>(i, (_, msk, c)). index_entry_bytes t i msk c) ov)) m)" for m
  proof (induction m)
    case (Cons x m)
    obtain t ov where x: "x = (t, ov)" by (cases x)
    have "concat (map item_bytes (map (\<lambda>(i, (_, msk, c)). (InsertIndex t i, to_le 8 msk @ masked_bytes msk c)) ov)) =
        concat (map (\<lambda>(i, (_, msk, c)). index_entry_bytes t i msk c) ov)"
      by (induction ov) (auto simp: item_bytes_def index_entry_bytes_masked)
    with Cons show ?case by (simp add: x)
  qed simp
  have 2: "concat (map item_bytes (concat (map (\<lambda>(t, ov). map (\<lambda>(i, (_, d)). (InsertValue t i, d)) ov) m))) =
      concat (map (\<lambda>(t, ov). concat (map (\<lambda>(i, (_, d)). value_entry_bytes t i d) ov)) m)" for m
  proof (induction m)
    case (Cons x m)
    obtain t ov where x: "x = (t, ov)" by (cases x)
    have "concat (map item_bytes (map (\<lambda>(i, (_, d)). (InsertValue t i, d)) ov)) =
        concat (map (\<lambda>(i, (_, d)). value_entry_bytes t i d) ov)"
      by (induction ov) (auto simp: item_bytes_def value_entry_bytes_def)
    with Cons show ?case by (simp add: x)
  qed simp
  have 3: "concat (map item_bytes (map (\<lambda>t. (DropTable t, [])) ts)) = concat (map drop_entry_bytes ts)" for ts
    by (induction ts) (simp_all add: item_bytes_def drop_entry_bytes_def)
  show ?thesis
    unfolding LogChange_body_def record_items_def map_append concat_append 1 2 3 by simp
qed

lemma record_items_pages: "x \<in> set (record_items lc) \<Longrightarrow> page_item x"
  by (auto simp: record_items_def page_item_def)

definition clear_pages :: "(LogAction \<times> bytes) list \<Rightarrow> Cleared \<Rightarrow> Cleared" where
  "clear_pages xs cl =
     \<lparr>cl_index = cl_index cl @ concat (map (\<lambda>x. case fst x of InsertIndex t i \<Rightarrow> [(t, i)] | _ \<Rightarrow> []) xs),
      cl_values = cl_values cl @ concat (map (\<lambda>x. case fst x of InsertValue t i \<Rightarrow> [(t, i)] | _ \<Rightarrow> []) xs)\<rparr>"

text \<open>
  The reader meets the given actions one after the other, each followed by its bytes; reading on
  past those bytes is the business of the table they belong to.
\<close>

primrec reads :: "(bytes \<Rightarrow> u32) \<Rightarrow> LogReader \<Rightarrow> (LogAction \<times> bytes) list \<Rightarrow> LogReader \<Rightarrow> bool" where
  "reads crc r [] r' \<longleftrightarrow> r' = r"
| "reads crc r (x # xs) r' \<longleftrightarrow>
     (\<exists>r1 ys. LogReader_next crc r = Inr (fst x, r1) \<and> reader_rest r1 = snd x @ ys \<and>
              reads crc (advance r1 (snd x)) xs r')"

lemma next_item:
  assumes "page_item x" and "reader_rest r = item_bytes x @ ys"
  shows "\<exists>r1. LogReader_next crc r = Inr (fst x, r1) \<and> reader_rest r1 = snd x @ ys \<and>
     advance r1 (snd x) = (advance r (item_bytes x))\<lparr>lr_cleared := clear_pages [x] (lr_cleared r)\<rparr>"
proof -
  obtain a d where x: "x = (a, d)" by (cases x)
  have adv: "advance (r'\<lparr>lr_cleared := c\<rparr>) d = (advance r' d)\<lparr>lr_cleared := c\<rparr>" for r' c
    by (simp add: advance_def)
  show ?thesis
  proof (cases a)
    case (InsertIndex t i)
    let ?h = "2 # to_le 2 (ITableId_as_u16 t) @ to_le 8 i"
    have rest: "reader_rest r = 2 # to_le 2 (ITableId_as_u16 t) @ to_le 8 i @ d @ ys"
      using assms(2) by (simp add: x InsertIndex item_bytes_def)
    have "reader_rest (advance r ?h) = d @ ys" by (rule reader_rest_advance) (simp add: rest)
    then show ?thesis
      using LogReader_next_index [OF rest, of crc]
      by (simp add: x InsertIndex adv item_bytes_def clear_pages_def)
  next
    case (InsertValue t i)
    let ?h = "3 # to_le 2 (VTableId_as_u16 t) @ to_le 8 i"
    have rest: "reader_rest r = 3 # to_le 2 (VTableId_as_u16 t) @ to_le 8 i @ d @ ys"
      using assms(2) by (simp add: x InsertValue item_bytes_def)
    have "reader_rest (advance r ?h) = d @ ys" by (rule reader_rest_advance) (simp add: rest)
    then show ?thesis
      using LogReader_next_value [OF rest, of crc]
      by (simp add: x InsertValue adv item_bytes_def clear_pages_def)
  next
    case (DropTable t)
    then have d: "d = []" using assms(1) by (simp add: x page_item_def)
    have rest: "reader_rest r = 5 # to_le 2 (ITableId_as_u16 t) @ ys"
      using assms(2) by (simp add: x DropTable item_bytes_def d)
    have "reader_rest (advance r (5 # to_le 2 (ITableId_as_u16 t))) = ys"
      by (rule reader_rest_advance) (simp add: rest)
    then show ?thesis
      using LogReader_next_drop [OF rest, of crc]
      by (simp add: x DropTable d item_bytes_def clear_pages_def)
  qed (use assms(1) in \<open>simp_all add: x page_item_def\<close>)
qed

lemma reads_items:
  assumes "\<forall>x\<in>set xs. page_item x" and "reader_rest r = concat (map item_bytes xs) @ ys"
  shows "reads crc r xs
     ((advance r (concat (map item_bytes xs)))\<lparr>lr_cleared := clear_pages xs (lr_cleared r)\<rparr>)"
  using assms
proof (induction xs arbitrary: r)
  case Nil
  then show ?case by (simp add: clear_pages_def)
next
  case (Cons x xs)
  have rest: "reader_rest r = item_bytes x @ concat (map item_bytes xs) @ ys" using Cons.prems(2) by simp
  obtain r1 where r1: "LogReader_next crc r = Inr (fst x, r1)"
      "reader_rest r1 = snd x @ concat (map item_bytes xs) @ ys"
      "advance r1 (snd x) = (advance r (item_bytes x))\<lparr>lr_cleared := clear_pages [x] (lr_cleared r)\<rparr>"
    using next_item [OF _ rest, of crc] Cons.prems(1) by auto
  have adv: "advance (r'\<lparr>lr_cleared := c\<rparr>) b = (advance r' b)\<lparr>lr_cleared := c\<rparr>" for r' c b
    by (simp add: advance_def)
  have "reader_rest (advance r1 (snd x)) = concat (map item_bytes xs) @ ys"
    using r1(2) by (rule reader_rest_advance)
  then have "reads crc (advance r1 (snd x)) xs
      ((advance (advance r1 (snd x)) (concat (map item_bytes xs)))
        \<lparr>lr_cleared := clear_pages xs (lr_cleared (advance r1 (snd x)))\<rparr>)"
    using Cons.prems(1) by (intro Cons.IH) simp_all
  moreover have "(advance (advance r1 (snd x)) (concat (map item_bytes xs)))
        \<lparr>lr_cleared := clear_pages xs (lr_cleared (advance r1 (snd x)))\<rparr> =
      (advance r (concat (map item_bytes (x # xs))))\<lparr>lr_cleared := clear_pages (x # xs) (lr_cleared r)\<rparr>"
    unfolding r1(3) by (simp add: adv clear_pages_def)
  ultimately show ?case using r1(1,2) by auto
qed

lemma record_roundtrip:
  assumes "reader_rest r = fst (LogChange_to_file crc lc) @ ys" and "lr_crc32 r = []"
  shows "\<exists>r1 r2 r3. LogReader_next crc r = Inr (BeginRecord, r1) \<and> lr_record_id r1 = lc_record_id lc \<and>
     reads crc r1 (record_items lc) r2 \<and> LogReader_next crc r2 = Inr (EndRecord, r3) \<and>
     reader_rest r3 = ys \<and> lr_record_id r3 = lc_record_id lc \<and>
     lr_cleared r3 = clear_pages (record_items lc) (lr_cleared r) \<and>
     lr_crc32 r3 = [] \<and> lr_file r3 = lr_file r"
proof -
  let ?h = "1 # to_le 8 (lc_record_id lc)"
  let ?xs = "concat (map item_bytes (record_items lc))"
  let ?c = "to_le 4 (crc (LogChange_body lc))"
  have rest: "reader_rest r = 1 # to_le 8 (lc_record_id lc) @ ?xs @ 4 # ?c @ ys"
    using assms(1) by (simp add: LogChange_to_file_def LogChange_body_items Let_def)
  define r1 where "r1 = (advance r ?h)\<lparr>lr_record_id := lc_record_id lc\<rparr>"
  have n1: "LogReader_next crc r = Inr (BeginRecord, r1)"
    unfolding r1_def by (rule LogReader_next_begin [OF rest])
  have "reader_rest (advance r ?h) = ?xs @ 4 # ?c @ ys" by (rule reader_rest_advance) (simp add: rest)
  then have rest1: "reader_rest r1 = ?xs @ 4 # ?c @ ys" by (simp add: r1_def)
  define r2 where "r2 = (advance r1 ?xs)\<lparr>lr_cleared := clear_pages (record_items lc) (lr_cleared r1)\<rparr>"
  have n2: "reads crc r1 (record_items lc) r2"
    unfolding r2_def using reads_items [OF _ rest1] record_items_pages by blast
  have rest2: "reader_rest r2 = 4 # ?c @ ys"
    using reader_rest_advance [OF rest1] by (simp add: r2_def)
  have crc: "lr_crc32 r2 @ [4] = LogChange_body lc" if "lr_validate r2"
    using that assms(2) by (simp add: r2_def r1_def advance_def LogChange_body_items)
  define r3 where "r3 = finish_record (advance r2 [4])"
  have n3: "LogReader_next crc r2 = Inr (EndRecord, r3)"
    unfolding r3_def LogReader_next_end [OF rest2] using crc by auto
  have "reader_rest (advance r2 [4]) = ?c @ ys" by (rule reader_rest_advance) (simp add: rest2)
  then have "drop 4 (reader_rest (advance r2 [4])) = ys" by simp
  then have "reader_rest r3 = ys"
    by (simp add: r3_def finish_record_def reader_rest_def add.commute)
  moreover have "lr_crc32 r3 = []"
    using assms(2) by (auto simp: r3_def finish_record_def r2_def r1_def advance_def)
  ultimately show ?thesis
    using n1 n2 n3
    by (intro exI [of _ r1] exI [of _ r2] exI [of _ r3])
       (simp add: r1_def r2_def r3_def finish_record_def)
qed

section \<open>Properties\<close>

text \<open>
  C22: ending a record publishes exactly what its writer saw: afterwards a reader of the overlays finds
  for every page of every table what a query through the writer found.
\<close>

theorem log_publish:
  assumes "lc_wf (lw_log w)" and "lw_overlays w = lg_overlays lg"
    and "lc_record_id (lw_log w) + 1 = lg_next_record_id lg"
  shows "\<exists>n lg'. Log_end_record crc lg (LogWriter_drain w) = Inr (n, lg') \<and>
     LogOverlays_query (lg_overlays lg') = LogWriter_query w"
proof -
  have "\<exists>x. Log_end_record crc lg (lw_log w) = Inr x"
    using assms(3) by (simp add: Log_end_record_def Let_def case_prod_beta)
  then obtain n lg' where r: "Log_end_record crc lg (lw_log w) = Inr (n, lg')" by fastforce
  note p = publish [OF assms(1) r assms(2) refl]
  have "LogOverlays_value (lg_overlays lg') = LogWriter_value w"
    by (intro ext) (simp add: LogOverlays_value_stored LogWriter_value_stored p(1))
  then show ?thesis
    using r p(2) by (auto simp: LogWriter_drain_def LogOverlays_query_def LogWriter_query_def)
qed

definition sample_log :: Log where
  "sample_log = projr (Log_open ''db'' True [] (\<lambda>_. None))"

lemma sample_log_simps:
  "lg_overlays sample_log = LogOverlays_default" "lg_next_record_id sample_log = 1"
  "lg_path sample_log = ''db''" "lg_next_log_id sample_log = 0" "lg_appending sample_log = None"
  "lg_reading sample_log = None" "lg_flushing sample_log = None" "lg_log_pool sample_log = []"
  "lg_cleanup_queue sample_log = []" "lg_replay_queue sample_log = []" "lg_files sample_log = (\<lambda>_. None)"
  by (simp_all add: sample_log_def Log_open_def)

theorem log_publish_witness:
  "\<exists>n lg'. Log_end_record (\<lambda>_. 0) (snd (Log_begin_record sample_log))
       (LogWriter_drain (LogWriter_insert_value (fst (Log_begin_record sample_log)) (VTableId 0) 3 [1, 2])) =
       Inr (n, lg') \<and>
     LogOverlays_query (lg_overlays lg') =
       LogWriter_query (LogWriter_insert_value (fst (Log_begin_record sample_log)) (VTableId 0) 3 [1, 2])"
  by (rule log_publish)
     (simp_all add: lc_wf_insert_value Log_begin_record_def LogWriter_new_def LogWriter_insert_value_def Let_def
       lc_wf_def hmm_wf_def hm_wf_def LogChange_new_def entry_or_default_def sample_log_simps)

text \<open>
  C25: ending the read of a record removes a page from the overlays exactly when the record wrote it and
  no later record overwrote it; all other pages stay.
\<close>

theorem log_end_read:
  assumes "hm_wf (ov_index (lg_overlays lg))"
  shows "page (ov_value (lg_overlays (Log_end_read lg cleared r))) t i =
     (if (t, i) \<in> set (cl_values cleared) \<and> map_option fst (page (ov_value (lg_overlays lg)) t i) = Some r
      then None else page (ov_value (lg_overlays lg)) t i) \<and>
    page (ov_index (lg_overlays (Log_end_read lg cleared r))) u j =
     (if (u, j) \<in> set (cl_index cleared) \<and> map_option fst (page (ov_index (lg_overlays lg)) u j) = Some r
      then None else page (ov_index (lg_overlays lg)) u j)"
  using end_read_pages [OF assms, of cleared r] by auto

theorem log_end_read_witness:
  "let lg = sample_log\<lparr>lg_overlays := \<lparr>ov_index = [], ov_value = [(VTableId 0, [(3, 7, [1])])]\<rparr>\<rparr>
   in page (ov_value (lg_overlays (Log_end_read lg \<lparr>cl_index = [], cl_values = [(VTableId 0, 3)]\<rparr> 7))) (VTableId 0) 3 = None \<and>
      page (ov_value (lg_overlays (Log_end_read lg \<lparr>cl_index = [], cl_values = [(VTableId 0, 3)]\<rparr> 6))) (VTableId 0) 3 =
        Some (7, [1])"
proof -
  let ?lg = "sample_log\<lparr>lg_overlays := \<lparr>ov_index = [], ov_value = [(VTableId 0, [(3, 7, [1])])]\<rparr>\<rparr>"
  have wf: "hm_wf (ov_index (lg_overlays ?lg))" by simp
  show ?thesis
    using log_end_read [OF wf, of "\<lparr>cl_index = [], cl_values = [(VTableId 0, 3)]\<rparr>" 7 "VTableId 0" 3]
      log_end_read [OF wf, of "\<lparr>cl_index = [], cl_values = [(VTableId 0, 3)]\<rparr>" 6 "VTableId 0" 3]
    by (simp add: Let_def page_def)
qed

text \<open>
  C26: \<open>flush_one\<close> moves the files on in the order they were written: the sequence of files waiting for
  cleanup, being read, waiting to be flushed and being appended to is the same before and after, so no
  log is skipped, duplicated or overtaken; no file and no overlay changes.
\<close>

theorem log_flush_in_order:
  assumes "Log_flush_one lg min_size = Some (r, lg')"
  shows "pipeline lg' = pipeline lg \<and> lg_files lg' = lg_files lg \<and> lg_overlays lg' = lg_overlays lg"
  using flush_one_order [OF assms] by simp

theorem log_flush_in_order_witness:
  "let lg = sample_log\<lparr>lg_appending := Some \<lparr>ap_id = 4, ap_pos = 30, ap_size = 30\<rparr>,
       lg_flushing := Some \<lparr>fl_id = 3, fl_pos = 9\<rparr>, lg_reading := Some \<lparr>rd_id = 2, rd_pos = 8\<rparr>\<rparr>
   in \<exists>lg'. Log_flush_one lg 0 = Some ((True, True, True), lg') \<and> pipeline lg' = [2, 3, 4] \<and>
        lg_reading lg' = Some \<lparr>rd_id = 3, rd_pos = 0\<rparr>"
proof -
  define lg where "lg = sample_log\<lparr>lg_appending := Some \<lparr>ap_id = 4, ap_pos = 30, ap_size = 30\<rparr>,
       lg_flushing := Some \<lparr>fl_id = 3, fl_pos = 9\<rparr>, lg_reading := Some \<lparr>rd_id = 2, rd_pos = 8\<rparr>\<rparr>"
  have "lg_reading_state lg = Idle" by (simp add: lg_def sample_log_def Log_open_def)
  then obtain lg' where r: "Log_flush_one lg 0 = Some ((True, True, True), lg')"
      "lg_reading lg' = Some \<lparr>rd_id = 3, rd_pos = 0\<rparr>"
    by (simp add: Log_flush_one_def Let_def) (simp add: lg_def)
  moreover have "pipeline lg = [2, 3, 4]" by (simp add: pipeline_def lg_def sample_log_simps)
  ultimately show ?thesis
    using log_flush_in_order [OF r(1)] unfolding Let_def lg_def [symmetric] by auto
qed

text \<open>
  C23: every log file is in one stage at a time. Whatever the log does, the numbers of the files being
  appended, flushed, read, cleaned, pooled or waiting for replay stay distinct, each has its file on
  disk, and new files get new numbers.
\<close>

theorem log_stages_invariant:
  assumes "(log_step crc)\<^sup>*\<^sup>* lg lg'" and "log_inv lg"
  shows "log_inv lg'"
  using assms by (induction rule: rtranclp_induct) (auto intro: log_step_inv)

theorem log_stages_invariant_witness:
  "log_inv (snd (Log_replay_next (snd (Log_begin_record sample_log))))"
proof (rule log_stages_invariant)
  show "(log_step (\<lambda>_. 0))\<^sup>*\<^sup>* sample_log (snd (Log_replay_next (snd (Log_begin_record sample_log))))"
    by (meson log_step.begin_record log_step.replay_next r_into_rtranclp rtranclp.rtrancl_into_rtrancl)
  show "log_inv sample_log" by (simp add: log_inv_def log_ids_def pipeline_def sample_log_simps)
qed

text \<open>
  C30: cleaning logs never fails while the stages are distinct: the first \<open>count\<close> files of the queue are
  emptied (or deleted when the pool is full), the pool keeps at most \<open>MAX_LOG_POOL_SIZE\<close> files, and no
  file of another stage is touched.
\<close>

theorem log_clean:
  assumes "log_inv lg" and "n \<le> length (lg_cleanup_queue lg)"
  shows "\<exists>lg'. Log_clean_logs lg n = Inr (drop n (lg_cleanup_queue lg) \<noteq> [], lg') \<and> log_inv lg' \<and>
     length (lg_log_pool lg') \<le> MAX_LOG_POOL_SIZE \<and>
     (\<forall>i\<in>fst ` set (take n (lg_cleanup_queue lg)).
        lg_files lg' (Log_log_path (lg_path lg) i) \<in> {None, Some []}) \<and>
     (\<forall>i\<in>set (log_ids lg) - fst ` set (take n (lg_cleanup_queue lg)) - fst ` set (lg_log_pool lg).
        lg_files lg' (Log_log_path (lg_path lg) i) = lg_files lg (Log_log_path (lg_path lg) i))"
  using clean_logs_ok [OF assms] by blast

theorem log_clean_witness:
  "let lg = sample_log\<lparr>lg_cleanup_queue := [(0, 12)], lg_next_log_id := 1, lg_files := (\<lambda>_. Some [1, 2, 3])\<rparr>
   in \<exists>lg'. Log_clean_logs lg 1 = Inr (False, lg') \<and>
        lg_files lg' (Log_log_path ''db'' 0) \<in> {None, Some []}"
proof -
  define lg where "lg = sample_log\<lparr>lg_cleanup_queue := [(0, 12)], lg_next_log_id := 1, lg_files := (\<lambda>_. Some [1, 2, 3])\<rparr>"
  have "log_inv lg" "lg_cleanup_queue lg = [(0, 12)]" "lg_path lg = ''db''"
    by (simp_all add: lg_def log_inv_def log_ids_def pipeline_def on_disk_def sample_log_simps)
  then show ?thesis using log_clean [of lg 1] unfolding Let_def lg_def [symmetric] by auto
qed

text \<open>
  C16: a record read back from its file is the record that was written: the reader meets the begin marker
  with the record's number, then every page and dropped table in order with its bytes, then the end
  marker; with validation the checksum matches; what follows in the file is untouched, and the pages to
  clear from the overlays are the pages of the record.
\<close>

theorem log_record_roundtrip:
  assumes "reader_rest r = fst (LogChange_to_file crc lc) @ ys" and "lr_crc32 r = []"
  shows "\<exists>r1 r2 r3. LogReader_next crc r = Inr (BeginRecord, r1) \<and> lr_record_id r1 = lc_record_id lc \<and>
     reads crc r1 (record_items lc) r2 \<and> LogReader_next crc r2 = Inr (EndRecord, r3) \<and>
     reader_rest r3 = ys \<and> lr_cleared r3 = clear_pages (record_items lc) (lr_cleared r)"
  using record_roundtrip [OF assms] by blast

theorem log_record_roundtrip_witness:
  "let lc = LogWriter_drain (LogWriter_drop_table (LogWriter_insert_value
              (LogWriter_new LogOverlays_default 5) (VTableId 1) 9 [8, 8]) (ITableId 2));
       r = LogReader_new (fst (LogChange_to_file (\<lambda>b. of_nat (length b)) lc) @ [1, 2]) 0 True
   in \<exists>r1 r2 r3. LogReader_next (\<lambda>b. of_nat (length b)) r = Inr (BeginRecord, r1) \<and> lr_record_id r1 = lc_record_id lc \<and>
        reads (\<lambda>b. of_nat (length b)) r1 (record_items lc) r2 \<and>
        LogReader_next (\<lambda>b. of_nat (length b)) r2 = Inr (EndRecord, r3) \<and>
        reader_rest r3 = [1, 2] \<and> lr_cleared r3 = clear_pages (record_items lc) (lr_cleared r)"
  unfolding Let_def
  by (rule log_record_roundtrip) (simp_all add: reader_rest_def LogReader_new_def)

text \<open>
  C31: a record whose stored checksum is not the checksum of its bytes is rejected at its end marker when
  the reader validates.
\<close>

theorem log_bad_checksum:
  assumes "reader_rest r = LogChange_body lc @ to_le 4 c @ ys" and "lr_crc32 r = []"
    and "lr_validate r" and "c \<noteq> crc (LogChange_body lc)"
  shows "\<exists>r1 r2. LogReader_next crc r = Inr (BeginRecord, r1) \<and> reads crc r1 (record_items lc) r2 \<and>
     LogReader_next crc r2 = Inl (Err (Corruption ''Log record CRC-32 mismatch''))"
proof -
  let ?h = "1 # to_le 8 (lc_record_id lc)"
  let ?xs = "concat (map item_bytes (record_items lc))"
  have rest: "reader_rest r = 1 # to_le 8 (lc_record_id lc) @ ?xs @ 4 # to_le 4 c @ ys"
    using assms(1) by (simp add: LogChange_body_items)
  define r1 where "r1 = (advance r ?h)\<lparr>lr_record_id := lc_record_id lc\<rparr>"
  have "reader_rest (advance r ?h) = ?xs @ 4 # to_le 4 c @ ys" by (rule reader_rest_advance) (simp add: rest)
  then have rest1: "reader_rest r1 = ?xs @ 4 # to_le 4 c @ ys" by (simp add: r1_def)
  define r2 where "r2 = (advance r1 ?xs)\<lparr>lr_cleared := clear_pages (record_items lc) (lr_cleared r1)\<rparr>"
  have n2: "reads crc r1 (record_items lc) r2"
    unfolding r2_def using reads_items [OF _ rest1] record_items_pages by blast
  have rest2: "reader_rest r2 = 4 # to_le 4 c @ ys"
    using reader_rest_advance [OF rest1] by (simp add: r2_def)
  have "lr_crc32 r2 @ [4] = LogChange_body lc" "lr_validate r2"
    using assms(2,3) by (simp_all add: r2_def r1_def advance_def LogChange_body_items)
  then have "LogReader_next crc r2 = Inl (Err (Corruption ''Log record CRC-32 mismatch''))"
    unfolding LogReader_next_end [OF rest2] using assms(4) by auto
  moreover have "LogReader_next crc r = Inr (BeginRecord, r1)"
    unfolding r1_def by (rule LogReader_next_begin [OF rest])
  ultimately show ?thesis using n2 by blast
qed

theorem log_bad_checksum_witness:
  "let r = LogReader_new (LogChange_body (LogChange_new 5) @ to_le 4 (99 :: u32)) 0 True
   in \<exists>r1 r2. LogReader_next (\<lambda>b. 7) r = Inr (BeginRecord, r1) \<and>
        reads (\<lambda>b. 7) r1 (record_items (LogChange_new 5)) r2 \<and>
        LogReader_next (\<lambda>b. 7) r2 = Inl (Err (Corruption ''Log record CRC-32 mismatch''))"
  unfolding Let_def
  by (rule log_bad_checksum [where c = 99 and ys = "[]"]) (simp_all add: reader_rest_def LogReader_new_def)

end
