(* ===== verification/Db_Workers.thy ===== *)
theory Db_Workers
  imports Db_Inner Log_Correct
begin

text \<open>
  The database with its background threads (\<open>Db\<close> of \<open>src/db.rs\<close>). A thread is modelled by the rounds of
  its loop: one round is one pass through the loop body, taken as a whole; \<open>None\<close> is a round that waits
  for its condition variable. \<open>db_step\<close> interleaves the rounds of the four threads with the calls of
  clients.
\<close>

section \<open>Configuration\<close>

primrec spawn_commit_thread :: "EnableCommitPipelineStages \<Rightarrow> bool" where
  "spawn_commit_thread CommitOverlay = False"
| "spawn_commit_thread LogOverlay = False"
| "spawn_commit_thread DbFile = True"
| "spawn_commit_thread Standard = True"

primrec spawn_log_thread :: "EnableCommitPipelineStages \<Rightarrow> bool" where
  "spawn_log_thread CommitOverlay = False"
| "spawn_log_thread LogOverlay = True"
| "spawn_log_thread DbFile = True"
| "spawn_log_thread Standard = True"

definition spawn_flush_thread :: "EnableCommitPipelineStages \<Rightarrow> bool" where
  "spawn_flush_thread s = spawn_log_thread s"

definition spawn_cleanup_thread :: "EnableCommitPipelineStages \<Rightarrow> bool" where
  "spawn_cleanup_thread s = spawn_commit_thread s"

definition stages_do_drop :: "EnableCommitPipelineStages \<Rightarrow> bool" where
  "stages_do_drop s \<longleftrightarrow> s = Standard"

text \<open>
  A thread that was spawned carries its local \<open>more_work\<close>; \<open>None\<close> is a thread that was not spawned or
  has ended. The log thread first looks for a pending reindex, before its loop.
\<close>

record Db =
  dd_inner :: DbInner
  dd_commit_thread :: "bool option"
  dd_flush_thread :: "bool option"
  dd_log_thread :: "bool option"
  dd_log_started :: bool
  dd_cleanup_thread :: "bool option"
  dd_min_log_size :: u64
  dd_do_drop :: bool

definition spawned :: "bool \<Rightarrow> bool \<Rightarrow> bool option" where
  "spawned b more_work = (if b then Some more_work else None)"

definition Db_open_inner ::
    "Crates \<Rightarrow> Salt \<Rightarrow> Options \<Rightarrow> InternalOptions \<Rightarrow> Disk \<Rightarrow> (Db \<times> Disk) res" where
  "Db_open_inner cr random options inner_options disk =
     (let stages = io_commit_stages inner_options in
     and_then (ensure (Options_is_valid options) (Panic ''assertion failed: options.is_valid()'')) (\<lambda>_.
     and_then (DbInner_open cr random options inner_options disk) (\<lambda>(d, disk).
     and_then (DbInner_replay_all_logs cr d) (\<lambda>d.
       Inr (if io_read_only inner_options then
              \<lparr>dd_inner = d, dd_commit_thread = None, dd_flush_thread = None, dd_log_thread = None,
               dd_log_started = False, dd_cleanup_thread = None, dd_min_log_size = MIN_LOG_SIZE,
               dd_do_drop = stages_do_drop stages\<rparr>
            else
              \<lparr>dd_inner = d,
               dd_commit_thread = spawned (spawn_commit_thread stages) False,
               dd_flush_thread = spawned (spawn_flush_thread stages) False,
               dd_log_thread = spawned (spawn_log_thread stages) False,
               dd_log_started = False,
               dd_cleanup_thread = spawned (spawn_cleanup_thread stages) True,
               dd_min_log_size = (if stages = DbFile then 0 else MIN_LOG_SIZE),
               dd_do_drop = stages_do_drop stages\<rparr>,
            disk)))))"

definition InternalOptions_default :: InternalOptions where
  "InternalOptions_default = \<lparr>io_create = False, io_read_only = False,
     io_commit_stages = EnableCommitPipelineStages_default, io_skip_check_lock = False\<rparr>"

definition Db_with_columns :: "Crates \<Rightarrow> Salt \<Rightarrow> string \<Rightarrow> u8 \<Rightarrow> Disk \<Rightarrow> (Db \<times> Disk) res" where
  "Db_with_columns cr random path num_columns disk =
     Db_open_inner cr random (Options_with_columns path num_columns)
       (InternalOptions_default\<lparr>io_create := True\<rparr>) disk"

definition Db_open :: "Crates \<Rightarrow> Salt \<Rightarrow> Options \<Rightarrow> Disk \<Rightarrow> (Db \<times> Disk) res" where
  "Db_open cr random options disk =
     Db_open_inner cr random options InternalOptions_default disk"

definition Db_open_or_create :: "Crates \<Rightarrow> Salt \<Rightarrow> Options \<Rightarrow> Disk \<Rightarrow> (Db \<times> Disk) res" where
  "Db_open_or_create cr random options disk =
     Db_open_inner cr random options (InternalOptions_default\<lparr>io_create := True\<rparr>)
       disk"

definition Db_open_read_only :: "Crates \<Rightarrow> Salt \<Rightarrow> Options \<Rightarrow> Disk \<Rightarrow> (Db \<times> Disk) res" where
  "Db_open_read_only cr random options disk =
     Db_open_inner cr random options (InternalOptions_default\<lparr>io_read_only := True\<rparr>)
       disk"


section \<open>The calls of a client\<close>

definition Db_get :: "Crates \<Rightarrow> Db \<Rightarrow> ColId \<Rightarrow> bytes \<Rightarrow> (bytes option \<times> Db) res" where
  "Db_get cr db col key =
     and_then (DbInner_get cr (dd_inner db) col key) (\<lambda>(v, d). Inr (v, db\<lparr>dd_inner := d\<rparr>))"

definition Db_get_size :: "Crates \<Rightarrow> Db \<Rightarrow> ColId \<Rightarrow> bytes \<Rightarrow> (u32 option \<times> Db) res" where
  "Db_get_size cr db col key =
     and_then (DbInner_get_size cr (dd_inner db) col key) (\<lambda>(v, d). Inr (v, db\<lparr>dd_inner := d\<rparr>))"

definition Db_commit ::
    "Crates \<Rightarrow> Db \<Rightarrow> (ColId \<times> bytes \<times> bytes option) list \<Rightarrow> bool \<Rightarrow> Db res option" where
  "Db_commit cr db tx woken =
     map_option (\<lambda>r. and_then r (\<lambda>d. Inr (db\<lparr>dd_inner := d\<rparr>))) (DbInner_commit cr (dd_inner db) tx woken)"

definition Db_commit_raw :: "Db \<Rightarrow> operation list \<Rightarrow> bool \<Rightarrow> Db res option" where
  "Db_commit_raw db commit woken =
     map_option (\<lambda>r. and_then r (\<lambda>d. Inr (db\<lparr>dd_inner := d\<rparr>))) (DbInner_commit_raw (dd_inner db) commit woken)"

definition Db_num_columns :: "Db \<Rightarrow> u8" where
  "Db_num_columns db = of_nat (length (db_columns (dd_inner db)))"

definition Db_iter_column_while ::
    "Crates \<Rightarrow> Db \<Rightarrow> ColId \<Rightarrow> ('s \<Rightarrow> IterState \<Rightarrow> bool \<times> 's) \<Rightarrow> 's \<Rightarrow> 's res" where
  "Db_iter_column_while cr db col f s = DbInner_iter_column_while cr (dd_inner db) col f s"

definition Db_collect_stats :: "Db \<Rightarrow> string \<Rightarrow> u8 option \<Rightarrow> (Db \<times> string) res" where
  "Db_collect_stats db writer column =
     and_then (DbInner_collect_stats (dd_inner db) writer column) (\<lambda>(d, writer). Inr (db\<lparr>dd_inner := d\<rparr>, writer))"

definition Db_clear_stats :: "Db \<Rightarrow> u8 option \<Rightarrow> Db res" where
  "Db_clear_stats db column =
     and_then (DbInner_clear_stats (dd_inner db) column) (\<lambda>d. Inr (db\<lparr>dd_inner := d\<rparr>))"

primrec check_columns :: "Crates \<Rightarrow> LogQuery \<Rightarrow> CheckOptions \<Rightarrow> Column list \<Rightarrow> report list res" where
  "check_columns cr q p [] = Inr []"
| "check_columns cr q p (c # cs) =
     and_then (Column_check_from_index (cr_codecs cr) (cr_blake2b cr) c q p) (\<lambda>r.
     and_then (check_columns cr q p cs) (\<lambda>rs. Inr (r @ rs)))"

definition Db_check_from_index :: "Crates \<Rightarrow> Db \<Rightarrow> CheckOptions \<Rightarrow> report list res" where
  "Db_check_from_index cr db p =
     (let q = LogOverlays_query (lg_overlays (db_log (dd_inner db)))
      in case ck_column p of
           Some col \<Rightarrow>
             and_then (column_at (dd_inner db) col) (\<lambda>c.
               Column_check_from_index (cr_codecs cr) (cr_blake2b cr) c q p)
         | None \<Rightarrow> check_columns cr q p (db_columns (dd_inner db)))"


section \<open>The rounds of the workers\<close>

text \<open>
  A round gives \<open>Inr (None, d)\<close> when the worker returns and \<open>Inr (Some more_work, d)\<close> when it goes on.
\<close>

type_synonym round = "(bool option \<times> DbInner) res option"

definition commit_worker_round :: "Crates \<Rightarrow> bool \<Rightarrow> DbInner \<Rightarrow> round" where
  "commit_worker_round cr more_work d =
     (if db_shutdown d \<and> \<not> more_work then Some (Inr (None, d))
      else if more_work then
        Some (and_then (DbInner_enact_logs cr d False) (\<lambda>(more, d). Inr (Some more, d)))
      else
        (case WaitCondvar_wait (db_commit_worker_wait d) of
           None \<Rightarrow> None
         | Some work \<Rightarrow>
             Some (and_then (DbInner_enact_logs cr (d\<lparr>db_commit_worker_wait := work\<rparr>) False)
                    (\<lambda>(more, d). Inr (Some more, d)))))"

definition log_worker_body :: "Crates \<Rightarrow> DbInner \<Rightarrow> round" where
  "log_worker_body cr d =
     map_option (\<lambda>r.
       and_then r (\<lambda>(more_commits, d).
       and_then (DbInner_process_reindex cr d) (\<lambda>(more_reindex, d).
         Inr (Some (more_commits \<or> more_reindex), d)))) (DbInner_process_commits cr d)"

definition log_worker_start :: "Crates \<Rightarrow> DbInner \<Rightarrow> round" where
  "log_worker_start cr d =
     Some (and_then (DbInner_process_reindex cr d) (\<lambda>(more_work, d). Inr (Some more_work, d)))"

definition log_worker_round :: "Crates \<Rightarrow> bool \<Rightarrow> DbInner \<Rightarrow> round" where
  "log_worker_round cr more_work d =
     (if db_shutdown d \<and> \<not> more_work then Some (Inr (None, d))
      else if more_work then log_worker_body cr d
      else
        (case WaitCondvar_wait (db_log_worker_wait d) of
           None \<Rightarrow> None
         | Some work \<Rightarrow> log_worker_body cr (d\<lparr>db_log_worker_wait := work\<rparr>)))"

definition flush_worker_body :: "u64 \<Rightarrow> DbInner \<Rightarrow> round" where
  "flush_worker_body min_log_size d =
     map_option (\<lambda>(more, d). Inr (Some more, d)) (DbInner_flush_logs d min_log_size)"

definition flush_worker_round :: "u64 \<Rightarrow> bool \<Rightarrow> DbInner \<Rightarrow> round" where
  "flush_worker_round min_log_size more_work d =
     (if db_shutdown d then Some (Inr (None, d))
      else if more_work then flush_worker_body min_log_size d
      else
        (case WaitCondvar_wait (db_flush_worker_wait d) of
           None \<Rightarrow> None
         | Some work \<Rightarrow> flush_worker_body min_log_size (d\<lparr>db_flush_worker_wait := work\<rparr>)))"

definition cleanup_worker_round :: "bool \<Rightarrow> DbInner \<Rightarrow> round" where
  "cleanup_worker_round more_work d =
     (if db_shutdown d \<and> \<not> more_work then Some (Inr (None, d))
      else if more_work then Some (and_then (DbInner_cleanup_logs d) (\<lambda>(more, d). Inr (Some more, d)))
      else
        (case WaitCondvar_wait (db_cleanup_worker_wait d) of
           None \<Rightarrow> None
         | Some work \<Rightarrow>
             Some (and_then (DbInner_cleanup_logs (d\<lparr>db_cleanup_worker_wait := work\<rparr>))
                    (\<lambda>(more, d). Inr (Some more, d)))))"


section \<open>Closing\<close>

text \<open>
  \<open>drop\<close>: after \<open>shutdown\<close> the threads are joined; \<open>Db_drop_end\<close> is what follows when they have ended.
  An error of \<open>kill_logs\<close> is only reported.
\<close>

definition Db_drop_begin :: "Db \<Rightarrow> Db" where
  "Db_drop_begin db = (if dd_do_drop db then db\<lparr>dd_inner := DbInner_shutdown (dd_inner db)\<rparr> else db)"

definition Db_joined :: "Db \<Rightarrow> bool" where
  "Db_joined db \<longleftrightarrow> dd_log_thread db = None \<and> dd_flush_thread db = None \<and> dd_commit_thread db = None \<and>
     dd_cleanup_thread db = None"

definition Db_drop_end :: "Crates \<Rightarrow> Db \<Rightarrow> DbInner res" where
  "Db_drop_end cr db = (if dd_do_drop db then DbInner_kill_logs cr (dd_inner db) else Inr (dd_inner db))"


section \<open>Interleaving\<close>

inductive db_step :: "Crates \<Rightarrow> Db \<Rightarrow> Db \<Rightarrow> bool" for cr where
  commit: "Db_commit cr db tx woken = Some (Inr db') \<Longrightarrow> db_step cr db db'"
| get: "Db_get cr db col key = Inr (v, db') \<Longrightarrow> db_step cr db db'"
| log_start: "dd_log_thread db = Some m \<Longrightarrow> \<not> dd_log_started db \<Longrightarrow>
    log_worker_start cr (dd_inner db) = Some (Inr (m', d)) \<Longrightarrow>
    db_step cr db (db\<lparr>dd_inner := d, dd_log_thread := m', dd_log_started := True\<rparr>)"
| log_round: "dd_log_thread db = Some m \<Longrightarrow> dd_log_started db \<Longrightarrow>
    log_worker_round cr m (dd_inner db) = Some (Inr (m', d)) \<Longrightarrow>
    db_step cr db (db\<lparr>dd_inner := d, dd_log_thread := m'\<rparr>)"
| flush_round: "dd_flush_thread db = Some m \<Longrightarrow>
    flush_worker_round (dd_min_log_size db) m (dd_inner db) = Some (Inr (m', d)) \<Longrightarrow>
    db_step cr db (db\<lparr>dd_inner := d, dd_flush_thread := m'\<rparr>)"
| commit_round: "dd_commit_thread db = Some m \<Longrightarrow>
    commit_worker_round cr m (dd_inner db) = Some (Inr (m', d)) \<Longrightarrow>
    db_step cr db (db\<lparr>dd_inner := d, dd_commit_thread := m'\<rparr>)"
| cleanup_round: "dd_cleanup_thread db = Some m \<Longrightarrow>
    cleanup_worker_round m (dd_inner db) = Some (Inr (m', d)) \<Longrightarrow>
    db_step cr db (db\<lparr>dd_inner := d, dd_cleanup_thread := m'\<rparr>)"
| log_start_failed: "dd_log_thread db = Some m \<Longrightarrow> \<not> dd_log_started db \<Longrightarrow>
    log_worker_start cr (dd_inner db) = Some (Inl (Err e)) \<Longrightarrow>
    db_step cr db (db\<lparr>dd_inner := DbInner_store_err (dd_inner db) (Some e), dd_log_thread := None\<rparr>)"
| log_failed: "dd_log_thread db = Some m \<Longrightarrow> dd_log_started db \<Longrightarrow>
    log_worker_round cr m (dd_inner db) = Some (Inl (Err e)) \<Longrightarrow>
    db_step cr db (db\<lparr>dd_inner := DbInner_store_err (dd_inner db) (Some e), dd_log_thread := None\<rparr>)"
| commit_failed: "dd_commit_thread db = Some m \<Longrightarrow>
    commit_worker_round cr m (dd_inner db) = Some (Inl (Err e)) \<Longrightarrow>
    db_step cr db (db\<lparr>dd_inner := DbInner_store_err (dd_inner db) (Some e), dd_commit_thread := None\<rparr>)"
| cleanup_failed: "dd_cleanup_thread db = Some m \<Longrightarrow>
    cleanup_worker_round m (dd_inner db) = Some (Inl (Err e)) \<Longrightarrow>
    db_step cr db (db\<lparr>dd_inner := DbInner_store_err (dd_inner db) (Some e), dd_cleanup_thread := None\<rparr>)"
| drop_begin: "db_step cr db (Db_drop_begin db)"

end
