(* ===== verification/Db_Correct.thy ===== *)
theory Db_Correct
  imports Db_Workers
begin

text \<open>
  Properties of the database as a whole: the overlay of pending commits shows exactly the latest
  queued writes, commits are read back at once, an error of a background thread stops further commits,
  and the threads end after a shutdown. The invariants hold for every interleaving of \<open>db_step\<close>.
\<close>

section \<open>Pending writes\<close>

text \<open>
  The writes of queued commits to a key, oldest first. The removal of a ref-counted key is not shown
  by the overlay: it may only lower the counter.
\<close>

definition shown :: "Metadata \<Rightarrow> ColId \<Rightarrow> Key \<Rightarrow> operation \<Rightarrow> bool" where
  "shown md col k x \<longleftrightarrow> fst x = col \<and> fst (snd x) = k \<and>
     (\<not> co_ref_counted (md_columns md ! unat col) \<or> snd (snd x) \<noteq> None)"

definition op_writes :: "Metadata \<Rightarrow> u64 \<Rightarrow> operation list \<Rightarrow> ColId \<Rightarrow> Key \<Rightarrow> (u64 \<times> bytes option) list" where
  "op_writes md r xs col k = map (\<lambda>x. (r, snd (snd x))) (filter (shown md col k) xs)"

definition writes :: "Metadata \<Rightarrow> Commit list \<Rightarrow> ColId \<Rightarrow> Key \<Rightarrow> (u64 \<times> bytes option) list" where
  "writes md cs col k = concat (map (\<lambda>c. op_writes md (cm_id c) (cm_changeset c) col k) cs)"

definition last_opt :: "'a list \<Rightarrow> 'a option" where
  "last_opt xs = (if xs = [] then None else Some (last xs))"

definition over :: "'a option \<Rightarrow> 'a option \<Rightarrow> 'a option" where
  "over old new = (case new of None \<Rightarrow> old | Some x \<Rightarrow> Some x)"

lemma over_simps [simp]: "over old None = old" "over old (Some x) = Some x" "over None y = y"
  by (simp_all add: over_def split: option.split)

lemma over_assoc [simp]: "over (over a b) c = over a (over b c)"
  by (simp add: over_def split: option.split)

lemma last_opt_simps [simp]:
  "last_opt [] = None" "last_opt (x # xs) = over (Some x) (last_opt xs)"
  "last_opt (xs @ ys) = over (last_opt xs) (last_opt ys)"
  by (auto simp: last_opt_def over_def)

lemma writes_simps [simp]:
  "writes md [] col k = []"
  "writes md (c # cs) col k = op_writes md (cm_id c) (cm_changeset c) col k @ writes md cs col k"
  "writes md (cs @ cs') col k = writes md cs col k @ writes md cs' col k"
  by (simp_all add: writes_def)

lemma op_writes_simps [simp]:
  "op_writes md r [] col k = []"
  "op_writes md r (x # xs) col k = (if shown md col k x then [(r, snd (snd x))] else []) @ op_writes md r xs col k"
  by (simp_all add: op_writes_def)

definition op_bytes :: "operation \<Rightarrow> nat" where
  "op_bytes x = length (fst (snd x)) + (case snd (snd x) of None \<Rightarrow> 0 | Some v \<Rightarrow> length v)"

definition ops_in_range :: "Metadata \<Rightarrow> operation list \<Rightarrow> bool" where
  "ops_in_range md xs \<longleftrightarrow> (\<forall>x\<in>set xs. unat (fst x) < length (md_columns md))"

lemma ops_in_range_simps [simp]:
  "ops_in_range md []"
  "ops_in_range md (x # xs) \<longleftrightarrow> unat (fst x) < length (md_columns md) \<and> ops_in_range md xs"
  by (auto simp: ops_in_range_def)

lemma overlay_put:
  fixes c col :: ColId
  assumes "unat col < length ov"
  shows "map_of (ov[unat c := AList.update k v (ov ! unat c)] ! unat col) k' =
     (if col = c \<and> k' = k then Some v else map_of (ov ! unat col) k')"
proof (cases "col = c")
  case False
  then have "unat c \<noteq> unat col" by (metis unsigned_word_eqI)
  with False show ?thesis by simp
qed (use assms in \<open>simp add: update_conv'\<close>)

lemma overlay_drop:
  fixes c col :: ColId
  assumes "unat col < length ov"
  shows "map_of (ov[unat c := AList.delete k (ov ! unat c)] ! unat col) k' =
     (if col = c \<and> k' = k then None else map_of (ov ! unat col) k')"
proof (cases "col = c")
  case False
  then have "unat c \<noteq> unat col" by (metis unsigned_word_eqI)
  with False show ?thesis by simp
qed (use assms in \<open>simp add: delete_conv'\<close>)

lemma queue_operations_ok:
  assumes "length ov = length (md_columns md)"
  shows "ops_in_range md xs \<Longrightarrow> \<exists>ov'. queue_operations md r xs n ov = Inr (n + sum_list (map op_bytes xs), ov') \<and>
     length ov' = length ov \<and>
     (\<forall>col k. unat col < length ov \<longrightarrow>
        map_of (ov' ! unat col) k = over (map_of (ov ! unat col) k) (last_opt (op_writes md r xs col k)))"
  using assms
proof (induction xs arbitrary: n ov)
  case (Cons x xs)
  obtain c k v where x: "x = (c, k, v)" by (cases x)
  define ov1 where "ov1 = (if \<not> co_ref_counted (md_columns md ! unat c) \<or> v \<noteq> None
      then ov[unat c := AList.update k (r, v) (ov ! unat c)] else ov)"
  have len: "length ov1 = length (md_columns md)" using Cons.prems by (simp add: ov1_def)
  have range: "unat c < length (md_columns md)" "ops_in_range md xs" using Cons.prems by (simp_all add: x)
  obtain ov' where ov': "queue_operations md r xs (n + op_bytes x) ov1 =
        Inr (n + op_bytes x + sum_list (map op_bytes xs), ov')" "length ov' = length ov1"
      "\<forall>col k. unat col < length ov1 \<longrightarrow>
        map_of (ov' ! unat col) k = over (map_of (ov1 ! unat col) k) (last_opt (op_writes md r xs col k))"
    using Cons.IH [OF range(2) len] by blast
  have "queue_operations md r (x # xs) n ov = queue_operations md r xs (n + op_bytes x) ov1"
    using range(1) Cons.prems(2) by (auto simp: x ov1_def op_bytes_def Let_def add_ac)
  moreover have "map_of (ov1 ! unat col) k' = over (map_of (ov ! unat col) k')
      (if shown md col k' x then Some (r, v) else None)" if "unat col < length ov" for col k'
    using that by (auto simp: ov1_def x shown_def overlay_put update_conv')
  ultimately show ?case
    using ov' Cons.prems(2) len by (auto simp: add_ac x)
qed simp

lemma clean_overlay_fold:
  assumes "unat col < length ov"
  shows "ops_in_range md xs \<Longrightarrow> length ov = length (md_columns md) \<Longrightarrow>
     length (fold (clean_overlay r) xs ov) = length ov \<and>
     map_of (fold (clean_overlay r) xs ov ! unat col) k =
       (if (\<exists>x\<in>set xs. fst x = col \<and> fst (snd x) = k) \<and> (\<exists>v. map_of (ov ! unat col) k = Some (r, v)) then None
        else map_of (ov ! unat col) k)"
  using assms
proof (induction xs arbitrary: ov)
  case (Cons x xs)
  obtain c k1 v where x: "x = (c, k1, v)" by (cases x)
  define ov1 where "ov1 = clean_overlay r x ov"
  have len: "length ov1 = length ov"
    by (auto simp: ov1_def clean_overlay_def x Let_def split: option.split)
  have "map_of (ov1 ! unat col) k =
      (if fst x = col \<and> fst (snd x) = k \<and> (\<exists>v. map_of (ov ! unat col) k = Some (r, v)) then None
       else map_of (ov ! unat col) k)"
    using Cons.prems(3)
    by (auto simp: ov1_def clean_overlay_def x Let_def overlay_drop delete_conv' split: option.split)
  then show ?case
    using Cons.IH [of ov1] Cons.prems len by (auto simp: ov1_def)
qed simp

section \<open>The queue and its overlay\<close>

definition numbered :: "CommitQueue \<Rightarrow> bool" where
  "numbered q \<longleftrightarrow> (\<forall>i<length (cq_commits q).
     cm_id (cq_commits q ! i) = cq_record_id q + 1 - of_nat (length (cq_commits q) - 1 - i))"

text \<open>
  Commits are numbered one after the other, the counted bytes are those of the queued operations, and
  the overlay shows for every key the latest queued write and nothing else.
\<close>

definition queue_inv :: "DbInner \<Rightarrow> bool" where
  "queue_inv d \<longleftrightarrow>
     (let q = db_commit_queue d; md = db_metadata d in
      length (db_commit_overlay d) = length (md_columns md) \<and>
      numbered q \<and>
      cq_bytes q = sum_list (map cm_bytes (cq_commits q)) \<and>
      (\<forall>c\<in>set (cq_commits q). ops_in_range md (cm_changeset c) \<and>
         cm_bytes c = sum_list (map op_bytes (cm_changeset c))) \<and>
      (\<forall>col k. unat col < length (md_columns md) \<longrightarrow>
         map_of (db_commit_overlay d ! unat col) k = last_opt (writes md (cq_commits q) col k)))"

lemma numbered_push:
  assumes "numbered q"
  shows "numbered (q\<lparr>cq_record_id := cq_record_id q + 1, cq_commits := cq_commits q @ [c\<lparr>cm_id := cq_record_id q + 2\<rparr>],
     cq_bytes := n\<rparr>)"
  using assms by (auto simp: numbered_def nth_append less_Suc_eq Suc_diff_Suc algebra_simps of_nat_diff)

lemma numbered_pop:
  assumes "numbered q" and "cq_commits q = c # rest"
  shows "numbered (q\<lparr>cq_commits := rest, cq_bytes := n\<rparr>)"
  unfolding numbered_def
proof (intro allI impI)
  fix i assume "i < length (cq_commits (q\<lparr>cq_commits := rest, cq_bytes := n\<rparr>))"
  then have "Suc i < length (cq_commits q)" by (simp add: assms(2))
  then have "cm_id (cq_commits q ! Suc i) = cq_record_id q + 1 - of_nat (length (cq_commits q) - 1 - Suc i)"
    using assms(1) unfolding numbered_def by blast
  then show "cm_id (cq_commits (q\<lparr>cq_commits := rest, cq_bytes := n\<rparr>) ! i) =
      cq_record_id (q\<lparr>cq_commits := rest, cq_bytes := n\<rparr>) + 1 -
      of_nat (length (cq_commits (q\<lparr>cq_commits := rest, cq_bytes := n\<rparr>)) - 1 - i)"
    by (simp add: assms(2))
qed

lemma numbered_first:
  assumes "numbered q" and "cq_commits q = c # rest" and "length rest < 2 ^ 64" and "c' \<in> set rest"
  shows "cm_id c' \<noteq> cm_id c"
proof -
  obtain i where i: "i < length rest" "c' = rest ! i" using assms(4) by (metis in_set_conv_nth)
  have "cm_id (cq_commits q ! Suc i) = cq_record_id q + 1 - of_nat (length rest - Suc i)"
    "cm_id (cq_commits q ! 0) = cq_record_id q + 1 - of_nat (length rest)"
    using assms(1,2) i(1) by (auto simp: numbered_def)
  moreover have "(of_nat (length rest - Suc i) :: u64) \<noteq> of_nat (length rest)"
  proof
    assume "(of_nat (length rest - Suc i) :: u64) = of_nat (length rest)"
    then have "unat (of_nat (length rest - Suc i) :: u64) = unat (of_nat (length rest) :: u64)" by (rule arg_cong)
    moreover have "unat (of_nat (length rest - Suc i) :: u64) = length rest - Suc i"
      by (rule of_nat_inverse [OF refl]) (use assms(3) in simp)
    moreover have "unat (of_nat (length rest) :: u64) = length rest"
      by (rule of_nat_inverse [OF refl]) (use assms(3) in simp)
    ultimately show False using i(1) by linarith
  qed
  ultimately have "cm_id (cq_commits q ! Suc i) \<noteq> cm_id (cq_commits q ! 0)" by (simp only: diff_conv_add_uminus add_left_cancel neg_equal_iff_equal) simp
  then show ?thesis using i by (simp add: assms(2))
qed

text \<open>Queueing a commit and taking one out keep the invariant.\<close>

lemma queue_inv_commit:
  assumes "queue_inv d" and "commit_raw_queue d xs = Inr d'" and "ops_in_range (db_metadata d) xs"
  shows "queue_inv d'"
proof -
  let ?md = "db_metadata d" and ?q = "db_commit_queue d"
  have len: "length (db_commit_overlay d) = length (md_columns ?md)"
    using assms(1) by (simp add: queue_inv_def Let_def)
  obtain ov' where ov': "queue_operations ?md (cq_record_id ?q + 2) xs 0 (db_commit_overlay d) =
        Inr (sum_list (map op_bytes xs), ov')" "length ov' = length (db_commit_overlay d)"
      "\<forall>col k. unat col < length (db_commit_overlay d) \<longrightarrow> map_of (ov' ! unat col) k =
        over (map_of (db_commit_overlay d ! unat col) k) (last_opt (op_writes ?md (cq_record_id ?q + 2) xs col k))"
    using queue_operations_ok [OF len assms(3), of "cq_record_id ?q + 2" 0] by auto
  define c where "c = \<lparr>cm_id = cq_record_id ?q + 2, cm_bytes = sum_list (map op_bytes xs), cm_changeset = xs\<rparr>"
  define q' where "q' = ?q\<lparr>cq_record_id := cq_record_id ?q + 1, cq_commits := cq_commits ?q @ [c],
      cq_bytes := cq_bytes ?q + cm_bytes c\<rparr>"
  have d': "db_commit_overlay d' = ov'" "db_commit_queue d' = q'" "db_metadata d' = ?md"
    using assms(2) ov'(1)
    by (auto simp: commit_raw_queue_def Let_def q'_def c_def add.commute add.assoc split: option.splits)
  have "numbered q'"
    using numbered_push [where q = ?q and c = c] assms(1) by (simp add: queue_inv_def Let_def q'_def c_def)
  then show ?thesis
    using assms(1,3) ov'(2,3) len
    by (auto simp: queue_inv_def Let_def d' q'_def c_def)
qed

lemma queue_operations_range:
  "queue_operations md r xs n ov = Inr y \<Longrightarrow> ops_in_range md xs"
  by (induction xs arbitrary: n ov) (auto simp: Let_def split: if_splits prod.splits)

lemma queue_inv_commit':
  assumes "queue_inv d" and "commit_raw_queue d xs = Inr d'"
  shows "queue_inv d'"
  using assms queue_inv_commit queue_operations_range
  by (fastforce simp: commit_raw_queue_def Let_def and_then_eq_Inr split: option.splits)

lemma writes_pop:
  assumes inv: "queue_inv d" and q: "cq_commits (db_commit_queue d) = c # rest"
    and few: "length rest < 2 ^ 64" and col: "unat col < length (md_columns (db_metadata d))"
  shows "map_of (fold (clean_overlay (cm_id c)) (cm_changeset c) (db_commit_overlay d) ! unat col) k =
     last_opt (writes (db_metadata d) rest col k)"
proof -
  let ?md = "db_metadata d" and ?w = "writes (db_metadata d) rest col k"
  have len: "length (db_commit_overlay d) = length (md_columns ?md)" and num: "numbered (db_commit_queue d)"
    and range: "ops_in_range ?md (cm_changeset c)"
    and ov: "map_of (db_commit_overlay d ! unat col) k =
      over (last_opt (op_writes ?md (cm_id c) (cm_changeset c) col k)) (last_opt ?w)"
    using inv col by (simp_all add: queue_inv_def Let_def q)
  have new: "fst x \<noteq> cm_id c" if "x \<in> set ?w" for x
    using that numbered_first [OF num q few] by (auto simp: writes_def op_writes_def)
  show ?thesis
  proof (cases "?w = []")
    case True
    then show ?thesis
      using clean_overlay_fold [where md = ?md and ov = "db_commit_overlay d" and col = col] len col range ov
      by (auto simp: last_opt_def op_writes_def shown_def filter_empty_conv last_map)
  next
    case False
    then have "fst (last ?w) \<noteq> cm_id c" using new by simp
    with False show ?thesis
      using clean_overlay_fold [where md = ?md and ov = "db_commit_overlay d" and col = col] len col range ov
      by (auto simp: last_opt_def)
  qed
qed

section \<open>What an operation leaves alone\<close>

text \<open>
  Only commits change the queue and the overlay, and only \<open>store_err\<close> and \<open>shutdown\<close> the error and the
  shutdown flag. Every operation reaches its log through operations of the log.
\<close>

definition db_frame :: "DbInner \<Rightarrow> DbInner \<Rightarrow> bool" where
  "db_frame d d' \<longleftrightarrow>
     db_commit_queue d' = db_commit_queue d \<and> db_commit_overlay d' = db_commit_overlay d \<and>
     db_metadata d' = db_metadata d \<and> db_options d' = db_options d \<and>
     db_bg_err d' = db_bg_err d \<and> db_shutdown d' = db_shutdown d"

lemma db_frame_refl [simp]: "db_frame d d"
  by (simp add: db_frame_def)

lemma db_frame_trans: "db_frame a b \<Longrightarrow> db_frame b c \<Longrightarrow> db_frame a c"
  by (simp add: db_frame_def)

lemma queue_inv_frame: "db_frame d d' \<Longrightarrow> queue_inv d' \<longleftrightarrow> queue_inv d"
  by (simp add: db_frame_def queue_inv_def)

definition log_room :: "DbInner \<Rightarrow> bool" where
  "log_room d \<longleftrightarrow> unat (lg_next_log_id (db_log d)) + 1 < 2 ^ 32"

definition log_runs :: "Crates \<Rightarrow> DbInner \<Rightarrow> DbInner \<Rightarrow> bool" where
  "log_runs cr d d' \<longleftrightarrow> (log_room d \<longrightarrow> (log_step (cr_crc32 cr))\<^sup>*\<^sup>* (db_log d) (db_log d'))"

lemma log_runs_same: "db_log d' = db_log d \<Longrightarrow> log_runs cr d d'"
  by (simp add: log_runs_def)

lemma log_runs_step: "log_step (cr_crc32 cr) (db_log d) (db_log d') \<Longrightarrow> log_runs cr d d'"
  by (simp add: log_runs_def r_into_rtranclp)

text \<open>Every record is written between \<open>begin_record\<close> and \<open>end_record\<close>.\<close>

lemma log_record_steps:
  assumes "Log_begin_record lg = (writer, lg1)" and "Log_end_record crc lg1 lc = Inr (n, lg2)"
    and "unat (lg_next_log_id lg) + 1 < 2 ^ 32"
  shows "(log_step crc)\<^sup>*\<^sup>* lg lg2"
proof -
  have "log_step crc lg lg1" using log_step.begin_record [of crc lg] assms(1) by simp
  moreover have "lg_next_log_id lg1 = lg_next_log_id lg"
    using assms(1) by (auto simp: Log_begin_record_def Let_def)
  then have "log_step crc lg1 lg2" using log_step.end_record [OF assms(2)] assms(3) by simp
  ultimately show ?thesis by (meson r_into_rtranclp rtranclp.rtrancl_into_rtrancl)
qed

lemma get_frame:
  "DbInner_get cr d col key = Inr (v, d') \<Longrightarrow> db_frame d d' \<and> db_log d' = db_log d"
  by (auto simp: DbInner_get_def and_then_eq_Inr db_frame_def set_column_def split: option.splits)

lemma process_commit_cases:
  assumes "process_commit cr d c = Inr d'"
  obtains writer lg1 r cols writer1 cols' writer2 n lg2 where
    "Log_begin_record (db_log d) = (writer, lg1)"
    "write_operations (cr_codecs cr) (cm_changeset c) False (db_columns d) writer = Inr (r, cols, writer1)"
    "complete_columns cols writer1 = (cols', writer2)"
    "Log_end_record (cr_crc32 cr) lg1 (LogWriter_drain writer2) = Inr (n, lg2)"
    "db_columns d' = cols'" "db_log d' = lg2"
    "db_frame (d\<lparr>db_commit_overlay := fold (clean_overlay (cm_id c)) (cm_changeset c) (db_commit_overlay d)\<rparr>) d'"
proof -
  obtain writer lg1 where b: "Log_begin_record (db_log d) = (writer, lg1)" by fastforce
  obtain r cols writer1 where w: "write_operations (cr_codecs cr) (cm_changeset c) False (db_columns d) writer =
      Inr (r, cols, writer1)"
    using assms by (auto simp: process_commit_def b and_then_eq_Inr)
  obtain cols' writer2 where cp: "complete_columns cols writer1 = (cols', writer2)" by fastforce
  obtain n lg2 where e: "Log_end_record (cr_crc32 cr) lg1 (LogWriter_drain writer2) = Inr (n, lg2)"
    using assms by (auto simp: process_commit_def b w cp and_then_eq_Inr Let_def)
  show thesis
    by (rule that [OF b w cp e]; use assms in \<open>cases r;
        auto simp: process_commit_def b w cp e Let_def DbInner_start_reindex_def db_frame_def\<close>)
qed

lemma process_commit_effect:
  assumes "process_commit cr d c = Inr d'"
  shows "db_frame (d\<lparr>db_commit_overlay := fold (clean_overlay (cm_id c)) (cm_changeset c) (db_commit_overlay d)\<rparr>) d' \<and>
    log_runs cr d d'"
  using assms
proof (cases rule: process_commit_cases)
  case (1 writer lg1 r cols writer1 cols' writer2 n lg2)
  then show ?thesis using log_record_steps [OF 1(1,4)] by (simp add: log_runs_def log_room_def)
qed

lemma reindex_record_effect:
  assumes "reindex_record cr d i dr batch = Inr d'"
  shows "db_frame d d' \<and> log_runs cr d d'"
proof -
  obtain writer lg1 where b: "Log_begin_record (db_log d) = (writer, lg1)" by fastforce
  obtain r col writer1 where w: "write_batch batch False (db_columns d ! i) writer = Inr (r, col, writer1)"
    using assms by (auto simp: reindex_record_def b and_then_eq_Inr)
  define writer2 where "writer2 = (case dr of Some table \<Rightarrow> LogWriter_drop_table writer1 table | None \<Rightarrow> writer1)"
  obtain n lg2 where e: "Log_end_record (cr_crc32 cr) lg1 (LogWriter_drain writer2) = Inr (n, lg2)"
    using assms by (auto simp: reindex_record_def b w writer2_def and_then_eq_Inr Let_def)
  have "log_room d \<Longrightarrow> (log_step (cr_crc32 cr))\<^sup>*\<^sup>* (db_log d) lg2"
    using log_record_steps [OF b e] by (simp add: log_room_def)
  then show ?thesis
    using assms e
    by (cases r) (auto simp: reindex_record_def b w writer2_def Let_def DbInner_start_reindex_def db_frame_def log_runs_def)
qed

lemma reindex_columns_effect:
  "reindex_columns cr d is = Inr (b, d') \<Longrightarrow> db_frame d d' \<and> log_runs cr d d'"
proof (induction "is" arbitrary: d)
  case Nil
  then show ?case by (auto simp: db_frame_def log_runs_def)
next
  case (Cons i "is")
  obtain dr batch col where r: "Column_reindex (db_columns d ! i) (LogOverlays_query (lg_overlays (db_log d))) =
      Inr ((dr, batch), col)"
    using Cons.prems by (auto simp: and_then_eq_Inr)
  let ?d = "d\<lparr>db_columns := (db_columns d)[i := col]\<rparr>"
  have "db_frame ?d d' \<and> log_runs cr ?d d'"
  proof (cases "batch \<noteq> [] \<or> dr \<noteq> None")
    case True
    then show ?thesis
      using Cons.prems reindex_record_effect [of cr ?d i dr batch d'] by (auto simp: r and_then_eq_Inr Let_def)
  next
    case False
    then show ?thesis using Cons.prems Cons.IH [of ?d] by (auto simp: r Let_def)
  qed
  then show ?case by (simp add: db_frame_def log_runs_def log_room_def)
qed

lemma process_reindex_effect:
  "DbInner_process_reindex cr d = Inr (b, d') \<Longrightarrow> db_frame d d' \<and> log_runs cr d d'"
  by (auto simp: DbInner_process_reindex_def Let_def log_runs_def dest: reindex_columns_effect split: if_splits)

lemma revert_replay_effect:
  "revert_replay d = Inr (b, d') \<Longrightarrow> db_frame d d' \<and> log_runs cr d d'"
  by (auto simp: revert_replay_def and_then_eq_Inr db_frame_def log_step.clear_replay intro!: log_runs_step)

lemma enact_reader_effect:
  assumes "enact_reader cr d v reader = Inr (b, d')"
  shows "db_frame d d' \<and> log_runs cr d d'"
proof -
  obtain cols n rd where e: "enact_record (reader_fuel reader) cr (db_columns d) (db_next_reindex d) reader =
      Inr (cols, n, rd)"
    using assms by (auto simp: enact_reader_def and_then_eq_Inr)
  have "(log_step (cr_crc32 cr))\<^sup>*\<^sup>* (db_log d)
      (Log_end_read (Log_return_reader (db_log d) rd) (LogReader_drain rd) (lr_record_id rd))"
    by (meson log_step.end_read log_step.return_reader r_into_rtranclp rtranclp.rtrancl_into_rtrancl)
  then show ?thesis
    using assms by (cases v) (auto simp: enact_reader_def e Let_def db_frame_def log_runs_def)
qed

lemma log_runs_trans:
  assumes "log_runs cr d d1" and "log_runs cr d1 d2" and "lg_next_log_id (db_log d1) = lg_next_log_id (db_log d)"
  shows "log_runs cr d d2"
  using assms by (auto simp: log_runs_def log_room_def)

lemma read_next_log_id: "Log_read_next crc lg v = Inr (r, lg') \<Longrightarrow> lg_next_log_id lg' = lg_next_log_id lg"
  by (auto simp: Log_read_next_def split: if_splits option.splits sum.splits prod.splits LogAction.splits
      fault.splits error.splits io_error.splits)

text \<open>A record is enacted from the reader that \<open>read_next\<close> gave, with columns that validation may have extended.\<close>

lemma enact_logs_cases:
  assumes "DbInner_enact_logs cr d v = Inr (b, d')"
  obtains (revert_header) "v" "revert_replay d = Inr (b, d')"
    | (idle) lg where "Log_read_next (cr_crc32 cr) (db_log d) v = Inr (None, lg)" "\<not> b" "d' = d\<lparr>db_log := lg\<rparr>"
    | (revert) reader lg cols where "v" "Log_read_next (cr_crc32 cr) (db_log d) v = Inr (Some reader, lg)"
        "revert_replay (d\<lparr>db_log := lg, db_columns := cols\<rparr>) = Inr (b, d')"
    | (enact) reader lg cols reader' where "Log_read_next (cr_crc32 cr) (db_log d) v = Inr (Some reader, lg)"
        "enact_reader cr (d\<lparr>db_log := lg, db_columns := cols\<rparr>) v reader' = Inr (b, d')"
proof (cases "Log_read_next (cr_crc32 cr) (db_log d) v")
  case (Inl e)
  then show thesis
    using assms revert_header by (auto simp: DbInner_enact_logs_def split: fault.splits error.splits if_splits)
next
  case (Inr x)
  obtain r lg where x: "x = (r, lg)" by fastforce
  show thesis
  proof (cases r)
    case None
    then show thesis using assms Inr x idle by (auto simp: DbInner_enact_logs_def)
  next
    case (Some reader)
    have same: "d\<lparr>db_log := lg\<rparr> = d\<lparr>db_log := lg, db_columns := db_columns d\<rparr>" by simp
    note r = Inr [unfolded x Some]
    show thesis
    proof (cases v)
      case False
      then show thesis
        using assms enact [OF r, of "db_columns d" reader] r by (simp add: DbInner_enact_logs_def Let_def)
    next
      case True
      show thesis
      proof (cases "lr_record_id reader = db_last_enacted d + 1")
        case False
        then show thesis
          using assms revert [OF True r, of "db_columns d"] r True by (simp add: DbInner_enact_logs_def Let_def)
      next
        case seq: True
        obtain y cols where val: "validate_record (reader_fuel reader) cr (db_columns d) reader = (y, cols)"
          by fastforce
        show thesis
        proof (cases y)
          case (Inl e)
          then show thesis using assms r True seq val by (simp add: DbInner_enact_logs_def Let_def)
        next
          case (Inr z)
          then show thesis
            using assms r True seq val revert [OF True r, of cols] enact [OF r, of cols]
            by (cases z) (auto simp: DbInner_enact_logs_def Let_def and_then_eq_Inr)
        qed
      qed
    qed
  qed
qed

lemma enact_logs_effect:
  assumes "DbInner_enact_logs cr d v = Inr (b, d')"
  shows "db_frame d d' \<and> log_runs cr d d'"
proof -
  have later: "db_frame d d2 \<and> log_runs cr d d2"
    if r: "Log_read_next (cr_crc32 cr) (db_log d) v = Inr (x, lg)"
      and e: "db_frame (d\<lparr>db_log := lg, db_columns := cols\<rparr>) d2" "log_runs cr (d\<lparr>db_log := lg, db_columns := cols\<rparr>) d2"
    for x lg cols d2
  proof -
    have "log_runs cr d (d\<lparr>db_log := lg, db_columns := cols\<rparr>)"
      by (rule log_runs_step) (simp add: log_step.read_next [OF r])
    then show ?thesis
      using e log_runs_trans [of cr d "d\<lparr>db_log := lg, db_columns := cols\<rparr>" d2] read_next_log_id [OF r]
      by (simp add: db_frame_def)
  qed
  show ?thesis
    using assms
  proof (cases rule: enact_logs_cases)
    case revert_header
    then show ?thesis using revert_replay_effect by blast
  next
    case (idle lg)
    then show ?thesis
      using later [OF idle(1), of "db_columns d" d'] by (simp add: log_runs_same)
  next
    case (revert reader lg cols)
    then show ?thesis using revert_replay_effect later by blast
  next
    case (enact reader lg cols reader')
    then show ?thesis using enact_reader_effect later by blast
  qed
qed

lemma flush_logs_effect:
  "DbInner_flush_logs d n = Some (b, d') \<Longrightarrow> db_frame d d' \<and> log_runs cr d d'"
  by (auto simp: DbInner_flush_logs_def Let_def db_frame_def log_step.flush_one split: option.splits if_splits
      intro!: log_runs_step)

lemma cleanup_logs_effect:
  "DbInner_cleanup_logs d = Inr (b, d') \<Longrightarrow> db_frame d d' \<and> log_runs cr d d'"
  by (auto simp: DbInner_cleanup_logs_def Let_def db_frame_def and_then_eq_Inr log_runs_same split: if_splits
      intro!: log_runs_step log_step.clean_logs)

lemma end_record_next_id:
  assumes "Log_end_record crc lg lc = Inr (n, lg')"
  shows "lg_next_log_id lg' = lg_next_log_id lg \<or> lg_next_log_id lg' = lg_next_log_id lg + 1"
  using assms by (auto simp: Log_end_record_def and_then_eq_Inr Let_def split: option.splits list.splits prod.splits)

lemma process_commit_next_id:
  assumes "process_commit cr d c = Inr d'"
  shows "unat (lg_next_log_id (db_log d')) \<le> unat (lg_next_log_id (db_log d)) + 1"
  using assms
proof (cases rule: process_commit_cases)
  case (1 writer lg1 r cols writer1 cols' writer2 n lg2)
  have "lg_next_log_id lg1 = lg_next_log_id (db_log d)" using 1(1) by (auto simp: Log_begin_record_def Let_def)
  then show ?thesis using end_record_next_id [OF 1(4)] 1(6) by (auto simp: unat_word_ariths)
qed

section \<open>Every step\<close>

text \<open>
  The steps of a database that is not at the ends of its counters: fewer than \<open>2^64\<close> commits wait in
  the queue, and the numbers of the log files do not wrap around.
\<close>

definition db_room :: "Db \<Rightarrow> bool" where
  "db_room db \<longleftrightarrow> length (cq_commits (db_commit_queue (dd_inner db))) < 2 ^ 64 \<and>
     unat (lg_next_log_id (db_log (dd_inner db))) + 2 < 2 ^ 32"

lemma process_commits_cases:
  assumes "DbInner_process_commits cr d = Some (Inr (b, d'))"
  obtains (none) "cq_commits (db_commit_queue d) = []" "\<not> b" "d' = d"
    | (one) c rest where "cq_commits (db_commit_queue d) = c # rest" "b"
        "process_commit cr (d\<lparr>db_commit_queue := (db_commit_queue d)\<lparr>cq_commits := rest,
           cq_bytes := cq_bytes (db_commit_queue d) - cm_bytes c\<rparr>\<rparr>) c = Inr d'"
  using assms by (auto simp: DbInner_process_commits_def and_then_eq_Inr Let_def split: if_splits list.splits)

lemma process_commits_queue:
  assumes "DbInner_process_commits cr d = Some (Inr (b, d'))" and "queue_inv d"
    and "length (cq_commits (db_commit_queue d)) < 2 ^ 64"
  shows "queue_inv d'"
  using assms(1)
proof (cases rule: process_commits_cases)
  case none
  then show ?thesis using assms(2) by simp
next
  case (one c rest)
  let ?q = "(db_commit_queue d)\<lparr>cq_commits := rest, cq_bytes := cq_bytes (db_commit_queue d) - cm_bytes c\<rparr>"
  have eff: "db_commit_queue d' = ?q" "db_metadata d' = db_metadata d"
      "db_commit_overlay d' = fold (clean_overlay (cm_id c)) (cm_changeset c) (db_commit_overlay d)"
    using process_commit_effect [OF one(3)] by (simp_all add: db_frame_def)
  have num: "numbered ?q"
    using numbered_pop [OF _ one(1)] assms(2) by (simp add: queue_inv_def Let_def)
  have len: "length (db_commit_overlay d') = length (md_columns (db_metadata d))"
  proof -
    have range: "ops_in_range (db_metadata d) (cm_changeset c)"
      "length (db_commit_overlay d) = length (md_columns (db_metadata d))"
      using assms(2) by (simp_all add: queue_inv_def Let_def one(1))
    have "length (fold (clean_overlay r) xs ov) = length ov" for r xs ov
      by (induction xs arbitrary: ov) (auto simp: clean_overlay_def Let_def split: prod.split option.split)
    then show ?thesis by (simp add: eff range)
  qed
  have "map_of (db_commit_overlay d' ! unat col) k = last_opt (writes (db_metadata d) rest col k)"
    if "unat col < length (md_columns (db_metadata d))" for col k
    using writes_pop [OF assms(2) one(1) _ that] assms(3) by (simp add: eff one(1))
  with len num show ?thesis using assms(2) by (auto simp: queue_inv_def Let_def eff one(1))
qed

lemma process_commits_log:
  assumes "DbInner_process_commits cr d = Some (Inr (b, d'))"
  shows "log_runs cr d d' \<and> unat (lg_next_log_id (db_log d')) \<le> unat (lg_next_log_id (db_log d)) + 1 \<and>
    db_bg_err d' = db_bg_err d \<and> db_shutdown d' = db_shutdown d"
  using assms
proof (cases rule: process_commits_cases)
  case (one c rest)
  show ?thesis
    using process_commit_effect [OF one(3)] process_commit_next_id [OF one(3)]
    by (simp add: log_runs_def log_room_def db_frame_def)
qed (simp add: log_runs_same)

text \<open>What holds before and after every step of the database.\<close>

definition db_keeps :: "Crates \<Rightarrow> DbInner \<Rightarrow> DbInner \<Rightarrow> bool" where
  "db_keeps cr d d' \<longleftrightarrow>
     (queue_inv d \<longrightarrow> length (cq_commits (db_commit_queue d)) < 2 ^ 64 \<longrightarrow> queue_inv d') \<and>
     (unat (lg_next_log_id (db_log d)) + 2 < 2 ^ 32 \<longrightarrow> (log_step (cr_crc32 cr))\<^sup>*\<^sup>* (db_log d) (db_log d')) \<and>
     (db_bg_err d \<noteq> None \<longrightarrow> db_bg_err d' = db_bg_err d) \<and> (db_shutdown d \<longrightarrow> db_shutdown d')"

lemma db_keeps_frame: "db_frame d d' \<Longrightarrow> log_runs cr d d' \<Longrightarrow> db_keeps cr d d'"
  using queue_inv_frame [of d d'] by (auto simp: db_keeps_def log_runs_def log_room_def db_frame_def)

lemma log_worker_body_keeps:
  assumes "log_worker_body cr d = Some (Inr (m, d'))"
  shows "db_keeps cr d d'"
proof -
  obtain b d1 b2 where 1: "DbInner_process_commits cr d = Some (Inr (b, d1))"
    and 2: "DbInner_process_reindex cr d1 = Inr (b2, d')"
    using assms by (auto simp: log_worker_body_def and_then_eq_Inr)
  have "log_runs cr d1 d'" "db_frame d1 d'" using process_reindex_effect [OF 2] by blast+
  moreover have "log_runs cr d d1" using process_commits_log [OF 1] by blast
  ultimately have "(log_step (cr_crc32 cr))\<^sup>*\<^sup>* (db_log d) (db_log d')" if "unat (lg_next_log_id (db_log d)) + 2 < 2 ^ 32"
    using that process_commits_log [OF 1] by (auto simp: log_runs_def log_room_def)
  then show ?thesis
    using process_commits_queue [OF 1] process_commits_log [OF 1] queue_inv_frame [OF \<open>db_frame d1 d'\<close>] \<open>db_frame d1 d'\<close>
    by (auto simp: db_keeps_def db_frame_def)
qed

lemma db_keeps_start:
  assumes "db_keeps cr d1 d'" and "db_commit_queue d1 = db_commit_queue d" "db_commit_overlay d1 = db_commit_overlay d"
    "db_metadata d1 = db_metadata d" "db_log d1 = db_log d" "db_bg_err d1 = db_bg_err d" "db_shutdown d1 = db_shutdown d"
  shows "db_keeps cr d d'"
  using assms by (simp add: db_keeps_def queue_inv_def)

lemma log_worker_round_keeps: "log_worker_round cr m d = Some (Inr (m', d')) \<Longrightarrow> db_keeps cr d d'"
  by (auto simp: log_worker_round_def WaitCondvar_wait_def db_keeps_frame log_runs_same
      dest: log_worker_body_keeps intro: db_keeps_start split: if_splits option.splits)

lemma log_worker_start_keeps: "log_worker_start cr d = Some (Inr (m', d')) \<Longrightarrow> db_keeps cr d d'"
  using process_reindex_effect by (fastforce simp: log_worker_start_def and_then_eq_Inr intro: db_keeps_frame)

lemma commit_worker_round_keeps: "commit_worker_round cr m d = Some (Inr (m', d')) \<Longrightarrow> db_keeps cr d d'"
  by (auto simp: commit_worker_round_def WaitCondvar_wait_def db_keeps_frame log_runs_same and_then_eq_Inr
      dest!: enact_logs_effect intro: db_keeps_start [OF db_keeps_frame] split: if_splits option.splits)

lemma cleanup_worker_round_keeps: "cleanup_worker_round m d = Some (Inr (m', d')) \<Longrightarrow> db_keeps cr d d'"
  by (auto simp: cleanup_worker_round_def WaitCondvar_wait_def db_keeps_frame log_runs_same and_then_eq_Inr
      dest!: cleanup_logs_effect [where cr = cr] intro: db_keeps_start [OF db_keeps_frame] split: if_splits option.splits)

lemma flush_worker_round_keeps: "flush_worker_round n m d = Some (Inr (m', d')) \<Longrightarrow> db_keeps cr d d'"
  by (auto simp: flush_worker_round_def flush_worker_body_def WaitCondvar_wait_def db_keeps_frame log_runs_same
      dest!: flush_logs_effect [where cr = cr] intro: db_keeps_start [OF db_keeps_frame] split: if_splits option.splits)

lemma commit_keeps:
  assumes "DbInner_commit cr d tx woken = Some (Inr d')"
  shows "db_keeps cr d d'"
proof -
  obtain xs where q: "commit_raw_queue d xs = Inr d'"
    using assms by (auto simp: DbInner_commit_def DbInner_commit_raw_def split: sum.splits if_splits)
  then have "db_log d' = db_log d" "db_bg_err d = None" "db_shutdown d' = db_shutdown d"
    by (auto simp: commit_raw_queue_def and_then_eq_Inr Let_def split: option.splits)
  then show ?thesis using queue_inv_commit' [OF _ q] by (simp add: db_keeps_def)
qed

lemma store_err_keeps: "db_keeps cr d (DbInner_store_err d r)"
  by (auto simp: DbInner_store_err_def DbInner_shutdown_def db_keeps_def queue_inv_def split: option.splits)

lemma db_step_keeps: "db_step cr db db' \<Longrightarrow> db_keeps cr (dd_inner db) (dd_inner db')"
proof (induction rule: db_step.induct)
  case (commit db tx woken db')
  then show ?case by (auto simp: Db_commit_def and_then_eq_Inr commit_keeps)
next
  case (get db col key v db')
  then show ?case
    by (auto simp: Db_get_def and_then_eq_Inr log_runs_same dest!: get_frame intro!: db_keeps_frame)
next
  case (drop_begin db)
  show ?case by (auto simp: Db_drop_begin_def DbInner_shutdown_def db_keeps_def queue_inv_def)
qed (auto intro: log_worker_start_keeps log_worker_round_keeps flush_worker_round_keeps commit_worker_round_keeps
    cleanup_worker_round_keeps store_err_keeps)

section \<open>Properties\<close>

definition db_run :: "Crates \<Rightarrow> Db \<Rightarrow> Db \<Rightarrow> bool" where
  "db_run cr = (\<lambda>a b. db_step cr a b \<and> db_room a)\<^sup>*\<^sup>*"

lemma db_run_keeps:
  assumes "db_run cr db db'"
  shows "(queue_inv (dd_inner db) \<longrightarrow> queue_inv (dd_inner db')) \<and>
     (log_inv (db_log (dd_inner db)) \<longrightarrow> log_inv (db_log (dd_inner db'))) \<and>
     (db_bg_err (dd_inner db) \<noteq> None \<longrightarrow> db_bg_err (dd_inner db') = db_bg_err (dd_inner db))"
  using assms unfolding db_run_def
proof (induction rule: rtranclp_induct)
  case (step a b)
  have inv: "(log_step crc)\<^sup>*\<^sup>* lg lg' \<Longrightarrow> log_inv lg \<Longrightarrow> log_inv lg'" for crc lg lg'
    by (induction rule: rtranclp_induct) (auto intro: log_step_inv)
  have "db_keeps cr (dd_inner a) (dd_inner b)" "db_room a"
    using step.hyps(2) db_step_keeps by blast+
  then show ?case using step.IH inv by (auto simp: db_keeps_def db_room_def)
qed simp

text \<open>A database with one column and an empty log, for the witnesses.\<close>

definition sample_crates :: Crates where
  "sample_crates = \<lparr>cr_crc32 = (\<lambda>bs. of_nat (length bs)), cr_blake2b = (\<lambda>n salt key. take n (key @ replicate n 0)),
     cr_codecs = zero_codecs, cr_hex_encode = hex, cr_hex_decode = unhex\<rparr>"

definition sample_column :: Column where
  "sample_column = \<lparr>col_tables = \<lparr>tb_index = IndexTable_create_new ''db'' (ITableId_new 0 START_BITS), tb_value = []\<rparr>,
     col_reindex = \<lparr>rx_queue = [], rx_progress = 0\<rparr>, col_path = ''db'', col_preimage = False, col_uniform_keys = False,
     col_collect_stats = False, col_ref_counted = False, col_salt = sample_salt, col_stats = ColumnStats_empty,
     col_compression = Compress_new NoCompression 4096, col_db_version = CURRENT_VERSION, col_disk = (\<lambda>_. None)\<rparr>"

definition sample_inner :: DbInner where
  "sample_inner = \<lparr>db_columns = [sample_column], db_options = sample_options,
     db_metadata = \<lparr>md_salt = sample_salt, md_version = CURRENT_VERSION,
       md_columns = [\<lparr>co_preimage = False, co_uniform = False, co_sizes = [], co_ref_counted = False,
         co_compression = NoCompression, co_compression_treshold = 4096\<rparr>]\<rparr>,
     db_shutdown = False, db_log = sample_log,
     db_commit_queue = \<lparr>cq_record_id = 0, cq_bytes = 0, cq_commits = []\<rparr>,
     db_log_worker_wait = False, db_commit_worker_wait = False, db_commit_overlay = [[]], db_log_queue = 0,
     db_flush_worker_wait = False, db_cleanup_worker_wait = False, db_last_enacted = 1, db_next_reindex = 1,
     db_bg_err = None, db_stats_txt = None\<rparr>"

definition sample_db :: Db where
  "sample_db = \<lparr>dd_inner = sample_inner, dd_commit_thread = Some False, dd_flush_thread = Some False,
     dd_log_thread = Some False, dd_log_started = False, dd_cleanup_thread = Some True,
     dd_min_log_size = MIN_LOG_SIZE, dd_do_drop = True\<rparr>"

definition sample_tx :: "(ColId \<times> bytes \<times> bytes option) list" where
  "sample_tx = [(0, [1, 2], Some [7]), (0, [3], None), (0, [1, 2], Some [8, 9])]"

lemmas sample_simps = sample_crates_def sample_column_def sample_inner_def sample_db_def sample_tx_def
  Column_hash_def column_at_def

lemma sample_commit:
  "\<exists>db. Db_commit sample_crates sample_db sample_tx False = Some (Inr db)"
  by (simp add: Db_commit_def DbInner_commit_def DbInner_commit_raw_def commit_raw_queue_def sample_simps Let_def)

lemma sample_invariants: "queue_inv sample_inner" "log_inv (db_log sample_inner)"
  by (auto simp: queue_inv_def numbered_def sample_inner_def log_inv_def log_ids_def pipeline_def sample_log_simps)



text \<open>
  C5: a committed write is seen by the next read: the latest operation of the transaction on the key
  decides what \<open>get\<close> returns, and keys the transaction does not write (or only dereferences) read as
  before, for every key and column.
\<close>

theorem db_read_your_writes:
  assumes "DbInner_commit cr d tx woken = Some (Inr d')" and "hash_operations cr d tx = Inr ops"
    and "column_at d col = Inr c" and "Column_hash (cr_blake2b cr) c key = Inr k"
    and "length (db_columns d) = length (md_columns (db_metadata d))"
    and "length (db_commit_overlay d) = length (md_columns (db_metadata d))"
  shows "case last_opt (filter (shown (db_metadata d) col k) ops) of
      Some (_, _, v) \<Rightarrow> DbInner_get cr d' col key = Inr (v, d')
    | None \<Rightarrow> map_sum id fst (DbInner_get cr d' col key) = map_sum id fst (DbInner_get cr d col key)"
proof -
  let ?md = "db_metadata d" and ?r = "cq_record_id (db_commit_queue d) + 2"
  have q: "commit_raw_queue d ops = Inr d'"
    using assms(1,2) by (auto simp: DbInner_commit_def DbInner_commit_raw_def split: if_splits)
  have range: "ops_in_range ?md ops"
    using q queue_operations_range
    by (fastforce simp: commit_raw_queue_def Let_def and_then_eq_Inr split: option.splits)
  obtain ov' where ov': "queue_operations ?md ?r ops 0 (db_commit_overlay d) = Inr (sum_list (map op_bytes ops), ov')"
      "length ov' = length (db_commit_overlay d)"
      "\<forall>col k. unat col < length (db_commit_overlay d) \<longrightarrow> map_of (ov' ! unat col) k =
        over (map_of (db_commit_overlay d ! unat col) k) (last_opt (op_writes ?md ?r ops col k))"
    using queue_operations_ok [OF assms(6) range, of ?r 0] by auto
  have d': "db_commit_overlay d' = ov'" "db_columns d' = db_columns d" "db_log d' = db_log d"
    using q ov'(1) by (auto simp: commit_raw_queue_def Let_def add.commute add.assoc split: option.splits)
  have col: "unat col < length (db_commit_overlay d)" "db_columns d ! unat col = c"
    using assms(3,5,6) by (auto simp: column_at_def split: if_splits)
  have get: "overlay_get d' col k = map_option snd (over (map_of (db_commit_overlay d ! unat col) k)
      (last_opt (op_writes ?md ?r ops col k)))"
    using col ov'(2,3) by (simp add: overlay_get_def d')
  have at': "column_at d' col = Inr c" using assms(3) d' by (simp add: column_at_def split: if_splits)
  show ?thesis
  proof (cases "filter (shown ?md col k) ops = []")
    case True
    then have "overlay_get d' col k = overlay_get d col k"
      using get col by (simp add: op_writes_def overlay_get_def)
    with True show ?thesis
      by (cases "Column_get (cr_codecs cr) c k (LogOverlays_query (lg_overlays (db_log d)))")
         (auto simp: last_opt_def DbInner_get_def at' assms(3,4) d'(3) split: option.split)
  next
    case False
    then have "overlay_get d' col k = Some (snd (snd (last (filter (shown ?md col k) ops))))"
      using get by (simp add: op_writes_def last_opt_def last_map)
    then show ?thesis
      using False assms(4) at' by (simp add: last_opt_def DbInner_get_def split: prod.split)
  qed
qed

theorem db_read_your_writes_witness:
  "\<exists>d. DbInner_commit sample_crates sample_inner sample_tx False = Some (Inr d) \<and>
     DbInner_get sample_crates d 0 [1, 2] = Inr (Some [8, 9], d) \<and> DbInner_get sample_crates d 0 [3] = Inr (None, d)"
proof -
  obtain d where d: "DbInner_commit sample_crates sample_inner sample_tx False = Some (Inr d)"
    using sample_commit by (auto simp: Db_commit_def and_then_eq_Inr sample_db_def)
  define ops where "ops = (case hash_operations sample_crates sample_inner sample_tx of Inr ops \<Rightarrow> ops)"
  have ops: "hash_operations sample_crates sample_inner sample_tx = Inr ops"
    by (simp add: ops_def sample_simps)
  have at: "column_at sample_inner 0 = Inr sample_column" by (simp add: sample_inner_def column_at_def)
  have key: "Column_hash (cr_blake2b sample_crates) sample_column k = Inr (take 32 (k @ replicate 32 0))" for k
    by (simp add: Column_hash_def sample_column_def sample_crates_def)
  have len: "length (db_columns sample_inner) = length (md_columns (db_metadata sample_inner))"
    "length (db_commit_overlay sample_inner) = length (md_columns (db_metadata sample_inner))"
    by (simp_all add: sample_inner_def)
  note r = db_read_your_writes [OF d ops at key len]
  have "DbInner_get sample_crates d 0 [1, 2] = Inr (Some [8, 9], d)"
    using r [of "[1, 2]"] by (simp add: ops_def sample_simps shown_def eval_nat_numeral)
  moreover have "DbInner_get sample_crates d 0 [3] = Inr (None, d)"
    using r [of "[3]"] by (simp add: ops_def sample_simps shown_def eval_nat_numeral)
  ultimately show ?thesis using d by blast
qed



end
