(* ===== verification/Db_Liveness.thy ===== *)
theory Db_Liveness
  imports Db_Correct
begin

text \<open>
  The loops of the database end: a reader only moves forward in its file, enacting a record uses up
  bytes of the file, logging takes commits out of the queue and advances a reindex, and after a
  shutdown no thread waits any more.
\<close>

section \<open>Readers move forward\<close>

definition reads_on :: "LogReader \<Rightarrow> LogReader \<Rightarrow> bool" where
  "reads_on r r' \<longleftrightarrow> lr_file r' = lr_file r \<and> lr_pos r \<le> lr_pos r' \<and>
     (lr_pos r < lr_pos r' \<longrightarrow> lr_pos r' \<le> length (lr_file r))"

lemma reads_on_refl [simp]: "reads_on r r"
  by (simp add: reads_on_def)

lemma reads_on_trans [trans]: "reads_on a b \<Longrightarrow> reads_on b c \<Longrightarrow> reads_on a c"
  by (auto simp: reads_on_def)

lemma read_exact_reads_on: "LogReader_read_exact r n = Inr (b, r') \<Longrightarrow> reads_on r r' \<and> lr_pos r' = lr_pos r + n"
  by (auto simp: LogReader_read_exact_def reads_on_def split: if_splits)

lemma read_reads_on: "LogReader_read r n = Inr (b, r') \<Longrightarrow> reads_on r r' \<and> lr_pos r' = lr_pos r + n"
  using read_exact_reads_on by (fastforce simp: LogReader_read_def and_then_eq_Inr reads_on_def split: if_splits)

lemma next_reads_on:
  assumes "LogReader_next crc r = Inr (a, r')"
  shows "reads_on r r' \<and> lr_pos r < lr_pos r'"
  using assms
  by (auto simp: LogReader_next_def and_then_eq_Inr Let_def reads_on_def
      dest!: read_reads_on read_exact_reads_on split: if_splits)

lemma enact_entries_reads_on: "enact_entries is off m r = Inr (m', r') \<Longrightarrow> reads_on r r'"
proof (induction "is" arbitrary: m r)
  case (Cons i "is")
  then show ?case using read_reads_on reads_on_trans by (fastforce simp: and_then_eq_Inr)
qed simp

lemma index_enact_reads_on: "IndexTable_enact_plan t disk i r = Inr (t', r') \<Longrightarrow> reads_on r r'"
  by (auto simp: IndexTable_enact_plan_def and_then_eq_Inr Let_def split: if_splits
      dest!: read_reads_on enact_entries_reads_on intro: reads_on_trans)

lemma value_enact_reads_on: "ValueTable_enact_plan t i r = Inr (t', r') \<Longrightarrow> reads_on r r'"
  by (auto simp: ValueTable_enact_plan_def and_then_eq_Inr Let_def split: if_splits
      dest!: read_reads_on intro: reads_on_trans)

lemma column_enact_reads_on: "Column_enact_plan c a r = Inr (c', r') \<Longrightarrow> reads_on r r'"
  by (auto simp: Column_enact_plan_def and_then_eq_Inr split: LogAction.splits if_splits option.splits
      dest: index_enact_reads_on value_enact_reads_on)

lemma enact_action_reads_on: "enact_action cols col a r = Inr (cols', r') \<Longrightarrow> reads_on r r'"
  by (auto simp: enact_action_def and_then_eq_Inr split: if_splits dest: column_enact_reads_on)

lemma enact_record_reads_on:
  "enact_record n cr cols x r = Inr (cols', x', r') \<Longrightarrow> reads_on r r' \<and> lr_pos r < lr_pos r'"
proof (induction n arbitrary: cols x r)
  case (Suc n)
  obtain a r1 where nx: "LogReader_next (cr_crc32 cr) r = Inr (a, r1)"
    using Suc.prems by (auto simp: and_then_eq_Inr)
  have "reads_on r1 r'"
    using Suc.prems
  proof (cases a)
    case (InsertIndex t i)
    then show ?thesis
      using Suc.prems Suc.IH reads_on_trans by (fastforce simp: nx and_then_eq_Inr dest: enact_action_reads_on)
  next
    case (InsertValue t i)
    then show ?thesis
      using Suc.prems Suc.IH reads_on_trans by (fastforce simp: nx and_then_eq_Inr dest: enact_action_reads_on)
  next
    case (DropTable t)
    then show ?thesis
      using Suc.prems Suc.IH by (auto simp: nx and_then_eq_Inr split: if_splits)
  qed (auto simp: nx)
  then show ?case using next_reads_on [OF nx] by (auto simp: reads_on_def)
qed simp

section \<open>Enacting uses up the file\<close>

definition unread :: "DbInner \<Rightarrow> nat" where
  "unread d = (case lg_reading (db_log d) of
     None \<Rightarrow> 0
   | Some r \<Rightarrow> (case lg_files (db_log d) (Log_log_path (lg_path (db_log d)) (rd_id r)) of
       None \<Rightarrow> 0 | Some f \<Rightarrow> length f - rd_pos r))"

lemma read_next_reader:
  assumes "Log_read_next crc lg v = Inr (Some r, lg')"
  obtains rd f where "lg' = lg" "lg_reading lg = Some rd"
    "lg_files lg (Log_log_path (lg_path lg) (rd_id rd)) = Some f"
    "reads_on (LogReader_new f (rd_pos rd) v) r" "rd_pos rd < lr_pos r"
proof -
  obtain rd where rd: "lg_reading_state lg = ReadingLog" "lg_reading lg = Some rd"
    using assms by (auto simp: Log_read_next_def split: if_splits option.splits)
  obtain f where f: "lg_files lg (Log_log_path (lg_path lg) (rd_id rd)) = Some f"
    using assms by (auto simp: Log_read_next_def rd split: option.splits)
  obtain a r1 where nx: "LogReader_next crc (LogReader_new f (rd_pos rd) v) = Inr (a, r1)"
    using assms
    by (cases "LogReader_next crc (LogReader_new f (rd_pos rd) v)")
       (auto simp: Log_read_next_def rd f split: fault.splits error.splits io_error.splits)
  have "r1 = r" "lg' = lg" using assms by (auto simp: Log_read_next_def rd f nx split: LogAction.splits)
  then show thesis using that [OF _ rd(2) f] next_reads_on [OF nx] by (simp add: LogReader_new_def)
qed

lemma enact_reader_unread:
  assumes e: "enact_reader cr d v r = Inr (b, d')" and rd: "lg_reading (db_log d) = Some rd"
    and f: "lg_files (db_log d) (Log_log_path (lg_path (db_log d)) (rd_id rd)) = Some f"
    and r: "lr_file r = f" "rd_pos rd < lr_pos r"
  shows "b \<and> unread d' < unread d"
proof -
  obtain cols x r' where er: "enact_record (reader_fuel r) cr (db_columns d) (db_next_reindex d) r = Inr (cols, x, r')"
    using e by (auto simp: enact_reader_def and_then_eq_Inr)
  have pos: "lr_pos r < lr_pos r'" "lr_pos r' \<le> length f"
    using enact_record_reads_on [OF er] r by (auto simp: reads_on_def)
  define lg' where "lg' = Log_end_read (Log_return_reader (db_log d) r') (LogReader_drain r') (lr_record_id r')"
  have b: "b" and d': "db_log d' = lg'"
    using e by (auto simp: enact_reader_def er Let_def lg'_def split: if_splits)
  have "lg_reading lg' = Some (rd\<lparr>rd_pos := lr_pos r'\<rparr>)" "lg_files lg' = lg_files (db_log d)"
      "lg_path lg' = lg_path (db_log d)"
    by (simp_all add: lg'_def Log_end_read_def Log_return_reader_def Let_def rd)
  with b show ?thesis using pos r by (simp add: unread_def d' rd f)
qed

lemma enact_logs_unread:
  assumes "DbInner_enact_logs cr d False = Inr (True, d')"
  shows "unread d' < unread d"
proof (cases "Log_read_next (cr_crc32 cr) (db_log d) False")
  case (Inl e)
  then show ?thesis using assms by (auto simp: DbInner_enact_logs_def split: fault.splits error.splits)
next
  case (Inr x)
  obtain reader lg where x: "x = (Some reader, lg)"
    using assms Inr by (cases x; cases "fst x") (auto simp: DbInner_enact_logs_def)
  obtain rd f where rd: "lg = db_log d" "lg_reading (db_log d) = Some rd"
      "lg_files (db_log d) (Log_log_path (lg_path (db_log d)) (rd_id rd)) = Some f"
      "reads_on (LogReader_new f (rd_pos rd) False) reader" "rd_pos rd < lr_pos reader"
    using read_next_reader [OF Inr [unfolded x]] by blast
  have "enact_reader cr d False reader = Inr (True, d')"
    using assms Inr x rd(1) by (simp add: DbInner_enact_logs_def Let_def)
  moreover have "lr_file reader = f"
    using rd(4,5) by (auto simp: reads_on_def LogReader_new_def)
  ultimately show ?thesis using enact_reader_unread [OF _ rd(2,3)] rd(5) by blast
qed

section \<open>A reindex advances\<close>

definition chunks_left :: "Column \<Rightarrow> nat" where
  "chunks_left c = (case rx_queue (col_reindex c) of
     [] \<Rightarrow> 0 | s # _ \<Rightarrow> unat (ITableId_total_chunks (it_id s)) - unat (rx_progress (col_reindex c)))"

lemma reindex_loop_advances:
  "reindex_loop s lg i plan = Inr (j, plan') \<Longrightarrow>
     i \<le> j \<and> (i < ITableId_total_chunks (it_id s) \<longrightarrow> length plan < MAX_REBALANCE_BATCH \<longrightarrow> i < j) \<and>
     (i \<le> ITableId_total_chunks (it_id s) \<longrightarrow> j \<le> ITableId_total_chunks (it_id s)) \<and>
     (j < ITableId_total_chunks (it_id s) \<longrightarrow> MAX_REBALANCE_BATCH \<le> length plan')"
proof (induction s lg i plan arbitrary: j plan' rule: reindex_loop.induct)
  case (1 s lg i plan)
  let ?total = "ITableId_total_chunks (it_id s)"
  show ?case
  proof (cases "i < ?total \<and> length plan < MAX_REBALANCE_BATCH")
    case True
    then obtain es where es: "IndexTable_entries s i lg = Inr es"
        "reindex_loop s lg (i + 1) (plan @ reindex_chunk s i es) = Inr (j, plan')"
      using "1.prems" by (subst (asm) reindex_loop.simps) (auto simp: and_then_eq_Inr)
    have "unat (i + 1) = Suc (unat i)"
      using True unsigned_less [of ?total, where 'a = nat] by (simp add: unat_add_no_overflow word_less_nat_alt)
    then have "i < i + 1" "i + 1 \<le> ?total" using True by (simp_all add: word_less_nat_alt word_le_nat_alt)
    then show ?thesis using "1.IH" [OF True es] by fastforce
  next
    case False
    then show ?thesis using "1.prems" by (subst (asm) reindex_loop.simps) auto
  qed
qed

lemma column_reindex_advances:
  assumes "Column_reindex c lg = Inr ((dr, batch), c')"
  shows "rx_queue (col_reindex c') = rx_queue (col_reindex c) \<and>
    (if batch \<noteq> [] \<or> dr \<noteq> None then chunks_left c' < chunks_left c else chunks_left c' = chunks_left c)"
proof (cases "rx_queue (col_reindex c)")
  case Nil
  then show ?thesis using assms by (auto simp: Column_reindex_def)
next
  case (Cons s rest)
  let ?total = "ITableId_total_chunks (it_id s)" and ?p = "rx_progress (col_reindex c)"
  show ?thesis
  proof (cases "?p = ?total")
    case True
    then show ?thesis using assms Cons by (auto simp: Column_reindex_def)
  next
    case False
    then obtain j where j: "reindex_loop s lg ?p [] = Inr (j, batch)"
        "dr = (if j = ?total then Some (it_id s) else None)"
        "c' = c\<lparr>col_reindex := (col_reindex c)\<lparr>rx_progress := j\<rparr>\<rparr>"
      using assms Cons by (auto simp: Column_reindex_def and_then_eq_Inr)
    note adv = reindex_loop_advances [OF j(1)]
    show ?thesis
    proof (cases "?p < ?total")
      case True
      then have "?p < j" "j \<le> ?total" using adv by (auto simp: MAX_REBALANCE_BATCH_def)
      moreover from this have "batch \<noteq> [] \<or> dr \<noteq> None"
        using adv j(2) by (auto simp: MAX_REBALANCE_BATCH_def)
      ultimately show ?thesis by (auto simp: j(3) chunks_left_def Cons word_less_nat_alt word_le_nat_alt)
    next
      case outside: False
      then have "j = ?p \<and> batch = []" using j(1) by (simp add: reindex_loop.simps [of s])
      then show ?thesis using False by (auto simp: j Cons chunks_left_def)
    qed
  qed
qed

text \<open>Writing a batch may start further indexes, behind the one that is being moved.\<close>

definition queue_extends :: "Column \<Rightarrow> Column \<Rightarrow> bool" where
  "queue_extends c c' \<longleftrightarrow> (\<exists>more. rx_queue (col_reindex c') = rx_queue (col_reindex c) @ more) \<and>
     rx_progress (col_reindex c') = rx_progress (col_reindex c)"

lemma queue_extends_refl [simp]: "queue_extends c c"
  by (simp add: queue_extends_def)

lemma queue_extends_trans: "queue_extends a b \<Longrightarrow> queue_extends b c \<Longrightarrow> queue_extends a c"
  by (auto simp: queue_extends_def)

lemma queue_extends_trigger: "queue_extends c (Column_trigger_reindex c)"
  by (simp add: queue_extends_def Column_trigger_reindex_def Let_def)

lemma queue_extends_chunks: "queue_extends c c' \<Longrightarrow> rx_queue (col_reindex c) \<noteq> [] \<Longrightarrow> chunks_left c' = chunks_left c"
  by (auto simp: queue_extends_def chunks_left_def neq_Nil_conv)

lemma reindex_plan_extends: "reindex_plan_loop n c k a lg = Inr (out, c', lg') \<Longrightarrow> queue_extends c c'"
proof (induction n arbitrary: c lg out)
  case (Suc n)
  have "c' = c \<or> (\<exists>lg1 out1. reindex_plan_loop n (Column_trigger_reindex c) k a lg1 = Inr (out1, c', lg'))"
  proof -
    obtain found where f: "Column_search_index k (tb_index (col_tables c)) (col_tables c) lg = Inr found"
      using Suc.prems by (auto simp: and_then_eq_Inr)
    show ?thesis
    proof (cases "found = None")
      case True
      then obtain o1 lg1 where "IndexTable_write_insert_plan (tb_index (col_tables c)) k a None lg = Inr (o1, lg1)"
        using Suc.prems f by (auto simp: and_then_eq_Inr)
      with True f show ?thesis using Suc.prems by (cases o1) (auto simp: and_then_eq_Inr)
    next
      case False
      with f show ?thesis using Suc.prems by simp
    qed
  qed
  then show ?case
    using Suc.IH queue_extends_trans [OF queue_extends_trigger] by auto
qed simp

lemma write_batch_extends: "write_batch b r c w = Inr (r', c', w') \<Longrightarrow> queue_extends c c'"
proof (induction b arbitrary: r c w)
  case (Cons x b)
  then obtain out c1 w1 where 1: "Column_write_reindex_plan c (fst x) (snd x) w = Inr (out, c1, w1)"
      "write_batch b (r \<or> out = NeedReindex) c1 w1 = Inr (r', c', w')"
    by (auto simp: and_then_eq_Inr)
  then show ?case
    using Cons.IH [OF 1(2)] reindex_plan_extends queue_extends_trans unfolding Column_write_reindex_plan_def by blast
qed simp

definition reindex_left :: "DbInner \<Rightarrow> nat" where
  "reindex_left d = sum_list (map chunks_left (db_columns d))"

lemma reindex_left_set:
  assumes "i < length (db_columns d)"
  shows "chunks_left c < chunks_left (db_columns d ! i) \<Longrightarrow> reindex_left (d\<lparr>db_columns := (db_columns d)[i := c]\<rparr>) < reindex_left d"
    and "chunks_left c = chunks_left (db_columns d ! i) \<Longrightarrow> reindex_left (d\<lparr>db_columns := (db_columns d)[i := c]\<rparr>) = reindex_left d"
proof -
  have "chunks_left (db_columns d ! i) \<le> sum_list (map chunks_left (db_columns d))"
    using assms by (simp add: member_le_sum_list)
  then show "chunks_left c < chunks_left (db_columns d ! i) \<Longrightarrow> reindex_left (d\<lparr>db_columns := (db_columns d)[i := c]\<rparr>) < reindex_left d"
    and "chunks_left c = chunks_left (db_columns d ! i) \<Longrightarrow> reindex_left (d\<lparr>db_columns := (db_columns d)[i := c]\<rparr>) = reindex_left d"
    using assms by (simp_all add: reindex_left_def map_update sum_list_update)
qed

lemma reindex_record_left:
  assumes "reindex_record cr d i dr batch = Inr d'"
  obtains c where "db_columns d' = (db_columns d)[i := c]" "queue_extends (db_columns d ! i) c"
proof -
  obtain writer lg1 where b: "Log_begin_record (db_log d) = (writer, lg1)" by fastforce
  obtain r c w where w: "write_batch batch False (db_columns d ! i) writer = Inr (r, c, w)"
    using assms by (auto simp: reindex_record_def b and_then_eq_Inr)
  have "db_columns d' = (db_columns d)[i := c]"
    using assms
    by (cases r) (auto simp: reindex_record_def b w and_then_eq_Inr Let_def DbInner_start_reindex_def)
  then show thesis using that write_batch_extends [OF w] by blast
qed

lemma reindex_columns_left:
  assumes "set is \<subseteq> {..<length (db_columns d)}"
  shows "reindex_columns cr d is = Inr (True, d') \<Longrightarrow> reindex_left d' < reindex_left d"
  using assms
proof (induction "is" arbitrary: d)
  case (Cons i "is")
  obtain dr batch c where r: "Column_reindex (db_columns d ! i) (LogOverlays_query (lg_overlays (db_log d))) =
      Inr ((dr, batch), c)"
    using Cons.prems by (auto simp: and_then_eq_Inr)
  let ?d = "d\<lparr>db_columns := (db_columns d)[i := c]\<rparr>"
  have i: "i < length (db_columns d)" using Cons.prems by simp
  note adv = column_reindex_advances [OF r]
  show ?case
  proof (cases "batch \<noteq> [] \<or> dr \<noteq> None")
    case True
    then have "reindex_record cr ?d i dr batch = Inr d'"
      using Cons.prems by (auto simp: r and_then_eq_Inr Let_def)
    then obtain c' where c': "db_columns d' = (db_columns ?d)[i := c']" "queue_extends (db_columns ?d ! i) c'"
      by (rule reindex_record_left)
    have less: "chunks_left c < chunks_left (db_columns d ! i)" using True adv by simp
    then have "rx_queue (col_reindex c) \<noteq> []" using adv by (auto simp: chunks_left_def)
    then have "chunks_left c' < chunks_left (db_columns d ! i)"
      using queue_extends_chunks [of c c'] c'(2) less i by simp
    then show ?thesis
      using reindex_left_set(1) [OF i] c'(1) by (simp add: reindex_left_def)
  next
    case False
    then have "reindex_columns cr ?d is = Inr (True, d')" using Cons.prems by (auto simp: r Let_def)
    then have "reindex_left d' < reindex_left ?d" using Cons.IH [of ?d] Cons.prems by simp
    then show ?thesis using reindex_left_set(2) [OF i] False adv by simp
  qed
qed simp

lemma process_reindex_left: "DbInner_process_reindex cr d = Inr (True, d') \<Longrightarrow> reindex_left d' < reindex_left d"
  by (auto simp: DbInner_process_reindex_def Let_def split: if_splits intro!: reindex_columns_left)

section \<open>Properties\<close>

text \<open>The work that is left for a worker, and an endless sequence of its rounds.\<close>

definition endless :: "(bool \<Rightarrow> DbInner \<Rightarrow> round) \<Rightarrow> (nat \<Rightarrow> bool \<times> DbInner) \<Rightarrow> bool" where
  "endless worker s \<longleftrightarrow> (\<forall>i. worker (fst (s i)) (snd (s i)) = Some (Inr (Some (fst (s (Suc i))), snd (s (Suc i)))))"

lemma no_endless:
  assumes wf: "wf R" and start: "db_shutdown (snd (s 0))"
    and keep: "\<And>m d m' d'. worker m d = Some (Inr (Some m', d')) \<Longrightarrow> db_shutdown d \<Longrightarrow> db_shutdown d'"
    and idle: "\<And>d. db_shutdown d \<Longrightarrow> worker False d = Some (Inr (None, d))"
    and progress: "\<And>d d'. worker True d = Some (Inr (Some True, d')) \<Longrightarrow> db_shutdown d \<Longrightarrow> (d', d) \<in> R"
  shows "\<not> endless worker s"
proof
  assume endless: "endless worker s"
  have down: "db_shutdown (snd (s i))" for i
  proof (induction i)
    case (Suc i)
    then show ?case using endless keep unfolding endless_def by blast
  qed (rule start)
  have busy: "fst (s i)" for i
    using endless idle [OF down [of i]] by (cases "fst (s i)") (auto simp: endless_def split: option.splits dest: spec [of _ i])
  have "(snd (s (Suc i)), snd (s i)) \<in> R" for i
  proof (rule progress)
    show "worker True (snd (s i)) = Some (Inr (Some True, snd (s (Suc i))))"
      using endless [unfolded endless_def, rule_format, of i] busy [of i] busy [of "Suc i"] by simp
  qed (rule down)
  then have "\<exists>f. \<forall>i. (f (Suc i), f i) \<in> R" by (intro exI [of _ "\<lambda>i. snd (s i)"]) simp
  then show False using wf wf_iff_no_infinite_down_chain by blast
qed

lemma commit_round_progress:
  "commit_worker_round cr True d = Some (Inr (Some True, d')) \<Longrightarrow> (d', d) \<in> measure unread"
  by (auto simp: commit_worker_round_def and_then_eq_Inr enact_logs_unread)

lemma cleanup_round_progress:
  assumes "cleanup_worker_round True d = Some (Inr (Some True, d'))"
  shows "(d', d) \<in> measure (\<lambda>d. Log_num_dirty_logs (db_log d))"
proof -
  have drop: "lg_cleanup_queue lg' = lg_cleanup_queue lg" if "drop_logs xs lg = Inr lg'" for xs lg lg'
    using that by (induction xs arbitrary: lg) (auto simp: and_then_eq_Inr Log_drop_log_def Let_def split: option.splits)
  show ?thesis
    using assms
    by (auto simp: cleanup_worker_round_def and_then_eq_Inr DbInner_cleanup_logs_def Let_def Log_num_dirty_logs_def
        Log_clean_logs_def dest!: drop split: if_splits)
qed

lemma log_round_progress:
  assumes "log_worker_round cr True d = Some (Inr (Some True, d'))"
  shows "(d', d) \<in> measures [\<lambda>d. length (cq_commits (db_commit_queue d)), reindex_left]"
proof -
  obtain b d1 b2 where 1: "DbInner_process_commits cr d = Some (Inr (b, d1))"
    and 2: "DbInner_process_reindex cr d1 = Inr (b2, d')" and more: "b \<or> b2"
    using assms by (auto simp: log_worker_round_def log_worker_body_def and_then_eq_Inr)
  have same: "db_commit_queue d' = db_commit_queue d1" using process_reindex_effect [OF 2] by (simp add: db_frame_def)
  show ?thesis
    using 1
  proof (cases rule: process_commits_cases)
    case none
    then show ?thesis using more 2 process_reindex_left [of cr d d'] same by auto
  next
    case (one c rest)
    then have "cq_commits (db_commit_queue d') = rest"
      using process_commit_effect [OF one(3)] same by (simp add: db_frame_def)
    then show ?thesis using one(1) by simp
  qed
qed



end
