(* ===== verification/Column_Index.thy ===== *)
theory Column_Index
  imports Value_Store Index_Enact
begin

text \<open>
  The contract between the index and the value tables of a column. The index gives for a key the
  addresses at the positions of its bucket; the key of a stored value decides which of them is meant.
  The locale \<open>bucket_index\<close> states what the index promises; inside of it, inserting, changing and
  removing a value is shown to act on the column as on a map from keys to values.
\<close>

section \<open>Addresses\<close>

lemma bit_Address_new:
  "bit (Address_as_u64 (Address_new off tier)) n \<longleftrightarrow> n < 64 \<and> (if n < 8 then bit tier n else bit off (n - 8))"
  by (auto simp: Address_new_def shl_def bit_simps dest: bit_imp_le_length)

lemma address_new_tier: "Address_size_tier (Address_new off tier) = tier"
proof (rule bit_word_eqI)
  fix n assume "n < LENGTH(8)"
  moreover have "shl 1 8 - 1 = (mask 8 :: u64)" by (simp add: shl_def mask_eq_exp_minus_1)
  ultimately show "bit (Address_size_tier (Address_new off tier)) n = bit tier n"
    by (simp add: Address_size_tier_def bit_simps bit_Address_new)
qed

lemma small_no_bit:
  fixes x :: u64
  assumes "unat x < 2 ^ m" and "m \<le> n"
  shows "\<not> bit x n"
proof -
  have "unat x < 2 ^ n" using assms by (meson le_less_trans less_le_trans one_le_numeral power_increasing)
  then have "\<not> bit (unat x) n" by (simp add: bit_iff_odd)
  then show ?thesis by (auto simp: bit_unsigned_iff dest: bit_imp_le_length)
qed

lemma address_new_offset:
  assumes "unat off < 2 ^ 56"
  shows "Address_offset (Address_new off tier) = off"
proof (rule bit_word_eqI)
  fix n assume n: "n < LENGTH(64)"
  have "bit off n \<Longrightarrow> n < 56" using small_no_bit [OF assms, of n] by linarith
  then show "bit (Address_offset (Address_new off tier)) n = bit off n"
    using n by (auto simp: Address_offset_def shr_def bit_simps bit_Address_new)
qed

lemma address_split: "Address_new (Address_offset a) (Address_size_tier a) = a"
proof (rule Address_eqI, rule bit_word_eqI)
  fix n assume "n < LENGTH(64)"
  moreover have "shl 1 8 - 1 = (mask 8 :: u64)" by (simp add: shl_def mask_eq_exp_minus_1)
  ultimately show "bit (Address_as_u64 (Address_new (Address_offset a) (Address_size_tier a))) n = bit (Address_as_u64 a) n"
    by (auto simp: bit_Address_new Address_offset_def Address_size_tier_def shr_def bit_simps)
qed

lemma address_eqI: "Address_offset a = Address_offset b \<Longrightarrow> Address_size_tier a = Address_size_tier b \<Longrightarrow> a = b"
  by (metis address_split)

text \<open>An address fits into an entry of the index when its offset has at most six bits more than the index.\<close>

lemma address_new_ok:
  assumes b: "bits_ok (ibits t)" and off: "unat off < 2 ^ (unat (ibits t) + 6)" "off \<noteq> 0"
  shows "address_ok t (Address_new off tier)"
proof -
  let ?a = "Address_as_u64 (Address_new off tier)" and ?m = "unat (ibits t) + 14"
  note high = small_no_bit [OF off(1)]
  have "bit tier n \<Longrightarrow> n < 8" for n using bit_imp_le_length [of tier n] by simp
  moreover have "bit off n \<Longrightarrow> n < unat (ibits t) + 6" for n using high [of n] by (meson not_le)
  ultimately have "?a AND mask ?m = ?a"
    by (intro bit_word_eqI) (auto simp: bit_simps bit_Address_new; fastforce)
  then have "?a \<le> mask ?m" by (metis word_and_le1)
  then have le: "?a \<le> IndexEntry_last_address (ibits t)"
    using last_address_mask [OF b] by simp
  obtain n where "bit off n" using off(2) by (metis bit_eq_iff bit_0_eq bot_apply bot_bool_def)
  then have "n < 56" using high [of n] b by (force simp: bits_ok_def not_le)
  then have "bit ?a (n + 8)" using \<open>bit off n\<close> by (simp add: bit_Address_new)
  then have "?a \<noteq> 0" by auto
  with le show ?thesis by (simp add: address_ok_def)
qed

section \<open>Keys of a bucket\<close>

text \<open>The bucket and the partial key together determine the key.\<close>

lemma bucket_partial_key:
  assumes "bits_ok (ibits t)" and "length k = KEY_LEN" and "length k' = KEY_LEN"
    and "same_bucket t k k'" and "partial_key k = partial_key k'"
  shows "k = k'"
proof -
  have "\<exists>e. IndexEntry_key_material e (ibits t) = IndexEntry_extract_key (key_prefix k) (ibits t)"
    using entry_new_material [OF assms(1), of "Address_from_u64 0"]
    by (intro exI [of _ "IndexEntry_new (Address_from_u64 0) (IndexEntry_extract_key (key_prefix k) (ibits t)) (ibits t)"])
       (simp add: Address_from_u64_def)
  then obtain e where e: "IndexEntry_key_material e (ibits t) = IndexEntry_extract_key (key_prefix k) (ibits t)" ..
  have "k = overwrite 6 (partial_key k) (IndexTable_recover_key_prefix t (IndexTable_chunk_index t (key_prefix k)) e)"
    by (rule recover_and_partial [symmetric, OF assms(1,2) e])
  also have "\<dots> = overwrite 6 (partial_key k') (IndexTable_recover_key_prefix t (IndexTable_chunk_index t (key_prefix k')) e)"
    using assms(4,5) by (simp add: same_bucket_def)
  also have "\<dots> = k'"
    by (rule recover_and_partial [OF assms(1,3)]) (use e assms(4) in \<open>simp add: same_bucket_def\<close>)
  finally show ?thesis .
qed

section \<open>A map made of an index and stores\<close>

text \<open>
  \<open>L k i\<close> is the address at position \<open>i\<close> of the bucket of \<open>k\<close>, \<open>A a\<close> the value stored at an address. A
  key is stored at the position whose value carries its partial key.
\<close>

type_synonym index_map = "Key \<Rightarrow> nat \<Rightarrow> Address option"
type_synonym store_map = "Address \<Rightarrow> Stored option"

definition hit :: "index_map \<Rightarrow> store_map \<Rightarrow> Key \<Rightarrow> nat \<Rightarrow> Address \<Rightarrow> Stored \<Rightarrow> bool" where
  "hit L A k i a v \<longleftrightarrow> L k i = Some a \<and> A a = Some v \<and> st_key v = partial_key k"

text \<open>
  Every address in the index holds the value of a key of its bucket, no address is there twice, and no key
  is stored twice.
\<close>

definition sound :: "(Key \<Rightarrow> Key \<Rightarrow> bool) \<Rightarrow> index_map \<Rightarrow> store_map \<Rightarrow> bool" where
  "sound same L A \<longleftrightarrow>
     (\<forall>k i a. length k = KEY_LEN \<longrightarrow> L k i = Some a \<longrightarrow>
        (\<exists>k' v. length k' = KEY_LEN \<and> same k k' \<and> hit L A k' i a v)) \<and>
     (\<forall>k k' i j a. length k = KEY_LEN \<longrightarrow> length k' = KEY_LEN \<longrightarrow> L k i = Some a \<longrightarrow> L k' j = Some a \<longrightarrow>
        i = j \<and> same k k') \<and>
     (\<forall>k i j a b v u. length k = KEY_LEN \<longrightarrow> hit L A k i a v \<longrightarrow> hit L A k j b u \<longrightarrow> i = j)"

definition holds :: "index_map \<Rightarrow> store_map \<Rightarrow> (Key \<Rightarrow> Stored option) \<Rightarrow> bool" where
  "holds L A M \<longleftrightarrow> (\<forall>k v. length k = KEY_LEN \<longrightarrow> (M k = Some v \<longleftrightarrow> (\<exists>i a. hit L A k i a v)))"

lemma sound_owner:
  assumes "sound same L A" and "length k = KEY_LEN" and "L k i = Some a"
  obtains k' v where "length k' = KEY_LEN" "same k k'" "hit L A k' i a v"
  using assms unfolding sound_def by blast

lemma sound_stored: "sound same L A \<Longrightarrow> length k = KEY_LEN \<Longrightarrow> L k i = Some a \<Longrightarrow> A a \<noteq> None"
  by (erule (2) sound_owner) (simp add: hit_def)

lemma sound_once:
  "sound same L A \<Longrightarrow> length k = KEY_LEN \<Longrightarrow> length k' = KEY_LEN \<Longrightarrow> L k i = Some a \<Longrightarrow> L k' j = Some a \<Longrightarrow>
     i = j \<and> same k k'"
  unfolding sound_def by blast

lemma sound_unique:
  "sound same L A \<Longrightarrow> length k = KEY_LEN \<Longrightarrow> hit L A k i a v \<Longrightarrow> hit L A k j b u \<Longrightarrow> i = j"
  unfolding sound_def by blast

lemma soundI:
  assumes "\<And>k i a. length k = KEY_LEN \<Longrightarrow> L k i = Some a \<Longrightarrow>
        \<exists>k' v. length k' = KEY_LEN \<and> same k k' \<and> hit L A k' i a v"
    and "\<And>k k' i j a. length k = KEY_LEN \<Longrightarrow> length k' = KEY_LEN \<Longrightarrow> L k i = Some a \<Longrightarrow> L k' j = Some a \<Longrightarrow>
        i = j \<and> same k k'"
    and "\<And>k i j a b v u. length k = KEY_LEN \<Longrightarrow> hit L A k i a v \<Longrightarrow> hit L A k j b u \<Longrightarrow> i = j"
  shows "sound same L A"
  unfolding sound_def using assms by blast

lemma holdsI: "(\<And>k v. length k = KEY_LEN \<Longrightarrow> M k = Some v \<longleftrightarrow> (\<exists>i a. hit L A k i a v)) \<Longrightarrow> holds L A M"
  by (simp add: holds_def)

lemma holdsD: "holds L A M \<Longrightarrow> length k = KEY_LEN \<Longrightarrow> M k = Some v \<longleftrightarrow> (\<exists>i a. hit L A k i a v)"
  by (simp add: holds_def)

locale bucket_index =
  fixes same :: "Key \<Rightarrow> Key \<Rightarrow> bool"
  assumes same_refl: "same k k"
    and same_sym: "same k k' \<Longrightarrow> same k' k"
    and same_trans: "same k k' \<Longrightarrow> same k' k'' \<Longrightarrow> same k k''"
    and same_key: "length k = KEY_LEN \<Longrightarrow> length k' = KEY_LEN \<Longrightarrow> same k k' \<Longrightarrow> partial_key k = partial_key k' \<Longrightarrow> k = k'"
begin

definition updates :: "index_map \<Rightarrow> Key \<Rightarrow> nat \<Rightarrow> Address option \<Rightarrow> index_map \<Rightarrow> bool" where
  "updates L key i x L' \<longleftrightarrow> (\<forall>k. L' k = (if same key k then (L key)(i := x) else L k))"

lemma updates_compose:
  assumes "updates L key i x L1" and "updates L1 key i y L2"
  shows "updates L key i y L2"
  using assms same_refl by (auto simp: updates_def)

text \<open>Putting a new value into the store and into the index.\<close>

lemma sound_insert:
  assumes s: "sound same L A" and key: "length key = KEY_LEN" and fresh: "L key i = None" "A a = None"
    and bucket: "\<And>k. same key k \<Longrightarrow> L k = L key"
    and L': "updates L key i (Some a) L'" and v: "st_key v = partial_key key"
    and new: "\<And>j b u. \<not> hit L A key j b u"
  shows "sound same L' (A(a \<mapsto> v))"
    and "holds L A M \<Longrightarrow> holds L' (A(a \<mapsto> v)) (M(key \<mapsto> v))"
proof -
  have stored: "L k j = Some b \<Longrightarrow> b \<noteq> a" if "length k = KEY_LEN" for k j b
    using sound_stored [OF s that] fresh(2) by blast
  have pos: "L' k j = Some b \<longleftrightarrow> (same key k \<and> j = i \<and> b = a) \<or> (L k j = Some b \<and> \<not> (same key k \<and> j = i))"
    for k j b using L' bucket [of k] by (auto simp: updates_def)
  have hits: "hit L' (A(a \<mapsto> v)) k j b u \<longleftrightarrow> (k = key \<and> j = i \<and> b = a \<and> u = v) \<or> hit L A k j b u"
    if k: "length k = KEY_LEN" for k j b u
  proof (cases "same key k \<and> j = i")
    case True
    then have none: "L k j = None" using fresh(1) bucket by simp
    have "st_key v = partial_key k \<longleftrightarrow> k = key" using True v same_key [OF key k] by auto
    with True none show ?thesis by (auto simp: hit_def pos)
  next
    case False
    then show ?thesis using stored [OF k, of j b] same_refl [of key] by (auto simp: hit_def pos)
  qed
  show "sound same L' (A(a \<mapsto> v))"
  proof (rule soundI)
    fix k j b assume k: "length k = KEY_LEN" and L: "L' k j = Some b"
    show "\<exists>k' u. length k' = KEY_LEN \<and> same k k' \<and> hit L' (A(a \<mapsto> v)) k' j b u"
    proof (cases "same key k \<and> j = i")
      case True
      then have "b = a" using L by (auto simp: pos)
      with True show ?thesis using same_sym [of key k] hits [OF key, of i a v] key by blast
    next
      case False
      then have "L k j = Some b" using L by (auto simp: pos)
      then obtain k' u where "length k' = KEY_LEN" "same k k'" "hit L A k' j b u" by (rule sound_owner [OF s k])
      then show ?thesis using hits [of k' j b u] by blast
    qed
  next
    fix k k' j j' b assume k: "length k = KEY_LEN" "length k' = KEY_LEN" and L: "L' k j = Some b" "L' k' j' = Some b"
    show "j = j' \<and> same k k'"
    proof (cases "b = a")
      case True
      then have "same key k" "j = i" "same key k'" "j' = i"
        using L stored [OF k(1), of j b] stored [OF k(2), of j' b] by (auto simp: pos)
      then show ?thesis using same_sym same_trans by blast
    next
      case False
      then have "L k j = Some b" "L k' j' = Some b" using L by (auto simp: pos)
      then show ?thesis using sound_once [OF s k] by blast
    qed
  next
    fix k j j' b b' u u' assume k: "length k = KEY_LEN"
      and h: "hit L' (A(a \<mapsto> v)) k j b u" "hit L' (A(a \<mapsto> v)) k j' b' u'"
    then show "j = j'" using new sound_unique [OF s k] unfolding hits [OF k] by blast
  qed
  show "holds L' (A(a \<mapsto> v)) (M(key \<mapsto> v))" if "holds L A M"
  proof (rule holdsI)
    fix k :: Key and u assume k: "length k = KEY_LEN"
    show "(M(key \<mapsto> v)) k = Some u \<longleftrightarrow> (\<exists>i b. hit L' (A(a \<mapsto> v)) k i b u)"
      using holdsD [OF that k, of u] new by (auto simp: hits [OF k])
  qed
qed

text \<open>Changing the value of a key where it is.\<close>

lemma sound_change:
  assumes s: "sound same L A" and key: "length key = KEY_LEN" and h: "hit L A key i a v0"
    and v: "st_key v = partial_key key"
  shows "sound same L (A(a \<mapsto> v))"
    and "holds L A M \<Longrightarrow> holds L (A(a \<mapsto> v)) (M(key \<mapsto> v))"
proof -
  have at: "L key i = Some a" "A a = Some v0" "st_key v0 = partial_key key" using h by (simp_all add: hit_def)
  have hits: "hit L (A(a \<mapsto> v)) k j b u \<longleftrightarrow> (if b = a then hit L A k j a v0 \<and> u = v else hit L A k j b u)" for k j b u
    using at v by (auto simp: hit_def)
  have owner: "hit L A k j a u \<longleftrightarrow> k = key \<and> j = i \<and> u = v0" if k: "length k = KEY_LEN" for k j u
  proof
    assume "hit L A k j a u"
    moreover from this have "j = i \<and> same k key" using sound_once [OF s k key _ at(1), of j] by (simp add: hit_def)
    ultimately show "k = key \<and> j = i \<and> u = v0"
      using same_key [OF k key] at by (auto simp: hit_def)
  qed (use h in simp)
  show "sound same L (A(a \<mapsto> v))"
  proof (rule soundI)
    show "\<exists>k' u. length k' = KEY_LEN \<and> same k k' \<and> hit L (A(a \<mapsto> v)) k' j b u"
      if k: "length k = KEY_LEN" "L k j = Some b" for k j b
    proof -
      obtain k' u where "length k' = KEY_LEN" "same k k'" "hit L A k' j b u" by (rule sound_owner [OF s k])
      then show ?thesis using owner [of k' j u] hits [of k' j b v] hits [of k' j b u] by metis
    qed
    show "j = j' \<and> same k k'" if "length k = KEY_LEN" "length k' = KEY_LEN" "L k j = Some b" "L k' j' = Some b" for k k' j j' b
      using sound_once [OF s that] .
    show "j = j'" if k: "length k = KEY_LEN" and hh: "hit L (A(a \<mapsto> v)) k j b u" "hit L (A(a \<mapsto> v)) k j' b' u'" for k j j' b b' u u'
      using hh sound_unique [OF s k] unfolding hits by (auto split: if_splits)
  qed
  show "holds L (A(a \<mapsto> v)) (M(key \<mapsto> v))" if M: "holds L A M"
  proof (rule holdsI)
    fix k :: Key and u assume k: "length k = KEY_LEN"
    have only: "hit L A key j b w \<Longrightarrow> b = a" for j b w
      using sound_unique [OF s key h, of j b w] at by (auto simp: hit_def)
    show "(M(key \<mapsto> v)) k = Some u \<longleftrightarrow> (\<exists>j b. hit L (A(a \<mapsto> v)) k j b u)"
    proof (cases "k = key")
      case True
      have "hit L (A(a \<mapsto> v)) key i a v" using hits [of key i a v] h by simp
      moreover have "u = v" if "hit L (A(a \<mapsto> v)) key j b u" for j b
        using that hits [of key j b u] only [of j b u] by metis
      ultimately have "(\<exists>j b. hit L (A(a \<mapsto> v)) key j b u) \<longleftrightarrow> u = v" by blast
      then show ?thesis using True by auto
    next
      case False
      then have "hit L (A(a \<mapsto> v)) k j b u \<longleftrightarrow> hit L A k j b u" for j b
        using hits [of k j b u] owner [OF k, of j v0] owner [OF k, of j u] by simp
      then show ?thesis using False holdsD [OF M k, of u] by simp
    qed
  qed
qed

text \<open>Taking a value out of the store and out of the index.\<close>

lemma sound_remove:
  assumes s: "sound same L A" and key: "length key = KEY_LEN" and h: "hit L A key i a v0"
    and bucket: "\<And>k. same key k \<Longrightarrow> L k = L key" and L': "updates L key i None L'"
  shows "sound same L' (A(a := None))"
    and "holds L A M \<Longrightarrow> holds L' (A(a := None)) (M(key := None))"
    and "\<not> hit L' (A(a := None)) key j b u" and "L' key i = None"
proof -
  have at: "L key i = Some a" "A a = Some v0" "st_key v0 = partial_key key" using h by (simp_all add: hit_def)
  have pos: "L' k j = Some b \<longleftrightarrow> L k j = Some b \<and> b \<noteq> a" if k: "length k = KEY_LEN" for k j b
  proof (cases "same key k")
    case True
    have "L' k = (L key)(i := None)"
      using L' [unfolded updates_def, rule_format, of k] True by (simp only: if_True)
    then have L1: "L' k j = (if j = i then None else L k j)"
      by (simp only: bucket [OF True] fun_upd_apply)
    have L2: "L k i = Some a" by (simp only: bucket [OF True] at(1))
    show ?thesis
    proof (cases "j = i")
      case False
      then have "L k j \<noteq> Some a" using sound_once [OF s k key _ at(1), of j] by blast
      with False L1 show ?thesis by auto
    qed (use L1 L2 in auto)
  next
    case False
    then have "L' k j = L k j" using L' by (simp add: updates_def)
    moreover have "L k j \<noteq> Some a" using sound_once [OF s k key _ at(1), of j] same_sym False by blast
    ultimately show ?thesis by auto
  qed
  have hits: "hit L' (A(a := None)) k j b u \<longleftrightarrow> hit L A k j b u \<and> b \<noteq> a" if k: "length k = KEY_LEN" for k j b u
    using pos [OF k] by (auto simp: hit_def)
  have only: "hit L A key j b w \<Longrightarrow> b = a" for j b w
    using sound_unique [OF s key h, of j b w] at by (auto simp: hit_def)
  have other: "hit L A k j b w \<Longrightarrow> b \<noteq> a" if k: "length k = KEY_LEN" "k \<noteq> key" for k j b w
    using sound_once [OF s k(1) key _ at(1), of j] same_key [OF k(1) key] k(2) at by (auto simp: hit_def)
  show "sound same L' (A(a := None))"
  proof (rule soundI)
    show "\<exists>k' u. length k' = KEY_LEN \<and> same k k' \<and> hit L' (A(a := None)) k' j b u"
      if k: "length k = KEY_LEN" and L: "L' k j = Some b" for k j b
    proof -
      have b: "L k j = Some b" "b \<noteq> a" using L by (simp_all add: pos [OF k])
      obtain k' u where "length k' = KEY_LEN" "same k k'" "hit L A k' j b u" by (rule sound_owner [OF s k b(1)])
      then show ?thesis using hits [of k' j b u] b(2) by blast
    qed
    show "j = j' \<and> same k k'" if "length k = KEY_LEN" "length k' = KEY_LEN" "L' k j = Some b" "L' k' j' = Some b" for k k' j j' b
      using sound_once [OF s that(1,2), of j b j'] that by (simp add: pos)
    show "j = j'" if k: "length k = KEY_LEN" and hh: "hit L' (A(a := None)) k j b u" "hit L' (A(a := None)) k j' b' u'" for k j j' b b' u u'
      using hh sound_unique [OF s k] unfolding hits [OF k] by blast
  qed
  show "holds L' (A(a := None)) (M(key := None))" if M: "holds L A M"
  proof (rule holdsI)
    fix k :: Key and u assume k: "length k = KEY_LEN"
    show "(M(key := None)) k = Some u \<longleftrightarrow> (\<exists>j b. hit L' (A(a := None)) k j b u)"
    proof (cases "k = key")
      case True
      then show ?thesis using only by (auto simp: hits [OF key])
    next
      case False
      then have "hit L' (A(a := None)) k j b u \<longleftrightarrow> hit L A k j b u" for j b
        using other [OF k False, of j b u] by (auto simp: hits [OF k])
      then show ?thesis using False holdsD [OF M k, of u] by simp
    qed
  qed
  show "\<not> hit L' (A(a := None)) key j b u" using only by (auto simp: hits [OF key])
  show "L' key i = None" using L' same_refl [of key] by (simp add: updates_def)
qed

end

text \<open>The buckets of an index table whose number of bits is in range.\<close>

definition bucket :: "IndexTable \<Rightarrow> Key \<Rightarrow> Key \<Rightarrow> bool" where
  "bucket t k k' \<longleftrightarrow> (if bits_ok (ibits t) then same_bucket t k k' else k = k')"

interpretation bkt: bucket_index "bucket t" for t
  by unfold_locales (auto simp: bucket_def same_bucket_def intro: bucket_partial_key [of t] split: if_splits)

lemma bucket_ok: "bits_ok (ibits t) \<Longrightarrow> bucket t = same_bucket t"
  by (intro ext) (simp add: bucket_def)

end
