(* ===== verification/Column_Rep.thy ===== *)
theory Column_Rep
  imports Column_Index Column_Store Value_Table_Correct Log_Correct
begin

text \<open>
  The reading side of a column. \<open>has_key_at\<close> and \<open>size\<close> are computed on a table that represents a
  store, and the loops of \<open>get_in_index\<close> and \<open>search_index\<close> find the position of a key if it is stored.
\<close>

section \<open>Pages of a record stay\<close>

text \<open>A plan only adds pages to the record of its writer.\<close>

inductive grows :: "LogWriter \<Rightarrow> LogWriter \<Rightarrow> bool" where
  grows_refl [simp, intro]: "grows w w"
| grows_value: "grows w w' \<Longrightarrow> grows w (LogWriter_insert_value w' u i d)"
| grows_index: "grows w w' \<Longrightarrow> grows w (LogWriter_insert_index w' t i sub d)"

lemma grows_trans [trans]: "grows w1 w2 \<Longrightarrow> grows w w1 \<Longrightarrow> grows w w2"
  by (induction rule: grows.induct) (auto intro: grows.intros)

lemma grows_insert [simp, intro]: "grows w (LogWriter_insert_value w u i d)" "grows w (LogWriter_insert_index w t i sub d)"
  by (simp_all add: grows_value grows_index)

lemma grows_stored: "grows w w' \<Longrightarrow> writer_stored w u i \<noteq> None \<Longrightarrow> writer_stored w' u i \<noteq> None"
  by (induction rule: grows.induct) (auto simp: writer_stored_insert_value index_frame_stored [OF index_frame_insert])

lemma grows_wf: "grows w w' \<Longrightarrow> lc_wf (lw_log w) \<Longrightarrow> lc_wf (lw_log w')"
  by (induction rule: grows.induct) (simp_all add: lc_wf_insert_value lc_wf_insert_index)

lemma clear_slot_grows: "ValueTable_clear_slot t i w = Inr (t', w') \<Longrightarrow> grows w w'"
  by (auto simp: ValueTable_clear_slot_def Let_def and_then_eq_Inr)

lemma clear_chain_loop_grows: "clear_chain_loop n t i w = Inr (t', w') \<Longrightarrow> grows w w'"
proof (induction n arbitrary: t i w)
  case (Suc n)
  then obtain r where r: "ValueTable_read_next_part t i (LogWriter_query w) = Inr r"
    by (auto simp: and_then_eq_Inr)
  show ?case
  proof (cases r)
    case None
    then show ?thesis using Suc.prems r clear_slot_grows by simp
  next
    case (Some nx)
    then obtain t1 w1 where "ValueTable_clear_slot t i w = Inr (t1, w1)" "clear_chain_loop n t1 nx w1 = Inr (t', w')"
      using Suc.prems r by (auto simp: and_then_eq_Inr)
    then show ?thesis using Suc.IH clear_slot_grows grows_trans by blast
  qed
qed simp

lemma clear_chain_grows: "ValueTable_clear_chain t i w = Inr (t', w') \<Longrightarrow> grows w w'"
  by (auto simp: ValueTable_clear_chain_def simp del: clear_chain_loop.simps intro: clear_chain_loop_grows)

lemma next_free_id: "ValueTable_next_free t w = Inr (i, t') \<Longrightarrow> vt_id t' = vt_id t"
  by (auto simp: ValueTable_next_free_def Let_def and_then_eq_Inr split: if_splits)

lemma overwrite_mark_id: "overwrite_mark t w c nx f r s = Inr (n, nx', t', buf) \<Longrightarrow> vt_id t' = vt_id t"
  by (auto simp: overwrite_mark_def Let_def and_then_eq_Inr split: if_splits dest: next_free_id)

lemma overwrite_loop_grows:
  "overwrite_loop n key v c t w i f off rem start = Inr (s, t', w') \<Longrightarrow>
     grows w w' \<and> writer_stored w' (vt_id t) i \<noteq> None"
proof (induction n arbitrary: t w i f off rem start)
  case (Suc n)
  obtain nx f1 where 1: "overwrite_next t w i f = Inr (nx, f1)"
    using Suc.prems by (auto simp: and_then_eq_Inr)
  obtain vl nx1 t1 buf where 2: "overwrite_mark t w c nx f1 rem start = Inr (vl, nx1, t1, buf)"
    using Suc.prems 1 by (auto simp: and_then_eq_Inr)
  obtain off1 buf1 where 3: "overwrite_fill t1 key v off vl buf = Inr (off1, buf1)"
    using Suc.prems 1 2 by (auto simp: and_then_eq_Inr)
  let ?w = "LogWriter_insert_value w (vt_id t1) i (slice_of 0 (en_off buf1) (en_buf buf1))"
  have page: "grows w ?w" "writer_stored ?w (vt_id t) i \<noteq> None"
    using overwrite_mark_id [OF 2] by (simp_all add: writer_stored_insert_value)
  have "grows ?w w'"
  proof (cases "rem - vl = 0")
    case True
    then show ?thesis
      using Suc.prems 1 2 3 clear_chain_grows by (cases "nx1 = 0") (auto simp: Let_def and_then_eq_Inr)
  next
    case False
    then have "overwrite_loop n key v c t1 ?w nx1 f1 off1 (rem - vl) (if start = 0 then i else start) = Inr (s, t', w')"
      using Suc.prems 1 2 3 by (simp add: Let_def)
    then show ?thesis using Suc.IH by blast
  qed
  with page show ?case using grows_trans grows_stored by blast
qed simp

lemma overwrite_chain_grows:
  "ValueTable_overwrite_chain t key v w at' c = Inr (s, t', w') \<Longrightarrow> grows w w'"
  by (auto simp: ValueTable_overwrite_chain_def Let_def and_then_eq_Inr dest!: overwrite_loop_grows split: option.splits)

lemma insert_plan_grows: "ValueTable_write_insert_plan t key v w c = Inr (a, t', w') \<Longrightarrow> grows w w'"
  by (simp add: ValueTable_write_insert_plan_def overwrite_chain_grows)

lemma replace_plan_grows: "ValueTable_write_replace_plan t a key v w c = Inr (t', w') \<Longrightarrow> grows w w'"
  by (auto simp: ValueTable_write_replace_plan_def and_then_eq_Inr intro: overwrite_chain_grows)

lemma remove_plan_grows: "ValueTable_write_remove_plan t a w = Inr (t', w') \<Longrightarrow> grows w w'"
  by (auto simp: ValueTable_write_remove_plan_def split: if_splits intro: clear_chain_grows clear_slot_grows)

lemma change_ref_write:
  "(case d of None \<Rightarrow> Inr (False, w)
    | Some n \<Rightarrow> and_then (E n) (\<lambda>buf. if P buf then Inl e else Inr (True, f buf))) = Inr (b, w') \<Longrightarrow>
   w' = w \<or> (\<exists>buf. w' = f buf)"
  by (cases d) (auto simp: and_then_eq_Inr split: if_splits)

lemma change_ref_grows:
  assumes "ValueTable_change_ref t a delta w = Inr (b, w')"
  shows "grows w w'"
proof -
  obtain buf where 1: "ValueTable_load t (LogWriter_query w) a MAX_ENTRY_BUF_SIZE (unat (vt_entry_size t)) = Inr buf"
    using assms by (auto simp: ValueTable_change_ref_def and_then_eq_Inr)
  show ?thesis
  proof (cases "Entry_is_tombstone buf")
    case True
    then show ?thesis using assms 1 by (simp add: ValueTable_change_ref_def)
  next
    case False
    then show ?thesis
      using assms 1 by (auto simp: ValueTable_change_ref_def Let_def and_then_eq_Inr dest!: change_ref_write)
  qed
qed

lemma inc_ref_grows: "ValueTable_write_inc_ref t a w = Inr w' \<Longrightarrow> grows w w'"
  by (auto simp: ValueTable_write_inc_ref_def and_then_eq_Inr intro: change_ref_grows)

lemma dec_ref_grows:
  assumes "ValueTable_write_dec_ref t a w = Inr (b, t', w')"
  shows "grows w w'"
proof -
  obtain kept w1 where c: "ValueTable_change_ref t a (- 1) w = Inr (kept, w1)"
    using assms by (auto simp: ValueTable_write_dec_ref_def and_then_eq_Inr)
  have "grows w1 w'"
    using assms c by (cases kept) (auto simp: ValueTable_write_dec_ref_def and_then_eq_Inr intro: remove_plan_grows)
  with change_ref_grows [OF c] show ?thesis using grows_trans by blast
qed

lemma index_insert_grows: "IndexTable_write_insert_plan t key a sub w = Inr (r, w') \<Longrightarrow> grows w w'"
  by (auto simp: IndexTable_write_insert_plan_def IndexTable_plan_insert_chunk_def Let_def and_then_eq_Inr
      split: option.splits if_splits)

lemma index_remove_grows: "IndexTable_write_remove_plan t key i w = Inr (r, w') \<Longrightarrow> grows w w'"
  by (auto simp: IndexTable_write_remove_plan_def IndexTable_plan_remove_chunk_def Let_def and_then_eq_Inr
      split: option.splits if_splits)

section \<open>The key of a stored value\<close>

text \<open>
  \<open>partial_key_at\<close> fetches 40 bytes. A slot that is in the log is found whatever its length; one that is
  only in the file needs 40 bytes up to the end of the file.
\<close>

definition readable :: "ValueTable \<Rightarrow> LogWriter \<Rightarrow> u64 \<Rightarrow> bool" where
  "readable t w a \<longleftrightarrow> writer_stored w (vt_id t) a \<noteq> None \<or>
     (\<exists>f. tf_file (vt_file t) = Some f \<and> unat (a * ucast (vt_entry_size t)) + 40 \<le> flen f)"

lemma readable_grows: "readable t w a \<Longrightarrow> grows w w' \<Longrightarrow> same_table t t' \<Longrightarrow> readable t' w' a"
  using grows_stored by (fastforce simp: readable_def same_table_def)

lemma load_40:
  assumes "slot_bytes t (writer_stored w (vt_id t)) a = Some d" and "readable t w a"
  shows "\<exists>d'. ValueTable_load t (LogWriter_query w) a 40 40 = Inr (fresh_buf 40 d') \<and>
     (\<forall>n. n \<le> 40 \<longrightarrow> n \<le> length d \<longrightarrow> take n d' = take n d)"
proof (cases "writer_stored w (vt_id t) a")
  case (Some b)
  with assms(1) show ?thesis
    by (auto simp: slot_bytes_def ValueTable_load_def fresh_buf_def min_def)
next
  case None
  then obtain f where f: "tf_file (vt_file t) = Some f" "unat (a * ucast (vt_entry_size t)) + 40 \<le> flen f"
    using assms(2) by (auto simp: readable_def)
  then have "d = file_bytes f (unat (a * ucast (vt_entry_size t))) (unat (vt_entry_size t))"
    using assms(1) None by (auto simp: slot_bytes_def Let_def split: if_splits)
  then show ?thesis
    using None f by (auto simp: ValueTable_load_def TableFile_read_at_def file_read_at_def fresh_buf_def Let_def
        take_file_bytes)
qed

lemma slice_take_eq: "take n d' = take n d \<Longrightarrow> b \<le> n \<Longrightarrow> slice_of a b d' = slice_of a b d"
  by (metis slice_take)

lemma partial_key_body:
  assumes ok: "vt_ok t" and s: "W t w a = Some s" and body: "s = Last c b \<or> s = Part m b"
    and hdr: "hdr_len t \<le> length b" and r: "readable t w a"
  shows "ValueTable_partial_key_at t a (LogWriter_query w) = Inr (Some (body_pk t b))"
proof -
  obtain d where d: "slot_bytes t (writer_stored w (vt_id t)) a = Some d" "decode_slot t d = Some s"
    using s by (auto simp: view_def bind_eq_Some_conv)
  obtain d' where d': "ValueTable_load t (LogWriter_query w) a 40 40 = Inr (fresh_buf 40 d')"
      "\<And>n. n \<le> 40 \<Longrightarrow> n \<le> length d \<Longrightarrow> take n d' = take n d"
    using load_40 [OF d(1) r] by blast
  let ?r = "ValueTable_ref_size t"
  have hl: "hdr_len t = ?r + 26" "?r \<le> 4" by (auto simp: hdr_len_def ValueTable_ref_size_def size_consts)
  have len: "n \<le> length d'" if "n \<le> 40" "n \<le> length d" for n
    using arg_cong [OF d'(2) [OF that], of length] that by simp
  have two: "take 2 d' = take 2 d" "2 \<le> length d"
  proof -
    show "2 \<le> length d"
      using body
    proof
      assume "s = Last c b"
      then show ?thesis using decode_Last(3) [of t d c b] d(2) by simp
    next
      assume "s = Part m b"
      then have "unat (vt_entry_size t) \<le> length d" using decode_Part(4) [OF _ ok, of d m b] d(2) by simp
      then show ?thesis using ok by (simp add: vt_ok_def)
    qed
    then show "take 2 d' = take 2 d" using d'(2) [of 2] by simp
  qed
  show ?thesis
    using body
  proof
    assume sl: "s = Last c b"
    note p = decode_Last [OF d(2) [unfolded sl]]
    have b: "b = slice_of 2 (2 + length b) d" "2 + length b \<le> length d" using p(6) by (auto simp: positioned_def)
    have n: "2 + ?r + 26 \<le> length d" using b(2) hdr hl by linarith
    have "body_pk t b = slice_of (2 + ?r) (2 + ?r + 26) d"
      using hdr hl by (subst b(1)) (simp add: body_pk_def slice_of_def size_consts drop_take min_def add.commute)
    also have "\<dots> = slice_of (2 + ?r) (2 + ?r + 26) d'"
      by (rule slice_take_eq [symmetric, OF d'(2) [of "2 + ?r + 26"]]) (use n hl in simp_all)
    finally have pk: "body_pk t b = slice_of (2 + ?r) (2 + ?r + 26) d'" .
    have "2 + ?r + 26 \<le> length d'" using len [of "2 + ?r + 26"] n hl by simp
    then show ?thesis
      using d'(1) p(1,2) two pk
      by (auto simp: ValueTable_partial_key_at_def is_tombstone_marker is_multi_marker Let_def Entry_read_partial_def
          Entry_read_slice_def Entry_skip_size_def Entry_skip_rc_def ValueTable_ref_size_def size_consts)
  next
    assume sp: "s = Part m b"
    note p = decode_Part [OF d(2) [unfolded sp] ok]
    have b: "b = slice_of 10 (unat (vt_entry_size t)) d" using p(6) by (auto simp: positioned_def)
    have n: "10 + ?r + 26 \<le> unat (vt_entry_size t)" using p(7) hdr hl by linarith
    have "body_pk t b = slice_of (10 + ?r) (10 + ?r + 26) d"
      using n by (subst b) (simp add: body_pk_def slice_of_def size_consts drop_take min_def add.commute)
    also have "\<dots> = slice_of (10 + ?r) (10 + ?r + 26) d'"
      by (rule slice_take_eq [symmetric, OF d'(2) [of "10 + ?r + 26"]]) (use n hl p(4) in simp_all)
    finally have pk: "body_pk t b = slice_of (10 + ?r) (10 + ?r + 26) d'" .
    have "10 + ?r + 26 \<le> length d'" using len [of "10 + ?r + 26"] n hl p(4) by simp
    then show ?thesis
      using d'(1) p(1-3) two pk
      by (auto simp: ValueTable_partial_key_at_def is_tombstone_marker is_multi_marker Let_def Entry_read_partial_def
          Entry_read_slice_def Entry_skip_size_def Entry_skip_next_def Entry_skip_rc_def ValueTable_ref_size_def size_consts)
  qed
qed

lemma represents_cell:
  assumes "represents t w S" and "S a = Some v"
  obtains c b cs where "vt_ok t" "chain (W t w) c ((a, b) # cs)" "hdr_len t \<le> length b" "0 < body_rc t b"
    "v = cell_of t (c, (a, b) # cs)"
proof -
  from assms(1) obtain fs C where ok: "vt_ok t" and inv: "table_inv (W t w) t fs C"
    and S: "S = (\<lambda>a. map_option (cell_of t) (C a))"
    unfolding represents_def by blast
  from assms(2) obtain x where x: "C a = Some x" and v: "v = cell_of t x" by (auto simp: S)
  note ca = table_inv_chain [OF inv x, unfolded chain_at_def]
  then obtain b cs where "snd x = (a, b) # cs" by (cases "snd x") auto
  then show thesis using that [of "fst x" b cs] ca ok v by (cases x) simp
qed

lemma has_key_represents:
  assumes "represents t w S" and "S a = Some v" and "readable t w a"
  shows "ValueTable_has_key_at t a key (LogWriter_query w) = Inr (st_key v = partial_key key)"
proof -
  obtain c b cs where x: "vt_ok t" "chain (W t w) c ((a, b) # cs)" "hdr_len t \<le> length b" "0 < body_rc t b"
    "v = cell_of t (c, (a, b) # cs)" by (rule represents_cell [OF assms(1,2)])
  have "\<exists>s m. W t w a = Some s \<and> (s = Last c b \<or> s = Part m b)"
    using x(2) by (cases cs) auto
  then have "ValueTable_partial_key_at t a (LogWriter_query w) = Inr (Some (body_pk t b))"
    using partial_key_body [OF x(1) _ _ x(3) assms(3)] by blast
  then show ?thesis by (simp add: ValueTable_has_key_at_def x(5) cell_of_def)
qed

lemma size_fold: "fold (\<lambda>buf acc. acc + of_nat (length buf)) ps n = n + of_nat (length (concat ps))"
  by (induction ps arbitrary: n) (simp_all add: add.assoc)

lemma size_represents:
  assumes "represents t w S" and "S a = Some v"
  shows "ValueTable_size t key a (LogWriter_query w) =
     Inr (if partial_key key = st_key v then Some (of_nat (length (st_value v)), st_compressed v) else None)"
proof -
  obtain c b cs where x: "vt_ok t" "chain (W t w) c ((a, b) # cs)" "hdr_len t \<le> length b" "0 < body_rc t b"
    "v = cell_of t (c, (a, b) # cs)" by (rule represents_cell [OF assms(1,2)])
  show ?thesis
    using lwq.for_parts_chain [OF x(1-3), of "Some key"] x(3,4)
    by (auto simp: ValueTable_size_def key_mismatch_def size_fold x(5) cell_of_def Let_def)
qed

section \<open>The value tables of a column\<close>

definition stores :: "ValueTable list \<Rightarrow> (nat \<Rightarrow> contents) \<Rightarrow> store_map" where
  "stores vs S a = (if unat (Address_size_tier a) < length vs then S (unat (Address_size_tier a)) (Address_offset a) else None)"

definition tables_rep :: "ValueTable list \<Rightarrow> LogWriter \<Rightarrow> (nat \<Rightarrow> contents) \<Rightarrow> bool" where
  "tables_rep vs w S \<longleftrightarrow>
     vs \<noteq> [] \<and> length vs \<le> 256 \<and> distinct (map vt_id vs) \<and> vt_multipart (last vs) \<and>
     (\<forall>i<length vs. represents (vs ! i) w (S i) \<and> (\<forall>a. S i a \<noteq> None \<longrightarrow> readable (vs ! i) w a))"

lemma tables_rep_at:
  assumes "tables_rep vs w S" and "i < length vs"
  shows "represents (vs ! i) w (S i)" and "S i a = Some v \<Longrightarrow> readable (vs ! i) w a"
  using assms by (auto simp: tables_rep_def)

lemma represents_frame:
  "writer_stored w' (vt_id t) = writer_stored w (vt_id t) \<Longrightarrow> represents t w S \<Longrightarrow> represents t w' S"
  by (simp add: represents_def pages_ok_def)

lemma tables_rep_update:
  assumes rep: "tables_rep vs w S" and i: "i < length vs" and same: "same_table (vs ! i) t"
    and frame: "value_frame (vt_id (vs ! i)) w w'" and grow: "grows w w'" and new: "represents t w' C"
    and pages: "\<And>a. C a \<noteq> None \<Longrightarrow> S i a \<noteq> None \<or> writer_stored w' (vt_id (vs ! i)) a \<noteq> None"
  shows "tables_rep (vs[i := t]) w' (S(i := C))"
proof -
  have ids: "map vt_id (vs[i := t]) = map vt_id vs"
    using same i by (auto simp: same_table_def map_update intro!: nth_equalityI simp: nth_list_update)
  have dist: "distinct (map vt_id vs)" using rep by (simp add: tables_rep_def)
  have "represents (vs[i := t] ! j) w' ((S(i := C)) j) \<and>
      (\<forall>a. (S(i := C)) j a \<noteq> None \<longrightarrow> readable (vs[i := t] ! j) w' a)" if j: "j < length vs" for j
  proof (cases "j = i")
    case True
    have "readable t w' a" if "C a \<noteq> None" for a
      using pages [OF that]
    proof
      assume "S i a \<noteq> None"
      then show ?thesis using tables_rep_at(2) [OF rep i] readable_grows [OF _ grow same] by blast
    next
      assume "writer_stored w' (vt_id (vs ! i)) a \<noteq> None"
      then show ?thesis using same by (simp add: readable_def same_table_def)
    qed
    then show ?thesis using True i new by simp
  next
    case False
    then have "vt_id (vs ! j) \<noteq> vt_id (vs ! i)"
      using dist i j nth_eq_iff_index_eq [OF dist, of j i] by simp
    then have "writer_stored w' (vt_id (vs ! j)) = writer_stored w (vt_id (vs ! j))"
      by (rule value_frame_stored [OF frame])
    then show ?thesis
      using False tables_rep_at [OF rep j] represents_frame readable_grows [OF _ grow same_table_refl, of "vs ! j"] by auto
  qed
  moreover have "vt_multipart (last (vs[i := t]))"
  proof -
    have "vt_multipart (last vs)" "vs \<noteq> []" using rep by (simp_all add: tables_rep_def)
    then show ?thesis
      using same i by (cases "i = length vs - 1") (simp_all add: last_conv_nth same_table_def)
  qed
  ultimately show ?thesis
    using rep ids unfolding tables_rep_def by (auto simp: list_update_nonempty)
qed

lemma tables_rep_index: "tables_rep vs w S \<Longrightarrow> index_frame tid w w' \<Longrightarrow> tables_rep vs w' S"
  using index_frame_stored [of tid w w'] by (simp add: tables_rep_def represents_def pages_ok_def readable_def)

lemma stores_update:
  assumes "i < length vs" and "length vs \<le> 256" and "unat a < 2 ^ 56"
  shows "stores vs (S(i := (S i)(a := x))) = (stores vs S)(Address_new a (of_nat i) := x)"
proof
  fix b
  have i: "unat (of_nat i :: u8) = i" using assms by (intro of_nat_inverse [OF refl]) simp
  show "stores vs (S(i := (S i)(a := x))) b = ((stores vs S)(Address_new a (of_nat i) := x)) b"
  proof (cases "b = Address_new a (of_nat i)")
    case True
    then show ?thesis using assms by (simp add: stores_def address_new_tier address_new_offset i)
  next
    case False
    then have "\<not> (unat (Address_size_tier b) = i \<and> Address_offset b = a)"
      using address_split [of b] by auto
    with False show ?thesis by (auto simp: stores_def)
  qed
qed

lemma stores_same: "length vs' = length vs \<Longrightarrow> stores vs' S = stores vs S"
  by (rule ext) (simp add: stores_def)

section \<open>Finding a key\<close>

abbreviation table_index :: "Column \<Rightarrow> IndexTable" where
  "table_index c \<equiv> tb_index (col_tables c)"

abbreviation table_values :: "Column \<Rightarrow> ValueTable list" where
  "table_values c \<equiv> tb_value (col_tables c)"

text \<open>The loop finds the first position from \<open>p\<close> on that holds the key.\<close>

lemma search_loop:
  assumes ok: "it_ok t (LogWriter_query w)" and rep: "tables_rep vs w S" and key: "length key = KEY_LEN"
    and stored: "\<forall>i a. lookups t (LogWriter_query w) key i = Some a \<longrightarrow> stores vs S a \<noteq> None"
  shows "CHUNK_ENTRIES - p < n \<Longrightarrow>
     (\<exists>i a v. p \<le> i \<and> hit (lookups t (LogWriter_query w)) (stores vs S) key i a v \<and>
        and_then (IndexTable_get t key p (LogWriter_query w)) (\<lambda>(e, s).
          search_index_loop n key t vs (LogWriter_query w) e s) = Inr (Some (t, i, Address_size_tier a, a))) \<or>
     ((\<forall>i\<ge>p. \<forall>a v. \<not> hit (lookups t (LogWriter_query w)) (stores vs S) key i a v) \<and>
        and_then (IndexTable_get t key p (LogWriter_query w)) (\<lambda>(e, s).
          search_index_loop n key t vs (LogWriter_query w) e s) = Inr None)"
proof (induction n arbitrary: p)
  case (Suc n)
  let ?q = "LogWriter_query w"
  let ?L = "lookups t ?q" and ?A = "stores vs S"
  obtain e i where g: "IndexTable_get t key p ?q = Inr (e, i)"
      "if IndexEntry_is_empty e then i = 0 \<and> (\<forall>j\<ge>p. ?L key j = None)
       else p \<le> i \<and> ?L key i = Some (IndexEntry_address e (ibits t)) \<and> (\<forall>j. p \<le> j \<longrightarrow> j < i \<longrightarrow> ?L key j = None)"
    using get_lookups [OF ok, of key p] by blast
  show ?case
  proof (cases "IndexEntry_is_empty e")
    case True
    then have "\<not> hit ?L ?A key j a v" if "p \<le> j" for j a v using g(2) that by (simp add: hit_def)
    with True g(1) show ?thesis by simp
  next
    case False
    let ?a = "IndexEntry_address e (ibits t)"
    have i: "p \<le> i" "?L key i = Some ?a" "\<And>j. p \<le> j \<Longrightarrow> j < i \<Longrightarrow> ?L key j = None"
      using g(2) False by simp_all
    obtain v where v: "?A ?a = Some v" using stored i(2) by blast
    then have tier: "unat (Address_size_tier ?a) < length vs"
        "S (unat (Address_size_tier ?a)) (Address_offset ?a) = Some v"
      by (auto simp: stores_def split: if_splits)
    note has = has_key_represents [OF tables_rep_at(1) [OF rep tier(1)] tier(2) tables_rep_at(2) [OF rep tier(1) tier(2)], of key]
    show ?thesis
    proof (cases "st_key v = partial_key key")
      case True
      then have "hit ?L ?A key i ?a v" using i v by (simp add: hit_def)
      moreover have "search_index_loop (Suc n) key t vs ?q e i = Inr (Some (t, i, Address_size_tier ?a, ?a))"
        using False tier has True by (simp add: value_at_def Let_def)
      ultimately show ?thesis using i(1) g(1) by (intro disjI1 exI [of _ i] exI [of _ ?a] exI [of _ v]) simp
    next
      case other: False
      have skip: "hit ?L ?A key j a u \<Longrightarrow> p \<le> j \<Longrightarrow> i + 1 \<le> j" for j a u
        using i v other by (cases "j < i"; cases "j = i") (auto simp: hit_def)
      have "i < CHUNK_ENTRIES" using lookups_bound [of t ?q key i] i(2) by simp
      then have fuel: "CHUNK_ENTRIES - (i + 1) < n" using Suc.prems i(1) by linarith
      have step: "search_index_loop (Suc n) key t vs ?q e i =
          and_then (IndexTable_get t key (i + 1) ?q) (\<lambda>(e, s). search_index_loop n key t vs ?q e s)"
        using False tier has other by (simp add: value_at_def Let_def)
      show ?thesis
        using Suc.IH [OF fuel]
      proof
        assume "\<exists>j a u. i + 1 \<le> j \<and> hit ?L ?A key j a u \<and>
          and_then (IndexTable_get t key (i + 1) ?q) (\<lambda>(e, s). search_index_loop n key t vs ?q e s) =
            Inr (Some (t, j, Address_size_tier a, a))"
        then obtain j a u where "i + 1 \<le> j" "hit ?L ?A key j a u"
            "and_then (IndexTable_get t key (i + 1) ?q) (\<lambda>(e, s). search_index_loop n key t vs ?q e s) =
              Inr (Some (t, j, Address_size_tier a, a))" by blast
        then show ?thesis
          using i(1) g(1) step by (intro disjI1 exI [of _ j] exI [of _ a] exI [of _ u]) simp
      next
        assume "(\<forall>j\<ge>i + 1. \<forall>a u. \<not> hit ?L ?A key j a u) \<and>
          and_then (IndexTable_get t key (i + 1) ?q) (\<lambda>(e, s). search_index_loop n key t vs ?q e s) = Inr None"
        then show ?thesis using g(1) step skip by (intro disjI2) (simp, blast)
      qed
    qed
  qed
qed simp

text \<open>A stored value as the column returns it.\<close>

definition plain :: "Codecs \<Rightarrow> Compress \<Rightarrow> Stored \<Rightarrow> bytes res" where
  "plain cd cm v = (if st_compressed v then Compress_decompress cd cm (st_value v) else Inr (st_value v))"

lemma get_loop:
  assumes ok: "it_ok t (LogWriter_query w)" and rep: "tables_rep (table_values c) w S" and key: "length key = KEY_LEN"
    and stored: "\<forall>i a. lookups t (LogWriter_query w) key i = Some a \<longrightarrow> stores (table_values c) S a \<noteq> None"
  shows "CHUNK_ENTRIES - p < n \<Longrightarrow>
     (\<exists>i a v. p \<le> i \<and> hit (lookups t (LogWriter_query w)) (stores (table_values c) S) key i a v \<and>
        and_then (IndexTable_get t key p (LogWriter_query w)) (\<lambda>(e, s).
          get_in_index_loop n cd c key t (LogWriter_query w) e s) =
            and_then (plain cd (col_compression c) v) (\<lambda>val. Inr (Some (Address_size_tier a, val)))) \<or>
     ((\<forall>i\<ge>p. \<forall>a v. \<not> hit (lookups t (LogWriter_query w)) (stores (table_values c) S) key i a v) \<and>
        and_then (IndexTable_get t key p (LogWriter_query w)) (\<lambda>(e, s).
          get_in_index_loop n cd c key t (LogWriter_query w) e s) = Inr None)"
proof (induction n arbitrary: p)
  case (Suc n)
  let ?q = "LogWriter_query w" and ?vs = "table_values c"
  let ?L = "lookups t ?q" and ?A = "stores ?vs S"
  obtain e i where g: "IndexTable_get t key p ?q = Inr (e, i)"
      "if IndexEntry_is_empty e then i = 0 \<and> (\<forall>j\<ge>p. ?L key j = None)
       else p \<le> i \<and> ?L key i = Some (IndexEntry_address e (ibits t)) \<and> (\<forall>j. p \<le> j \<longrightarrow> j < i \<longrightarrow> ?L key j = None)"
    using get_lookups [OF ok, of key p] by blast
  show ?case
  proof (cases "IndexEntry_is_empty e")
    case True
    then have "\<not> hit ?L ?A key j a v" if "p \<le> j" for j a v using g(2) that by (simp add: hit_def)
    with True g(1) show ?thesis by simp
  next
    case False
    let ?a = "IndexEntry_address e (ibits t)"
    have i: "p \<le> i" "?L key i = Some ?a" "\<And>j. p \<le> j \<Longrightarrow> j < i \<Longrightarrow> ?L key j = None"
      using g(2) False by simp_all
    obtain v where v: "?A ?a = Some v" using stored i(2) by blast
    then have tier: "unat (Address_size_tier ?a) < length ?vs"
        "S (unat (Address_size_tier ?a)) (Address_offset ?a) = Some v"
      by (auto simp: stores_def split: if_splits)
    note get = get_represents(1) [OF tables_rep_at(1) [OF rep tier(1)] tier(2), of key]
    show ?thesis
    proof (cases "st_key v = partial_key key")
      case True
      then have "hit ?L ?A key i ?a v" using i v by (simp add: hit_def)
      moreover have "get_in_index_loop (Suc n) cd c key t ?q e i =
          and_then (plain cd (col_compression c) v) (\<lambda>val. Inr (Some (Address_size_tier ?a, val)))"
        using False tier get True by (simp add: value_at_def Let_def plain_def Column_decompress_def)
      ultimately show ?thesis using i(1) g(1) by (intro disjI1 exI [of _ i] exI [of _ ?a] exI [of _ v]) simp
    next
      case other: False
      have skip: "hit ?L ?A key j a u \<Longrightarrow> p \<le> j \<Longrightarrow> i + 1 \<le> j" for j a u
        using i v other by (cases "j < i"; cases "j = i") (auto simp: hit_def)
      have "i < CHUNK_ENTRIES" using lookups_bound [of t ?q key i] i(2) by simp
      then have fuel: "CHUNK_ENTRIES - (i + 1) < n" using Suc.prems i(1) by linarith
      have step: "get_in_index_loop (Suc n) cd c key t ?q e i =
          and_then (IndexTable_get t key (i + 1) ?q) (\<lambda>(e, s). get_in_index_loop n cd c key t ?q e s)"
        using False tier get other by (auto simp: value_at_def Let_def)
      from Suc.IH [OF fuel] show ?thesis
      proof (elim disjE exE conjE)
        fix j a u assume "i + 1 \<le> j" "hit ?L ?A key j a u"
            "and_then (IndexTable_get t key (i + 1) ?q) (\<lambda>(e, s). get_in_index_loop n cd c key t ?q e s) =
              and_then (plain cd (col_compression c) u) (\<lambda>val. Inr (Some (Address_size_tier a, val)))"
        then show ?thesis
          using i(1) g(1) step by (intro disjI1 exI [of _ j] exI [of _ a] exI [of _ u]) simp
      next
        assume "\<forall>j\<ge>i + 1. \<forall>a u. \<not> hit ?L ?A key j a u"
          "and_then (IndexTable_get t key (i + 1) ?q) (\<lambda>(e, s). get_in_index_loop n cd c key t ?q e s) = Inr None"
        then show ?thesis using g(1) step skip by (intro disjI2) (simp, blast)
      qed
    qed
  qed
qed simp

section \<open>The representation of a column\<close>

text \<open>
  \<open>column_rep cd c w S M\<close>: as the writer \<open>w\<close> of a record sees it, the column holds for every key the value
  \<open>M k\<close>; \<open>S i\<close> is the contents of the value table of tier \<open>i\<close>. No index is being moved.
\<close>

definition column_rep ::
    "Codecs \<Rightarrow> Column \<Rightarrow> LogWriter \<Rightarrow> (nat \<Rightarrow> contents) \<Rightarrow> (Key \<Rightarrow> Stored option) \<Rightarrow> bool" where
  "column_rep cd c w S M \<longleftrightarrow>
     tables_rep (table_values c) w S \<and> it_ok (table_index c) (LogWriter_query w) \<and>
     rx_queue (col_reindex c) = [] \<and>
     (\<forall>i<length (table_values c). vt_ref_counted (table_values c ! i) = col_ref_counted c) \<and>
     sound (bucket (table_index c)) (lookups (table_index c) (LogWriter_query w)) (stores (table_values c) S) \<and>
     holds (lookups (table_index c) (LogWriter_query w)) (stores (table_values c) S) M \<and>
     (\<forall>k v. length k = KEY_LEN \<longrightarrow> M k = Some v \<longrightarrow> (\<exists>x. plain cd (col_compression c) v = Inr x))"

lemma column_repD:
  assumes "column_rep cd c w S M"
  shows "tables_rep (table_values c) w S" "it_ok (table_index c) (LogWriter_query w)"
    "rx_queue (col_reindex c) = []"
    "\<And>i. i < length (table_values c) \<Longrightarrow> vt_ref_counted (table_values c ! i) = col_ref_counted c"
    "sound (bucket (table_index c)) (lookups (table_index c) (LogWriter_query w)) (stores (table_values c) S)"
    "holds (lookups (table_index c) (LogWriter_query w)) (stores (table_values c) S) M"
    "\<And>k v. length k = KEY_LEN \<Longrightarrow> M k = Some v \<Longrightarrow> \<exists>x. plain cd (col_compression c) v = Inr x"
    "bucket (table_index c) = same_bucket (table_index c)"
proof -
  show it: "it_ok (table_index c) (LogWriter_query w)" using assms by (simp add: column_rep_def)
  then show "bucket (table_index c) = same_bucket (table_index c)" by (intro bucket_ok) (simp add: it_ok_def)
qed (use assms in \<open>auto simp: column_rep_def\<close>)

lemma column_search:
  assumes rep: "column_rep cd c w S M" and key: "length key = KEY_LEN"
  shows "case M key of
      None \<Rightarrow> Column_search_all_indexes key (col_tables c) (col_reindex c) w = Inr None \<and>
        (\<forall>i a v. \<not> hit (lookups (table_index c) (LogWriter_query w)) (stores (table_values c) S) key i a v)
    | Some v \<Rightarrow> \<exists>i a. Column_search_all_indexes key (col_tables c) (col_reindex c) w =
        Inr (Some (table_index c, i, Address_size_tier a, a)) \<and>
        hit (lookups (table_index c) (LogWriter_query w)) (stores (table_values c) S) key i a v"
proof -
  let ?q = "LogWriter_query w"
  let ?L = "lookups (table_index c) ?q" and ?A = "stores (table_values c) S"
  note r = column_repD [OF rep]
  have stored: "\<forall>i a. ?L key i = Some a \<longrightarrow> ?A a \<noteq> None" using sound_stored [OF r(5) key] by blast
  note loop = search_loop [where p = 0 and n = "CHUNK_ENTRIES + 1", OF r(2) r(1) key stored, folded Column_search_index_def, simplified]
  show ?thesis
  proof (cases "\<exists>i a v. hit ?L ?A key i a v")
    case True
    then obtain i a v where hv: "hit ?L ?A key i a v"
      and s: "Column_search_index key (table_index c) (col_tables c) w =
        Inr (Some (table_index c, i, Address_size_tier a, a))"
      using loop by auto
    then have "M key = Some v" using holdsD [OF r(6) key] by blast
    with hv s show ?thesis by (auto simp: Column_search_all_indexes_def)
  next
    case False
    then have "M key = None" using holdsD [OF r(6) key] by (cases "M key") auto
    moreover have "Column_search_index key (table_index c) (col_tables c) w = Inr None"
      using loop False by auto
    ultimately show ?thesis using False r(3) by (simp add: Column_search_all_indexes_def)
  qed
qed

lemma column_get_rep:
  assumes rep: "column_rep cd c w S M" and key: "length key = KEY_LEN"
  shows "\<exists>c'. Column_get cd c key (LogWriter_query w) =
      Inr (map_option (\<lambda>v. projr (plain cd (col_compression c) v)) (M key), c') \<and>
      col_tables c' = col_tables c \<and> (\<not> col_collect_stats c \<longrightarrow> c' = c)"
proof -
  let ?q = "LogWriter_query w"
  let ?L = "lookups (table_index c) ?q" and ?A = "stores (table_values c) S"
  note r = column_repD [OF rep]
  have stored: "\<forall>i a. ?L key i = Some a \<longrightarrow> ?A a \<noteq> None" using sound_stored [OF r(5) key] by blast
  note loop = get_loop [where p = 0 and n = "CHUNK_ENTRIES + 1" and cd = cd, OF r(2) r(1) key stored, folded Column_get_in_index_def, simplified]
  show ?thesis
  proof (cases "\<exists>i a v. hit ?L ?A key i a v")
    case True
    then obtain i a v where hv: "hit ?L ?A key i a v"
      and s: "Column_get_in_index cd c key (table_index c) ?q =
        and_then (plain cd (col_compression c) v) (\<lambda>val. Inr (Some (Address_size_tier a, val)))"
      using loop by auto
    then have M: "M key = Some v" using holdsD [OF r(6) key] by blast
    then obtain x where "plain cd (col_compression c) v = Inr x" using r(7) [OF key] by blast
    with s M show ?thesis by (simp add: Column_get_def set_stats_def)
  next
    case False
    then have "M key = None" using holdsD [OF r(6) key] by (cases "M key") auto
    moreover have "Column_get_in_index cd c key (table_index c) ?q = Inr None"
      using loop False by auto
    ultimately show ?thesis using r(3) by (simp add: Column_get_def set_stats_def)
  qed
qed

end
