(* ===== verification/Column_Correct.thy ===== *)
theory Column_Correct
  imports Column_Rep
begin

text \<open>
  The writing side of a column. \<open>write_plan\<close> is shown to act on the column as an update of a map from keys to
  values with their reference counters; reading back gives what the map holds.
\<close>

section \<open>Choosing a table\<close>

lemma find_upt: "List.find P [0..<n] = Some i \<Longrightarrow> i < n \<and> P i"
  by (auto simp: find_Some_iff)

lemma last_fits: "tables_rep vs w S \<Longrightarrow> fits (vs ! (length vs - 1)) v"
  by (auto simp: tables_rep_def fits_def last_conv_nth)

text \<open>The value that is stored, and whether it is compressed.\<close>

definition packed :: "bytes \<Rightarrow> bytes option \<Rightarrow> bytes \<times> bool" where
  "packed val cval = (case cval of Some v \<Rightarrow> (v, True) | None \<Rightarrow> (val, False))"

lemma column_compress:
  assumes cd: "codecs_ok cd" "length val < LZ4_MAX_INPUT_SIZE" and rep: "tables_rep (table_values c) w S"
  obtains cval tier where "Column_compress cd c key val = Inr (cval, tier)" "tier < length (table_values c)"
    "fits (table_values c ! tier) (fst (packed val cval))" "length (fst (packed val cval)) \<le> length val"
    "plain cd (col_compression c) (new_stored key (fst (packed val cval)) (snd (packed val cval))) = Inr val"
proof -
  let ?vs = "table_values c" and ?cm = "col_compression c"
  obtain z where z: "Compress_compress cd ?cm val = Inr z" "Compress_decompress cd ?cm z = Inr val"
    using compress_roundtrip [OF cd] by blast
  define cval where "cval = (if unat (cm_treshold ?cm) < length val \<and> length z < length val then Some z else None)"
  define n where "n = length (fst (packed val cval))"
  define tier where "tier = (case List.find (\<lambda>i. n \<le> unat (ValueTable_value_size (?vs ! i))) [0..<length ?vs] of
      Some i \<Rightarrow> i | None \<Rightarrow> length ?vs - 1)"
  have "Column_compress cd c key val = Inr (cval, tier)"
    by (auto simp: Column_compress_def Column_compress_internal_def z Let_def cval_def tier_def n_def packed_def)
  moreover have "tier < length ?vs \<and> fits (?vs ! tier) (fst (packed val cval))"
  proof (cases "List.find (\<lambda>i. n \<le> unat (ValueTable_value_size (?vs ! i))) [0..<length ?vs]")
    case None
    then show ?thesis using rep last_fits [OF rep] by (simp add: tier_def tables_rep_def)
  next
    case (Some i)
    then show ?thesis using find_upt [OF Some] by (simp add: tier_def fits_def n_def)
  qed
  moreover have "length (fst (packed val cval)) \<le> length val" by (simp add: packed_def cval_def)
  moreover have "plain cd ?cm (new_stored key (fst (packed val cval)) (snd (packed val cval))) = Inr val"
    using z by (simp add: packed_def cval_def plain_def)
  ultimately show thesis using that by blast
qed

section \<open>What writing a value keeps\<close>

lemma value_frame_lookups:
  assumes "value_frame tid w w'"
  shows "lookups t (LogWriter_query w') = lookups t (LogWriter_query w)"
    and "it_ok t (LogWriter_query w') = it_ok t (LogWriter_query w)"
    and "chunk_full t (LogWriter_query w') = chunk_full t (LogWriter_query w)"
proof -
  have q: "q_with_index (LogWriter_query w') = q_with_index (LogWriter_query w)"
    using value_frame_index [OF assms] by (simp add: LogWriter_query_def)
  then have v: "chunk_view t (LogWriter_query w') = chunk_view t (LogWriter_query w)"
    by (intro ext) (simp add: chunk_view_def)
  show "lookups t (LogWriter_query w') = lookups t (LogWriter_query w)"
    by (intro ext) (simp add: lookups_def v)
  show "it_ok t (LogWriter_query w') = it_ok t (LogWriter_query w)" by (simp add: it_ok_def q)
  show "chunk_full t (LogWriter_query w') = chunk_full t (LogWriter_query w)"
    by (rule ext) (simp add: chunk_full_def v)
qed

lemma address_offset_bound: "unat (Address_offset a) < 2 ^ 56"
proof -
  have "unat (Address_offset a) = unat (Address_as_u64 a) div 2 ^ 8"
    using drop_bit_eq_div [of 8 "unat (Address_as_u64 a)"] by (simp add: Address_offset_def shr_def unat_drop_bit_eq)
  also have "\<dots> < 2 ^ 56" using unsigned_less [of "Address_as_u64 a", where 'a = nat] by (simp add: less_mult_imp_div_less)
  finally show ?thesis .
qed

lemma free_list_first: "free_list V h fs \<Longrightarrow> h = 0 \<or> h \<in> set fs"
  by (cases fs) auto

lemma removed_below_filled:
  assumes "represents t w S"
  shows "unat (if vt_last_removed t = 0 then vt_filled t else vt_last_removed t) \<le> unat (vt_filled t)"
proof -
  from assms obtain fs C where "space (W t w) t fs (used C)"
    unfolding represents_def using table_inv_space by blast
  then have "free_list (W t w) (vt_last_removed t) fs" "set fs \<subseteq> {i. 0 < i \<and> i < vt_filled t}"
    by (auto simp: space_def)
  then show ?thesis using free_list_first by (force simp: word_less_nat_alt)
qed

section \<open>Steps of a plan\<close>

lemma set_value_simps [simp]:
  "table_values (set_value c i t) = (table_values c)[i := t]" "table_index (set_value c i t) = table_index c"
  "col_reindex (set_value c i t) = col_reindex c" "col_ref_counted (set_value c i t) = col_ref_counted c"
  "col_preimage (set_value c i t) = col_preimage c" "col_collect_stats (set_value c i t) = col_collect_stats c"
  "col_compression (set_value c i t) = col_compression c" "col_stats (set_value c i t) = col_stats c"
  by (simp_all add: set_value_def)

lemma set_stats_simps [simp]:
  "col_tables (set_stats c f) = col_tables c" "col_reindex (set_stats c f) = col_reindex c"
  "col_ref_counted (set_stats c f) = col_ref_counted c" "col_preimage (set_stats c f) = col_preimage c"
  "col_compression (set_stats c f) = col_compression c"
  by (simp_all add: set_stats_def)

lemma column_rep_stats [simp]:
  "column_rep cd (set_stats c f) w S M = column_rep cd c w S M"
  "column_rep cd (c\<lparr>col_stats := s\<rparr>) w S M = column_rep cd c w S M"
  "column_rep cd (set_value (set_stats c f) i t) w S M = column_rep cd (set_value c i t) w S M"
  by (simp_all add: column_rep_def)

lemma hit_table:
  assumes "hit L (stores vs S) key i a v"
  shows "unat (Address_size_tier a) < length vs" and "S (unat (Address_size_tier a)) (Address_offset a) = Some v"
  using assms by (auto simp: hit_def stores_def split: if_splits)

lemma stores_at:
  assumes "unat (Address_size_tier a) < length vs" and "length vs \<le> 256"
  shows "stores vs (S(unat (Address_size_tier a) := (S (unat (Address_size_tier a)))(Address_offset a := x))) = (stores vs S)(a := x)"
  using stores_update [OF assms address_offset_bound, of S a x] by (simp add: address_split)

lemma counted_update:
  assumes "\<And>j. j < length vs \<Longrightarrow> vt_ref_counted (vs ! j) = b" and "same_table (vs ! i) t" and "i < length vs"
  shows "\<forall>j<length (vs[i := t]). vt_ref_counted (vs[i := t] ! j) = b"
  using assms by (auto simp: nth_list_update same_table_counted)

text \<open>
  A change of the value of a key in its table. \<open>write\<close> collects what the operations of a value table promise:
  the table and the record afterwards, and that no page of the record is lost.
\<close>

definition value_write :: "ValueTable \<Rightarrow> LogWriter \<Rightarrow> ValueTable \<Rightarrow> LogWriter \<Rightarrow> contents \<Rightarrow> bool" where
  "value_write t w t' w' C \<longleftrightarrow>
     same_table t t' \<and> value_frame (vt_id t) w w' \<and> grows w w' \<and> represents t' w' C"

lemma value_writeD:
  assumes "value_write t w t' w' C"
  shows "same_table t t'" "value_frame (vt_id t) w w'" "grows w w'" "represents t' w' C"
    "lookups u (LogWriter_query w') = lookups u (LogWriter_query w)"
    "it_ok u (LogWriter_query w') = it_ok u (LogWriter_query w)"
    "chunk_full u (LogWriter_query w') = chunk_full u (LogWriter_query w)"
  using assms value_frame_lookups by (auto simp: value_write_def)

lemma column_change:
  assumes rep: "column_rep cd c w S M" and key: "length key = KEY_LEN"
    and h: "hit (lookups (table_index c) (LogWriter_query w)) (stores (table_values c) S) key i a v0"
    and n: "n = unat (Address_size_tier a)"
    and wr: "value_write (table_values c ! n) w t w' ((S n)(Address_offset a \<mapsto> v))"
    and v: "st_key v = partial_key key" "plain cd (col_compression c) v = Inr x"
  shows "column_rep cd (set_value c n t) w' (S(n := (S n)(Address_offset a \<mapsto> v))) (M(key \<mapsto> v))"
proof -
  let ?vs = "table_values c"
  note r = column_repD [OF rep] and p = value_writeD [OF wr] and ht = hit_table [OF h]
  have len: "length ?vs \<le> 256" using r(1) by (simp add: tables_rep_def)
  have tier: "n < length ?vs" using ht(1) n by simp
  have "tables_rep (?vs[n := t]) w' (S(n := (S n)(Address_offset a \<mapsto> v)))"
    by (rule tables_rep_update [OF r(1) tier p(1-4)]) (use ht(2) n in \<open>auto split: if_splits\<close>)
  moreover have "stores (?vs[n := t]) (S(n := (S n)(Address_offset a \<mapsto> v))) = (stores ?vs S)(a \<mapsto> v)"
    using stores_at [OF ht(1) len] n stores_same [of "?vs[n := t]" ?vs] by simp
  ultimately show ?thesis
    using r p(5,6) bkt.sound_change [OF r(5) key h v(1)] counted_update [OF r(4) p(1) tier] v(2)
    unfolding column_rep_def by auto
qed

text \<open>The entries of a bucket, with one of them changed.\<close>

abbreviation column_lookups :: "Column \<Rightarrow> LogWriter \<Rightarrow> index_map" where
  "column_lookups c w \<equiv> lookups (table_index c) (LogWriter_query w)"

lemma bucket_lookups: "it_ok t q \<Longrightarrow> bucket t key k \<Longrightarrow> lookups t q k = lookups t q key"
  using same_bucket_lookups [of t key k q] by (simp add: bucket_ok it_ok_def)

lemma column_remove:
  assumes rep: "column_rep cd c w S M" and key: "length key = KEY_LEN"
    and h: "hit (column_lookups c w) (stores (table_values c) S) key i a v0"
    and n: "n = unat (Address_size_tier a)"
    and wr: "value_write (table_values c ! n) w t w1 ((S n)(Address_offset a := None))"
  shows "\<exists>w'. IndexTable_write_remove_plan (table_index c) key i w1 = Inr (Written, w') \<and>
     index_frame (it_id (table_index c)) w1 w' \<and>
     column_rep cd (set_value c n t) w' (S(n := (S n)(Address_offset a := None))) (M(key := None))"
proof -
  let ?vs = "table_values c" and ?t = "table_index c" and ?L = "column_lookups c w"
  note r = column_repD [OF rep] and p = value_writeD [OF wr] and ht = hit_table [OF h]
  have len: "length ?vs \<le> 256" using r(1) by (simp add: tables_rep_def)
  have tier: "n < length ?vs" using ht(1) n by simp
  have old: "column_lookups c w1 key i = Some a" using h p(5) [of ?t] by (simp add: hit_def)
  have ok1: "it_ok ?t (LogWriter_query w1)" using r(2) p(6) by simp
  obtain w' where w': "IndexTable_write_remove_plan ?t key i w1 = Inr (Written, w')"
      "it_ok ?t (LogWriter_query w')" "index_frame (it_id ?t) w1 w'"
      "\<And>k. column_lookups c w' k = (if same_bucket ?t key k then (?L key)(i := None) else ?L k)"
    using plan_remove [OF ok1 old] p(5) [of ?t] by auto
  have "bkt.updates ?t ?L key i None (column_lookups c w')"
    unfolding bkt.updates_def by (simp add: w'(4) r(8))
  note s = bkt.sound_remove [OF r(5) key h bucket_lookups [OF r(2)] this]
  have "tables_rep (?vs[n := t]) w1 (S(n := (S n)(Address_offset a := None)))"
    by (rule tables_rep_update [OF r(1) tier p(1-4)]) (auto split: if_splits)
  then have "tables_rep (?vs[n := t]) w' (S(n := (S n)(Address_offset a := None)))"
    by (rule tables_rep_index [OF _ w'(3)])
  moreover have "stores (?vs[n := t]) (S(n := (S n)(Address_offset a := None))) = (stores ?vs S)(a := None)"
    using stores_at [OF ht(1) len] n stores_same [of "?vs[n := t]" ?vs] by simp
  ultimately have "column_rep cd (set_value c n t) w' (S(n := (S n)(Address_offset a := None))) (M(key := None))"
    using r w'(2) s(1,2) counted_update [OF r(4) p(1) tier] unfolding column_rep_def by auto
  with w'(1,3) show ?thesis by blast
qed

text \<open>
  A new value. \<open>L\<close> is the index without the entry that is to be written, which is a free one or the one of
  the value that was removed just before.
\<close>

lemma column_insert:
  assumes rep: "tables_rep (table_values c) w S" and idx: "it_ok (table_index c) (LogWriter_query w)"
    and queue: "rx_queue (col_reindex c) = []"
    and counted: "\<And>j. j < length (table_values c) \<Longrightarrow> vt_ref_counted (table_values c ! j) = col_ref_counted c"
    and s: "sound (bucket (table_index c)) L (stores (table_values c) S)" "holds L (stores (table_values c) S) M"
    and read: "\<And>k v. length k = KEY_LEN \<Longrightarrow> M k = Some v \<Longrightarrow> \<exists>x. plain cd (col_compression c) v = Inr x"
    and key: "length key = KEY_LEN" and new: "\<And>j b u. \<not> hit L (stores (table_values c) S) key j b u"
    and free: "L key i = None" and bucket: "\<And>k. bucket (table_index c) key k \<Longrightarrow> L k = L key"
    and n: "n < length (table_values c)" and a: "S n a = None" "unat a < 2 ^ 56"
    and wr: "value_write (table_values c ! n) w t w1 ((S n)(a \<mapsto> v))"
    and page: "writer_stored w1 (vt_id (table_values c ! n)) a \<noteq> None"
    and v: "st_key v = partial_key key" "plain cd (col_compression c) v = Inr x"
    and w': "it_ok (table_index c) (LogWriter_query w')" "index_frame (it_id (table_index c)) w1 w'"
    and L': "bkt.updates (table_index c) L key i (Some (Address_new a (of_nat n))) (column_lookups c w')"
  shows "column_rep cd (set_value c n t) w' (S(n := (S n)(a \<mapsto> v))) (M(key \<mapsto> v))"
proof -
  let ?vs = "table_values c" and ?a = "Address_new a (of_nat n)"
  note p = value_writeD [OF wr]
  have len: "length ?vs \<le> 256" using rep by (simp add: tables_rep_def)
  have "tables_rep (?vs[n := t]) w1 (S(n := (S n)(a \<mapsto> v)))"
    by (rule tables_rep_update [OF rep n p(1-4)]) (use page in \<open>auto split: if_splits\<close>)
  then have t: "tables_rep (?vs[n := t]) w' (S(n := (S n)(a \<mapsto> v)))"
    by (rule tables_rep_index [OF _ w'(2)])
  have st: "stores (?vs[n := t]) (S(n := (S n)(a \<mapsto> v))) = (stores ?vs S)(?a \<mapsto> v)"
    using stores_update [OF n len a(2)] stores_same [of "?vs[n := t]" ?vs] by simp
  have "unat (of_nat n :: u8) = n" using n len by (intro of_nat_inverse [OF refl]) simp
  then have none: "stores ?vs S ?a = None"
    using a n by (simp add: stores_def address_new_tier address_new_offset)
  note i = bkt.sound_insert [OF s(1) key free none bucket L' v(1) new]
  show ?thesis
    using t st w'(1) queue i(1) i(2) [OF _ s(2)] counted_update [OF counted p(1) n] read v(2)
    unfolding column_rep_def by auto
qed

section \<open>The operations of a value table\<close>

lemma insert_page:
  assumes "ValueTable_write_insert_plan t key v w c = Inr (a, t', w')"
    and "a = (if vt_last_removed t = 0 then vt_filled t else vt_last_removed t)"
  shows "writer_stored w' (vt_id t) a \<noteq> None"
proof -
  obtain i t1 n where nf: "ValueTable_next_free t w = Inr (i, t1)"
    and loop: "overwrite_loop n key v c t1 w i False 0 n 0 = Inr (a, t', w')"
    using assms(1)
    by (auto simp: ValueTable_write_insert_plan_def ValueTable_overwrite_chain_def Let_def and_then_eq_Inr)
  have "i = a" using next_free_index [OF nf] assms(2) by simp
  then show ?thesis using overwrite_loop_grows [OF loop] next_free_id [OF nf] by simp
qed

lemma room_small: "unat (vt_filled t) < 2 ^ 56 \<Longrightarrow> length v < LZ4_MAX_INPUT_SIZE \<Longrightarrow> room_for t v"
  by (simp add: room_for_def LZ4_MAX_INPUT_SIZE_def)

lemma insert_write:
  assumes rep: "represents t w S" and key: "length key = KEY_LEN" and fit: "fits t v"
    and room: "unat (vt_filled t) < 2 ^ 56" "length v < LZ4_MAX_INPUT_SIZE"
  obtains a t' w' where "ValueTable_write_insert_plan t key v w c = Inr (a, t', w')"
    "value_write t w t' w' (S(a \<mapsto> new_stored key v c))" "a \<noteq> 0" "S a = None" "unat a \<le> unat (vt_filled t)"
    "writer_stored w' (vt_id t) a \<noteq> None"
proof -
  obtain a t' w' where p: "ValueTable_write_insert_plan t key v w c = Inr (a, t', w')"
      "a = (if vt_last_removed t = 0 then vt_filled t else vt_last_removed t)" "a \<noteq> 0" "S a = None"
      "same_table t t'" "value_frame (vt_id t) w w'" "represents t' w' (S(a \<mapsto> new_stored key v c))"
    using insert_represents [OF rep key fit room_small [OF room], of c] by blast
  show thesis
    using that [OF p(1) _ p(3,4) _ insert_page [OF p(1,2)]] removed_below_filled [OF rep] p insert_plan_grows [OF p(1)]
    by (simp add: value_write_def)
qed

lemma replace_write:
  assumes rep: "represents t w S" and key: "length key = KEY_LEN" and fit: "fits t v"
    and room: "unat (vt_filled t) < 2 ^ 56" "length v < LZ4_MAX_INPUT_SIZE" and a: "S a = Some u"
  obtains t' w' where "ValueTable_write_replace_plan t a key v w c = Inr (t', w')"
    "value_write t w t' w' (S(a \<mapsto> new_stored key v c))"
  using replace_represents [OF rep key fit room_small [OF room] a, of c] replace_plan_grows [of t a key v w c]
  by (auto simp: value_write_def)

lemma remove_write:
  assumes rep: "represents t w S" and a: "S a = Some u"
  obtains t' w' where "ValueTable_write_remove_plan t a w = Inr (t', w')" "value_write t w t' w' (S(a := None))"
  using remove_represents [OF rep a] remove_plan_grows [of t a w] by (auto simp: value_write_def)

lemma inc_ref_write:
  assumes rep: "represents t w S" and rc: "vt_ref_counted t" and a: "S a = Some u"
  obtains w' where "ValueTable_write_inc_ref t a w = Inr w'"
    "value_write t w t w' (S(a \<mapsto> u\<lparr>st_rc := count_up (st_rc u)\<rparr>))"
  using inc_ref_represents [OF rep rc a] inc_ref_grows [of t a w] by (auto simp: value_write_def)

lemma dec_ref_write:
  assumes rep: "represents t w S" and rc: "vt_ref_counted t" and a: "S a = Some u"
  obtains t' w' where "ValueTable_write_dec_ref t a w = Inr (st_rc u \<noteq> 1, t', w')"
    "value_write t w t' w' (S(a := if st_rc u = 1 then None else Some (u\<lparr>st_rc := count_down (st_rc u)\<rparr>)))"
  using dec_ref_represents [OF rep rc a] dec_ref_grows [of t a w] by (auto simp: value_write_def)

section \<open>What a plan leaves alone\<close>

text \<open>
  A plan of a column adds pages of the tables of the column to the record. The options, the index table and
  the identifiers of the value tables stay.
\<close>

definition col_step :: "Column \<Rightarrow> LogWriter \<Rightarrow> Column \<Rightarrow> LogWriter \<Rightarrow> bool" where
  "col_step c w c' w' \<longleftrightarrow>
     col_ref_counted c' = col_ref_counted c \<and> col_preimage c' = col_preimage c \<and>
     col_compression c' = col_compression c \<and> col_collect_stats c' = col_collect_stats c \<and>
     col_uniform_keys c' = col_uniform_keys c \<and> col_salt c' = col_salt c \<and>
     col_db_version c' = col_db_version c \<and>
     table_index c' = table_index c \<and> col_reindex c' = col_reindex c \<and>
     map vt_id (table_values c') = map vt_id (table_values c) \<and>
     grows w w' \<and> lw_overlays w' = lw_overlays w \<and> lc_record_id (lw_log w') = lc_record_id (lw_log w) \<and>
     (\<forall>u. u \<notin> vt_id ` set (table_values c) \<longrightarrow> writer_stored w' u = writer_stored w u) \<and>
     (\<forall>u. u \<noteq> it_id (table_index c) \<longrightarrow> LogWriter_with_index w' u = LogWriter_with_index w u)"

lemma col_step_refl [simp, intro]: "col_step c w c w"
  by (simp add: col_step_def)

lemma col_step_trans:
  assumes "col_step c w c1 w1" and "col_step c1 w1 c2 w2"
  shows "col_step c w c2 w2"
proof -
  have "vt_id ` set (table_values c1) = vt_id ` set (table_values c)"
    using assms(1) unfolding col_step_def by (metis list.set_map)
  moreover have "grows w w2" using assms grows_trans unfolding col_step_def by blast
  ultimately show ?thesis using assms unfolding col_step_def by simp
qed

lemma ids_update:
  assumes "same_table (vs ! n) t"
  shows "map vt_id (vs[n := t]) = map vt_id vs"
proof (cases "n < length vs")
  case True
  then have "map vt_id (vs[n := t]) = (map vt_id vs)[n := vt_id (vs ! n)]"
    using assms by (simp add: map_update same_table_def)
  also have "\<dots> = map vt_id vs" using True by (metis list_update_id nth_map)
  finally show ?thesis .
qed (simp add: list_update_beyond)

lemma col_step_value:
  assumes "value_write (table_values c ! n) w t w' C" and "n < length (table_values c)"
  shows "col_step c w (set_value c n t) w'"
proof -
  note p = value_writeD [OF assms(1)]
  have "vt_id (table_values c ! n) \<in> vt_id ` set (table_values c)" using assms(2) by simp
  then have "writer_stored w' u = writer_stored w u" if "u \<notin> vt_id ` set (table_values c)" for u
    using value_frame_stored [OF p(2)] that by metis
  then show ?thesis
    using p(2,3) value_frame_index [OF p(2)] ids_update [OF p(1)] by (simp add: col_step_def value_frame_def set_value_def)
qed

lemma col_step_index: "index_frame (it_id (table_index c)) w w' \<Longrightarrow> grows w w' \<Longrightarrow> col_step c w c w'"
  using index_frame_stored [of "it_id (table_index c)" w w'] index_frame_with_index [of "it_id (table_index c)" w w']
  by (simp add: col_step_def index_frame_def)

lemma col_step_stats [simp]:
  "col_step c w (set_stats c' f) w' = col_step c w c' w'" "col_step c w (c'\<lparr>col_stats := s\<rparr>) w' = col_step c w c' w'"
  "col_step c w (set_value (set_stats c' f) i t) w' = col_step c w (set_value c' i t) w'"
  "col_step c w (set_value (set_value (set_stats c' f) i t) j u) w' = col_step c w (set_value (set_value c' i t) j u) w'"
  by (simp_all add: col_step_def set_stats_def set_value_def)

section \<open>Writing a value\<close>

text \<open>
  The column is ready to write a value under a key: an entry of the index can address every slot of the value
  tables. Whether the chunk of the key has a free entry (\<open>chunk_full\<close>) matters for new keys only.
\<close>

definition column_ready :: "Column \<Rightarrow> LogWriter \<Rightarrow> Key \<Rightarrow> bytes \<Rightarrow> bool" where
  "column_ready c w key val \<longleftrightarrow>
     length key = KEY_LEN \<and> length val < LZ4_MAX_INPUT_SIZE \<and>
     (\<forall>t\<in>set (table_values c). unat (vt_filled t) < 2 ^ (unat (ibits (table_index c)) + 6))"

lemma ready_filled:
  assumes "column_ready c w key val" and "bits_ok (ibits (table_index c))" and "n < length (table_values c)"
    and "a \<noteq> 0" and "unat a \<le> unat (vt_filled (table_values c ! n))"
  shows "unat a < 2 ^ 56" and "address_ok (table_index c) (Address_new a tier)"
proof -
  let ?b = "unat (ibits (table_index c)) + 6"
  have "unat (vt_filled (table_values c ! n)) < 2 ^ ?b" using assms(1,3) by (simp add: column_ready_def)
  with assms(5) have lt: "unat a < 2 ^ ?b" by linarith
  have "?b \<le> 56" using assms(2) by (simp add: bits_ok_def)
  then have "(2 :: nat) ^ ?b \<le> 2 ^ 56" by (intro power_increasing) simp_all
  with lt show "unat a < 2 ^ 56" by linarith
  show "address_ok (table_index c) (Address_new a tier)" by (rule address_new_ok [OF assms(2) lt assms(4)])
qed

lemma ready_small:
  assumes "column_ready c w key val" and "bits_ok (ibits (table_index c))" and "n < length (table_values c)"
  shows "unat (vt_filled (table_values c ! n)) < 2 ^ 56"
proof -
  have "unat (vt_filled (table_values c ! n)) < 2 ^ (unat (ibits (table_index c)) + 6)"
    using assms(1,3) by (simp add: column_ready_def)
  also have "\<dots> \<le> 2 ^ 56" using assms(2) by (intro power_increasing) (simp_all add: bits_ok_def)
  finally show ?thesis .
qed

lemma it_ok_bits: "it_ok t q \<Longrightarrow> bits_ok (ibits t)"
  by (simp add: it_ok_def)

lemma write_new_rep:
  assumes cd: "codecs_ok cd" and rep: "column_rep cd c w S M" and ready: "column_ready c w key val"
    and room: "\<not> chunk_full (table_index c) (LogWriter_query w) key" and none: "M key = None"
  shows "\<exists>clen c' w' S' v. write_new cd c key val w = Inr (Written, clen, c', w') \<and>
     column_rep cd c' w' S' (M(key \<mapsto> v)) \<and> col_step c w c' w' \<and>
     st_rc v = 1 \<and> plain cd (col_compression c) v = Inr val"
proof -
  let ?vs = "table_values c" and ?t = "table_index c" and ?L = "column_lookups c w"
  note r = column_repD [OF rep] and bits = it_ok_bits [OF r(2)]
  have key: "length key = KEY_LEN" and val: "length val < LZ4_MAX_INPUT_SIZE" using ready by (simp_all add: column_ready_def)
  obtain cval n where c: "Column_compress cd c key val = Inr (cval, n)" "n < length ?vs"
      "fits (?vs ! n) (fst (packed val cval))" "length (fst (packed val cval)) \<le> length val"
      "plain cd (col_compression c) (new_stored key (fst (packed val cval)) (snd (packed val cval))) = Inr val"
    by (rule column_compress [OF cd val r(1)])
  have small: "length (fst (packed val cval)) < LZ4_MAX_INPUT_SIZE" using val c(4) by linarith
  obtain a t w1 where p: "ValueTable_write_insert_plan (?vs ! n) key (fst (packed val cval)) w (snd (packed val cval)) = Inr (a, t, w1)"
      "value_write (?vs ! n) w t w1 ((S n)(a \<mapsto> new_stored key (fst (packed val cval)) (snd (packed val cval))))"
      "a \<noteq> 0" "S n a = None" "unat a \<le> unat (vt_filled (?vs ! n))" "writer_stored w1 (vt_id (?vs ! n)) a \<noteq> None"
    by (rule insert_write [OF tables_rep_at(1) [OF r(1) c(2)] key c(3) ready_small [OF ready bits c(2)] small])
  note d = value_writeD [OF p(2)] and f = ready_filled [OF ready bits c(2) p(3,5)]
  have ok1: "it_ok ?t (LogWriter_query w1)" and space: "\<not> chunk_full ?t (LogWriter_query w1) key"
    using r(2) d(6,7) room by simp_all
  obtain i w' where w': "IndexTable_write_insert_plan ?t key (Address_new a (of_nat n)) None w1 = Inr (Written, w')"
      "it_ok ?t (LogWriter_query w')" "index_frame (it_id ?t) w1 w'" "?L key i = None"
      "\<And>k. column_lookups c w' k = (if same_bucket ?t key k then (?L key)(i \<mapsto> Address_new a (of_nat n)) else ?L k)"
    using plan_insert [OF ok1 f(2) space] unfolding d(5) by blast
  have L': "bkt.updates ?t ?L key i (Some (Address_new a (of_nat n))) (column_lookups c w')"
    unfolding bkt.updates_def by (simp add: w'(5) r(8))
  have new: "\<not> hit ?L (stores ?vs S) key j b u" for j b u using holdsD [OF r(6) key, of u] none by auto
  have "column_rep cd (set_value c n t) w'
      (S(n := (S n)(a \<mapsto> new_stored key (fst (packed val cval)) (snd (packed val cval)))))
      (M(key \<mapsto> new_stored key (fst (packed val cval)) (snd (packed val cval))))"
    by (rule column_insert [OF r(1-7) key new w'(4) bucket_lookups [OF r(2)] c(2) p(4) f(1) p(2,6) _ c(5) w'(2,3) L'])
       (simp_all add: new_stored_def)
  moreover have "write_new cd c key val w = Inr (Written, length (fst (packed val cval)), set_value c n t, w')"
    using c p(1) w'(1) by (cases cval) (simp_all add: write_new_def value_at_def packed_def Let_def)
  moreover have "col_step c w (set_value c n t) w'"
    by (rule col_step_trans [OF col_step_value [OF p(2) c(2)] col_step_index]) (simp_all add: w'(3) index_insert_grows [OF w'(1)])
  ultimately show ?thesis
    using c(5) by (intro exI conjI) (assumption | simp add: new_stored_def)+
qed

section \<open>Writing over a value\<close>

lemma stored_sizes_ok:
  assumes rep: "represents t w S" and a: "S a = Some v" and key: "st_key v = partial_key key"
    and p: "plain cd (col_compression c) v = Inr x"
  shows "\<exists>m n. stored_sizes cd c t key a (LogWriter_query w) = Inr (m, n)"
  using size_represents [OF rep a, of key] get_represents(1) [OF rep a, of key] key p
  by (cases "st_compressed v") (simp_all add: stored_sizes_def plain_def Column_decompress_def expect_def)

text \<open>Moving a value to another table: the entry of the index is written over.\<close>

lemma move_value:
  assumes cd: "codecs_ok cd" and rep: "column_rep cd c w S M" and ready: "column_ready c w key val"
    and h: "hit (column_lookups c w) (stores (table_values c) S) key i b v0" and n: "n = unat (Address_size_tier b)"
    and m: "m < length (table_values c)" "m \<noteq> n" and fit: "fits (table_values c ! m) cval" "length cval \<le> length val"
    and gives: "plain cd (col_compression c) (new_stored key cval z) = Inr val"
  shows "\<exists>t w1 a u w2 w' S'. ValueTable_write_remove_plan (table_values c ! n) (Address_offset b) w = Inr (t, w1) \<and>
     ValueTable_write_insert_plan (table_values c ! m) key cval w1 z = Inr (a, u, w2) \<and>
     IndexTable_write_insert_plan (table_index c) key (Address_new a (of_nat m)) (Some i) w2 = Inr (Written, w') \<and>
     column_rep cd (set_value (set_value c n t) m u) w' S' (M(key \<mapsto> new_stored key cval z)) \<and>
     col_step c w (set_value (set_value c n t) m u) w'"
proof -
  let ?vs = "table_values c" and ?t = "table_index c" and ?L = "column_lookups c w"
  note r = column_repD [OF rep] and bits = it_ok_bits [OF r(2)] and ht = hit_table [OF h]
  have key: "length key = KEY_LEN" and val: "length val < LZ4_MAX_INPUT_SIZE" using ready by (simp_all add: column_ready_def)
  have tier: "n < length ?vs" "S n (Address_offset b) = Some v0" using ht n by simp_all
  obtain t w1 where p1: "ValueTable_write_remove_plan (?vs ! n) (Address_offset b) w = Inr (t, w1)"
      "value_write (?vs ! n) w t w1 ((S n)(Address_offset b := None))"
    by (rule remove_write [OF tables_rep_at(1) [OF r(1) tier(1)] tier(2)])
  note d1 = value_writeD [OF p1(2)]
  define S1 where "S1 = S(n := (S n)(Address_offset b := None))"
  define c1 where "c1 = set_value c n t"
  have rep1: "tables_rep (table_values c1) w1 S1" unfolding S1_def c1_def set_value_simps
    by (rule tables_rep_update [OF r(1) tier(1) d1(1-4)]) (auto split: if_splits)
  have at: "table_values c1 ! m = ?vs ! m" "m < length (table_values c1)" "S1 m = S m" using m by (simp_all add: c1_def S1_def)
  have small: "length cval < LZ4_MAX_INPUT_SIZE" using val fit(2) by linarith
  obtain a u w2 where p2: "ValueTable_write_insert_plan (?vs ! m) key cval w1 z = Inr (a, u, w2)"
      "value_write (?vs ! m) w1 u w2 ((S1 m)(a \<mapsto> new_stored key cval z))" "a \<noteq> 0" "S1 m a = None"
      "unat a \<le> unat (vt_filled (?vs ! m))" "writer_stored w2 (vt_id (?vs ! m)) a \<noteq> None"
    by (rule insert_write [OF tables_rep_at(1) [OF rep1 at(2), unfolded at(1)] key fit(1) ready_small [OF ready bits m(1)] small])
  note d2 = value_writeD [OF p2(2)] and f = ready_filled [OF ready bits m(1) p2(3,5)]
  have ok: "it_ok ?t (LogWriter_query w1)" "it_ok ?t (LogWriter_query w2)" using r(2) d1(6) d2(6) by simp_all
  have L2: "column_lookups c w2 = ?L" using d1(5) d2(5) by simp
  have old: "column_lookups c w2 key i = Some b" using h by (simp add: L2 hit_def)
  obtain w' where w': "IndexTable_write_insert_plan ?t key (Address_new a (of_nat m)) (Some i) w2 = Inr (Written, w')"
      "it_ok ?t (LogWriter_query w')" "index_frame (it_id ?t) w2 w'"
      "\<And>k. column_lookups c w' k = (if same_bucket ?t key k then (?L key)(i \<mapsto> Address_new a (of_nat m)) else ?L k)"
    using plan_replace [OF ok(2) f(2) old] unfolding L2 by blast
  define L1 where "L1 = (\<lambda>k. if bucket ?t key k then (?L key)(i := None) else ?L k)"
  have up: "bkt.updates ?t ?L key i None L1" unfolding bkt.updates_def by (simp add: L1_def)
  have self: "bucket ?t key key" using bkt.same_refl .
  have L1k: "L1 key = (?L key)(i := None)" using self by (simp add: L1_def)
  have L': "bkt.updates ?t L1 key i (Some (Address_new a (of_nat m))) (column_lookups c w')"
    unfolding bkt.updates_def by (simp add: w'(4) L1k r(8) [symmetric]) (simp add: L1_def)
  note s = bkt.sound_remove [OF r(5) key h bucket_lookups [OF r(2)] up]
  have st: "stores (table_values c1) S1 = (stores ?vs S)(b := None)"
    using stores_at [OF ht(1)] r(1) n stores_same [of "table_values c1" ?vs] by (simp add: S1_def c1_def tables_rep_def)
  have "column_rep cd (set_value c1 m u) w' (S1(m := (S1 m)(a \<mapsto> new_stored key cval z))) ((M(key := None))(key \<mapsto> new_stored key cval z))"
  proof (rule column_insert [OF rep1 _ _ _ _ _ _ key _ _ _ at(2) p2(4) f(1) _ _ _ _ _ _ , where L = L1 and i = i and ?w1.0 = w2])
    show "it_ok (table_index c1) (LogWriter_query w1)" "rx_queue (col_reindex c1) = []"
      "it_ok (table_index c1) (LogWriter_query w')" "index_frame (it_id (table_index c1)) w2 w'"
      using ok(1) r(3) w'(2,3) by (simp_all add: c1_def)
    show "vt_ref_counted (table_values c1 ! j) = col_ref_counted c1" if "j < length (table_values c1)" for j
      using counted_update [OF r(4) d1(1) tier(1)] that by (simp add: c1_def)
    show "sound (bucket (table_index c1)) L1 (stores (table_values c1) S1)" "holds L1 (stores (table_values c1) S1) (M(key := None))"
      "\<not> hit L1 (stores (table_values c1) S1) key j e x" "L1 key i = None" for j e x
      unfolding st using s(1) s(2) [OF _ r(6)] s(3,4) by (simp_all add: c1_def)
    show "\<exists>x. plain cd (col_compression c1) v = Inr x" if "length k = KEY_LEN" "(M(key := None)) k = Some v" for k v
      using r(7) [OF that(1), of v] that(2) by (auto simp: c1_def split: if_splits)
    show "L1 k = L1 key" if "bucket (table_index c1) key k" for k using that self by (simp add: L1_def c1_def)
    show "value_write (table_values c1 ! m) w1 u w2 ((S1 m)(a \<mapsto> new_stored key cval z))"
      "writer_stored w2 (vt_id (table_values c1 ! m)) a \<noteq> None" using p2 by (simp_all add: at)
    show "st_key (new_stored key cval z) = partial_key key" by (simp add: new_stored_def)
    show "plain cd (col_compression c1) (new_stored key cval z) = Inr val" using gives by (simp add: c1_def)
    show "bkt.updates (table_index c1) L1 key i (Some (Address_new a (of_nat m))) (column_lookups c1 w')"
      using L' by (simp add: c1_def)
  qed
  moreover have "col_step c w (set_value c1 m u) w'"
  proof (rule col_step_trans)
    show "col_step c w c1 w1" unfolding c1_def by (rule col_step_value [OF p1(2) tier(1)])
    show "col_step c1 w1 (set_value c1 m u) w'"
      by (rule col_step_trans [OF col_step_value col_step_index])
         (use p2(2) at w'(3) index_insert_grows [OF w'(1)] in \<open>simp_all add: c1_def\<close>)
  qed
  ultimately show ?thesis using p1(1) p2(1) w'(1) unfolding c1_def by auto
qed

lemma plain_rc [simp]: "plain cd cm (v\<lparr>st_rc := n\<rparr>) = plain cd cm v"
  by (simp add: plain_def)

lemma write_over_rep:
  assumes cd: "codecs_ok cd" and rep: "column_rep cd c w S M" and ready: "column_ready c w key val"
    and h: "hit (column_lookups c w) (stores (table_values c) S) key i b v0"
    and put: "\<not> col_ref_counted c" "\<not> col_preimage c"
  shows "\<exists>c' w' S' v. write_existing cd c key val (table_index c, i, Address_size_tier b, b) w = Inr (Written, c', w') \<and>
     column_rep cd c' w' S' (M(key \<mapsto> v)) \<and> col_step c w c' w' \<and>
     st_rc v = 1 \<and> plain cd (col_compression c) v = Inr val"
proof -
  let ?vs = "table_values c" and ?n = "unat (Address_size_tier b)" and ?o = "Address_offset b"
  note r = column_repD [OF rep] and bits = it_ok_bits [OF r(2)] and ht = hit_table [OF h]
  have key: "length key = KEY_LEN" and val: "length val < LZ4_MAX_INPUT_SIZE" using ready by (simp_all add: column_ready_def)
  have v0: "st_key v0 = partial_key key" "M key = Some v0"
    using h holdsD [OF r(6) key, of v0] by (auto simp: hit_def)
  obtain x where x: "plain cd (col_compression c) v0 = Inr x" using r(7) [OF key v0(2)] by blast
  note rt = tables_rep_at(1) [OF r(1) ht(1)]
  have at: "value_at ?vs ?n = Inr (?vs ! ?n)" using ht(1) by (simp add: value_at_def)
  obtain cval m where c: "Column_compress cd c key val = Inr (cval, m)" "m < length ?vs"
      "fits (?vs ! m) (fst (packed val cval))" "length (fst (packed val cval)) \<le> length val"
      "plain cd (col_compression c) (new_stored key (fst (packed val cval)) (snd (packed val cval))) = Inr val"
    by (rule column_compress [OF cd val r(1)])
  let ?v = "fst (packed val cval)" and ?z = "snd (packed val cval)"
  obtain k l where sz: "stored_sizes cd c (?vs ! ?n) key ?o (LogWriter_query w) = Inr (k, l)"
    using stored_sizes_ok [OF rt ht(2) v0(1) x] by blast
  define f where "f = (\<lambda>s. ColumnStats_replace_val s k l (of_nat (length val)) (of_nat (length ?v)))"
  have we: "write_existing cd c key val (table_index c, i, Address_size_tier b, b) w =
      (if ?n = m then and_then (ValueTable_write_replace_plan (?vs ! ?n) ?o key ?v w ?z) (\<lambda>(t, lg).
           Inr (Written, set_value (set_stats c f) m t, lg))
       else and_then (ValueTable_write_remove_plan (?vs ! ?n) ?o w) (\<lambda>(t, lg).
         and_then (value_at ((?vs)[?n := t]) m) (\<lambda>tt.
         and_then (ValueTable_write_insert_plan tt key ?v lg ?z) (\<lambda>(a, u, lg).
         and_then (IndexTable_write_insert_plan (table_index c) key (Address_new a (of_nat m)) (Some i) lg)
           (\<lambda>(outcome, lg). Inr (outcome, set_value (set_value (set_stats c f) ?n t) m u, lg))))))"
    using put at c(1) sz
    by (cases cval; cases "col_collect_stats c") (simp_all add: write_existing_def packed_def Let_def set_stats_def f_def)
  show ?thesis
  proof (cases "?n = m")
    case True
    have small: "length ?v < LZ4_MAX_INPUT_SIZE" using val c(4) by linarith
    obtain t w' where w': "ValueTable_write_replace_plan (?vs ! ?n) ?o key ?v w ?z = Inr (t, w')"
        "value_write (?vs ! ?n) w t w' ((S ?n)(?o \<mapsto> new_stored key ?v ?z))"
      by (rule replace_write [OF rt key _ ready_small [OF ready bits ht(1)] small ht(2)]) (use c(3) True in simp)
    have "column_rep cd (set_value c ?n t) w' (S(?n := (S ?n)(?o \<mapsto> new_stored key ?v ?z))) (M(key \<mapsto> new_stored key ?v ?z))"
      by (rule column_change [OF rep key h refl w'(2) _ c(5)]) (simp add: new_stored_def)
    then show ?thesis
      using True w'(1) we put c(5) col_step_value [OF w'(2) ht(1)]
      by (intro exI [of _ "set_value (set_stats c f) m t"] exI [of _ w'] exI [of _ "S(?n := (S ?n)(?o \<mapsto> new_stored key ?v ?z))"]
          exI [of _ "new_stored key ?v ?z"]) (simp add: new_stored_def)
  next
    case False
    obtain t w1 a u w2 w' S' where p: "ValueTable_write_remove_plan (?vs ! ?n) ?o w = Inr (t, w1)"
        "ValueTable_write_insert_plan (?vs ! m) key ?v w1 ?z = Inr (a, u, w2)"
        "IndexTable_write_insert_plan (table_index c) key (Address_new a (of_nat m)) (Some i) w2 = Inr (Written, w')"
        "column_rep cd (set_value (set_value c ?n t) m u) w' S' (M(key \<mapsto> new_stored key ?v ?z))"
        "col_step c w (set_value (set_value c ?n t) m u) w'"
      using move_value [OF cd rep ready h refl c(2) _ c(3-5)] False by blast
    have "column_rep cd (set_value (set_value (set_stats c f) ?n t) m u) w' S' (M(key \<mapsto> new_stored key ?v ?z))"
      using p(4) by (simp add: column_rep_def)
    then show ?thesis
      using False p(1-3,5) we put c(2,5)
      by (intro exI [of _ "set_value (set_value (set_stats c f) ?n t) m u"] exI [of _ w'] exI [of _ S']
          exI [of _ "new_stored key ?v ?z"]) (simp add: value_at_def new_stored_def)
  qed
qed

lemma write_existing_rep:
  assumes cd: "codecs_ok cd" and rep: "column_rep cd c w S M" and ready: "column_ready c w key val"
    and h: "hit (column_lookups c w) (stores (table_values c) S) key i b v0"
  shows "\<exists>r c' w' S' v. write_existing cd c key val (table_index c, i, Address_size_tier b, b) w = Inr (r, c', w') \<and>
     r \<noteq> NeedReindex \<and> column_rep cd c' w' S' (M(key \<mapsto> v)) \<and> col_step c w c' w' \<and>
     (if col_ref_counted c then v = v0\<lparr>st_rc := count_up (st_rc v0)\<rparr>
      else if col_preimage c then v = v0
      else st_rc v = 1 \<and> plain cd (col_compression c) v = Inr val)"
proof -
  let ?vs = "table_values c" and ?n = "unat (Address_size_tier b)" and ?o = "Address_offset b"
  note r = column_repD [OF rep] and bits = it_ok_bits [OF r(2)] and ht = hit_table [OF h]
  have key: "length key = KEY_LEN" and val: "length val < LZ4_MAX_INPUT_SIZE" using ready by (simp_all add: column_ready_def)
  have v0: "st_key v0 = partial_key key" "M key = Some v0"
    using h holdsD [OF r(6) key, of v0] by (auto simp: hit_def)
  obtain x where x: "plain cd (col_compression c) v0 = Inr x" using r(7) [OF key v0(2)] by blast
  note rt = tables_rep_at(1) [OF r(1) ht(1)]
  have at: "value_at ?vs ?n = Inr (?vs ! ?n)" using ht(1) by (simp add: value_at_def)
  consider (inc) "col_ref_counted c" | (skip) "\<not> col_ref_counted c" "col_preimage c"
    | (put) "\<not> col_ref_counted c" "\<not> col_preimage c" by blast
  then show ?thesis
  proof cases
    case inc
    obtain w' where w': "ValueTable_write_inc_ref (?vs ! ?n) ?o w = Inr w'"
        "value_write (?vs ! ?n) w (?vs ! ?n) w' ((S ?n)(?o \<mapsto> v0\<lparr>st_rc := count_up (st_rc v0)\<rparr>))"
      by (rule inc_ref_write [OF rt _ ht(2)]) (use inc r(4) [OF ht(1)] in simp)
    have "column_rep cd (set_value c ?n (?vs ! ?n)) w' (S(?n := (S ?n)(?o \<mapsto> v0\<lparr>st_rc := count_up (st_rc v0)\<rparr>)))
        (M(key \<mapsto> v0\<lparr>st_rc := count_up (st_rc v0)\<rparr>))"
      by (rule column_change [OF rep key h refl w'(2), where x = x]) (use v0 x in simp_all)
    moreover have "set_value c ?n (?vs ! ?n) = c" by (simp add: set_value_def)
    ultimately show ?thesis
      using inc w'(1) at col_step_value [OF w'(2) ht(1)] by (intro exI [of _ Written] exI [of _ c] exI [of _ w']) (auto simp: write_existing_def)
  next
    case skip
    then show ?thesis
      using at rep v0(2) by (intro exI [of _ Skipped] exI [of _ c] exI [of _ w] exI [of _ S] exI [of _ v0])
        (simp add: write_existing_def fun_upd_idem)
  next
    case put
    then obtain c' w' S' v where "write_existing cd c key val (table_index c, i, Address_size_tier b, b) w = Inr (Written, c', w')"
        "column_rep cd c' w' S' (M(key \<mapsto> v))" "col_step c w c' w'" "st_rc v = 1" "plain cd (col_compression c) v = Inr val"
      using write_over_rep [OF cd rep ready h] by blast
    with put show ?thesis
      by (intro exI [of _ Written] exI [of _ c'] exI [of _ w'] exI [of _ S'] exI [of _ v]) simp
  qed
qed

section \<open>Removing a value\<close>

lemma write_removal_rep:
  assumes rep: "column_rep cd c w S M" and key: "length key = KEY_LEN"
    and h: "hit (column_lookups c w) (stores (table_values c) S) key i b v0"
  shows "\<exists>c' w' S'. write_removal cd c key (table_index c, i, Address_size_tier b, b) w = Inr (Written, c', w') \<and>
     column_rep cd c' w' S' (M(key := if col_ref_counted c \<and> st_rc v0 \<noteq> 1
       then Some (v0\<lparr>st_rc := count_down (st_rc v0)\<rparr>) else None)) \<and> col_step c w c' w'"
proof -
  let ?vs = "table_values c" and ?n = "unat (Address_size_tier b)" and ?o = "Address_offset b"
  let ?gone = "\<not> (col_ref_counted c \<and> st_rc v0 \<noteq> 1)" and ?v = "v0\<lparr>st_rc := count_down (st_rc v0)\<rparr>"
  note r = column_repD [OF rep] and ht = hit_table [OF h]
  have v0: "st_key v0 = partial_key key" "M key = Some v0"
    using h holdsD [OF r(6) key, of v0] by (auto simp: hit_def)
  obtain x where x: "plain cd (col_compression c) v0 = Inr x" using r(7) [OF key v0(2)] by blast
  note rt = tables_rep_at(1) [OF r(1) ht(1)]
  have at: "value_at ?vs ?n = Inr (?vs ! ?n)" using ht(1) by (simp add: value_at_def)
  obtain k l where sz: "stored_sizes cd c (?vs ! ?n) key ?o (LogWriter_query w) = Inr (k, l)"
    using stored_sizes_ok [OF rt ht(2) v0(1) x] by blast
  obtain t w1 where p: "if col_ref_counted c then ValueTable_write_dec_ref (?vs ! ?n) ?o w = Inr (st_rc v0 \<noteq> 1, t, w1)
      else ValueTable_write_remove_plan (?vs ! ?n) ?o w = Inr (t, w1)"
      "value_write (?vs ! ?n) w t w1 ((S ?n)(?o := if ?gone then None else Some ?v))"
  proof (cases "col_ref_counted c")
    case True
    obtain t w1 where "ValueTable_write_dec_ref (?vs ! ?n) ?o w = Inr (st_rc v0 \<noteq> 1, t, w1)"
        "value_write (?vs ! ?n) w t w1 ((S ?n)(?o := if st_rc v0 = 1 then None else Some ?v))"
      by (rule dec_ref_write [OF rt _ ht(2)]) (use True r(4) [OF ht(1)] in simp)
    then show thesis using that [of t w1] True by (simp split: if_splits)
  next
    case False
    then show thesis by (rule_tac remove_write [OF rt ht(2)]) (auto intro: that)
  qed
  define c1 where "c1 = (if col_collect_stats c \<and> ?gone
    then (set_value c ?n t)\<lparr>col_stats := ColumnStats_remove_val (col_stats c) l k\<rparr> else set_value c ?n t)"
  have c1: "column_rep cd c1 = column_rep cd (set_value c ?n t)" "col_step c w c1 w1"
    using col_step_value [OF p(2) ht(1)] by (auto simp: c1_def intro!: ext)
  have wr: "write_removal cd c key (table_index c, i, Address_size_tier b, b) w =
      (if ?gone then and_then (IndexTable_write_remove_plan (table_index c) key i w1) (\<lambda>(_, lg). Inr (Written, c1, lg))
       else Inr (Written, c1, w1))"
    using at p(1) sz
    by (cases "col_ref_counted c"; cases "col_collect_stats c"; cases "st_rc v0 = 1")
       (simp_all add: write_removal_def c1_def Let_def)
  show ?thesis
  proof (cases ?gone)
    case True
    then obtain w' where w': "IndexTable_write_remove_plan (table_index c) key i w1 = Inr (Written, w')"
        "index_frame (it_id (table_index c)) w1 w'" "column_rep cd c1 w' (S(?n := (S ?n)(?o := None))) (M(key := None))"
      using column_remove [OF rep key h refl] p(2) c1(1) by auto
    have "table_index c1 = table_index c" by (simp add: c1_def)
    then have "col_step c w c1 w'"
      using col_step_trans [OF c1(2) col_step_index] w'(2) index_remove_grows [OF w'(1)] by simp
    then show ?thesis using True wr w'(1,3) by auto
  next
    case False
    then have "column_rep cd c1 w1 (S(?n := (S ?n)(?o \<mapsto> ?v))) (M(key \<mapsto> ?v))"
      using column_change [OF rep key h refl, of t w1 ?v x] p(2) v0(1) x c1(1) by simp
    then show ?thesis using False wr c1(2) by auto
  qed
qed

section \<open>The column as a map\<close>

text \<open>
  What a column promises: for every key a value with its counter. Writing a stored key again counts it up in
  a ref-counted column and does nothing in a preimage column; removing counts down and takes the value out
  when the last reference goes.
\<close>

type_synonym column_map = "Key \<Rightarrow> (u32 \<times> bytes) option"

definition column_update :: "bool \<Rightarrow> bool \<Rightarrow> Key \<Rightarrow> bytes option \<Rightarrow> column_map \<Rightarrow> column_map" where
  "column_update counted preimage key val m = m(key :=
     (case (val, m key) of
        (Some v, None) \<Rightarrow> Some (1, v)
      | (Some v, Some (n, old)) \<Rightarrow>
          if counted then Some (count_up n, old) else if preimage then Some (n, old) else Some (1, v)
      | (None, Some (n, old)) \<Rightarrow> if counted \<and> n \<noteq> 1 then Some (count_down n, old) else None
      | (None, None) \<Rightarrow> None))"

definition stored_view :: "Codecs \<Rightarrow> Compress \<Rightarrow> Stored option \<Rightarrow> (u32 \<times> bytes) option" where
  "stored_view cd cm = map_option (\<lambda>v. (st_rc v, projr (plain cd cm v)))"

definition column_holds :: "Codecs \<Rightarrow> Column \<Rightarrow> LogWriter \<Rightarrow> column_map \<Rightarrow> bool" where
  "column_holds cd c w m \<longleftrightarrow>
     (\<exists>S M. column_rep cd c w S M \<and> (\<forall>k. length k = KEY_LEN \<longrightarrow> m k = stored_view cd (col_compression c) (M k)))"

definition write_ready :: "Column \<Rightarrow> LogWriter \<Rightarrow> Key \<Rightarrow> bytes option \<Rightarrow> column_map \<Rightarrow> bool" where
  "write_ready c w key val m \<longleftrightarrow>
     length key = KEY_LEN \<and>
     (case val of
        None \<Rightarrow> True
      | Some v \<Rightarrow> column_ready c w key v \<and>
          (m key = None \<longrightarrow> \<not> chunk_full (table_index c) (LogWriter_query w) key))"

lemma column_holdsI:
  assumes "column_rep cd c w S (M(key := x))" and "length key = KEY_LEN"
    and "\<And>k. length k = KEY_LEN \<Longrightarrow> m k = stored_view cd (col_compression c) (M k)"
    and "m' = m(key := stored_view cd (col_compression c) x)"
  shows "column_holds cd c w m'"
  unfolding column_holds_def using assms by (intro exI [of _ S] exI [of _ "M(key := x)"]) simp

lemma write_plan_start: "Column_write_plan cd c key val w = write_plan_loop (Suc 255) cd c key val w"
  by (simp only: Column_write_plan_def reindex_limit_def) simp

lemma write_plan_absent:
  assumes cd: "codecs_ok cd" and rep: "column_rep cd c w S M"
    and m: "\<And>k. length k = KEY_LEN \<Longrightarrow> m k = stored_view cd (col_compression c) (M k)"
    and ready: "write_ready c w key val m" and none: "M key = None"
  shows "\<exists>r c' w'. Column_write_plan cd c key val w = Inr (r, c', w') \<and> r \<noteq> NeedReindex \<and>
     column_holds cd c' w' (column_update (col_ref_counted c) (col_preimage c) key val m) \<and> col_step c w c' w'"
proof -
  let ?upd = "column_update (col_ref_counted c) (col_preimage c) key val m"
  have key: "length key = KEY_LEN" using ready by (simp add: write_ready_def)
  note plan = write_plan_start [of cd c key val w]
  have find: "Column_search_all_indexes key (col_tables c) (col_reindex c) w = Inr None" using column_search [OF rep key] none by simp
  have mk: "m key = None" using m [OF key] none by (simp add: stored_view_def)
  show ?thesis
  proof (cases val)
    case (Some v)
    have rd: "column_ready c w key v" "\<not> chunk_full (table_index c) (LogWriter_query w) key"
      using ready mk by (simp_all add: write_ready_def Some)
    obtain n c' w' S' v' where p: "write_new cd c key v w = Inr (Written, n, c', w')"
        "column_rep cd c' w' S' (M(key \<mapsto> v'))" "col_step c w c' w'" "st_rc v' = 1" "plain cd (col_compression c) v' = Inr v"
      using write_new_rep [OF cd rep rd none] by blast
    have cm: "col_compression c' = col_compression c" using p(3) by (simp add: col_step_def)
    have "column_holds cd c' w' ?upd"
      by (rule column_holdsI [OF p(2) key, where m = m])
         (simp_all add: cm m column_update_def mk Some stored_view_def p(4,5))
    then show ?thesis
      using p(1,3) unfolding plan write_plan_loop.simps by (simp add: Some find column_holds_def)
  next
    case None
    have "?upd = m" by (simp add: column_update_def mk None fun_upd_idem)
    moreover have "column_holds cd c w m" using rep m by (auto simp: column_holds_def)
    ultimately show ?thesis unfolding plan write_plan_loop.simps by (simp add: None find column_holds_def)
  qed
qed

lemma write_plan_present:
  assumes cd: "codecs_ok cd" and rep: "column_rep cd c w S M"
    and m: "\<And>k. length k = KEY_LEN \<Longrightarrow> m k = stored_view cd (col_compression c) (M k)"
    and ready: "write_ready c w key val m" and some: "M key = Some v0"
  shows "\<exists>r c' w'. Column_write_plan cd c key val w = Inr (r, c', w') \<and> r \<noteq> NeedReindex \<and>
     column_holds cd c' w' (column_update (col_ref_counted c) (col_preimage c) key val m) \<and> col_step c w c' w'"
proof -
  let ?upd = "column_update (col_ref_counted c) (col_preimage c) key val m"
  have key: "length key = KEY_LEN" using ready by (simp add: write_ready_def)
  note plan = write_plan_start [of cd c key val w]
  obtain i a where find: "Column_search_all_indexes key (col_tables c) (col_reindex c) w =
        Inr (Some (table_index c, i, Address_size_tier a, a))"
      and h: "hit (column_lookups c w) (stores (table_values c) S) key i a v0"
    using column_search [OF rep key] some by auto
  have mk: "m key = Some (st_rc v0, projr (plain cd (col_compression c) v0))"
    using m [OF key] some by (simp add: stored_view_def)
  show ?thesis
  proof (cases val)
    case v: (Some v)
    have rd: "column_ready c w key v" using ready by (simp add: write_ready_def v)
    obtain r c' w' S' v' where p: "write_existing cd c key v (table_index c, i, Address_size_tier a, a) w = Inr (r, c', w')"
        "r \<noteq> NeedReindex" "column_rep cd c' w' S' (M(key \<mapsto> v'))" "col_step c w c' w'"
        "if col_ref_counted c then v' = v0\<lparr>st_rc := count_up (st_rc v0)\<rparr>
         else if col_preimage c then v' = v0 else st_rc v' = 1 \<and> plain cd (col_compression c) v' = Inr v"
      using write_existing_rep [OF cd rep rd h] by blast
    have cm: "col_compression c' = col_compression c" using p(4) by (simp add: col_step_def)
    have "column_holds cd c' w' ?upd"
      by (rule column_holdsI [OF p(3) key, where m = m])
         (use p(5) in \<open>auto simp: cm m column_update_def mk v stored_view_def split: if_splits\<close>)
    then show ?thesis using p(1,2,4) unfolding plan write_plan_loop.simps by (simp add: v find)
  next
    case none: None
    obtain c' w' S' where p: "write_removal cd c key (table_index c, i, Address_size_tier a, a) w = Inr (Written, c', w')"
        "column_rep cd c' w' S' (M(key := if col_ref_counted c \<and> st_rc v0 \<noteq> 1
           then Some (v0\<lparr>st_rc := count_down (st_rc v0)\<rparr>) else None))" "col_step c w c' w'"
      using write_removal_rep [OF rep key h] by blast
    have cm: "col_compression c' = col_compression c" using p(3) by (simp add: col_step_def)
    have "column_holds cd c' w' ?upd"
      by (rule column_holdsI [OF p(2) key, where m = m]) (simp_all add: cm m column_update_def mk none stored_view_def)
    then show ?thesis using p(1,3) unfolding plan write_plan_loop.simps by (simp add: none find)
  qed
qed

lemma write_plan_holds:
  assumes cd: "codecs_ok cd" and rep: "column_holds cd c w m" and ready: "write_ready c w key val m"
  shows "\<exists>r c' w'. Column_write_plan cd c key val w = Inr (r, c', w') \<and> r \<noteq> NeedReindex \<and>
     column_holds cd c' w' (column_update (col_ref_counted c) (col_preimage c) key val m) \<and> col_step c w c' w'"
proof -
  obtain S M where rep: "column_rep cd c w S M"
    and m: "\<And>k. length k = KEY_LEN \<Longrightarrow> m k = stored_view cd (col_compression c) (M k)"
    using rep unfolding column_holds_def by blast
  show ?thesis
    using write_plan_absent [OF cd rep _ ready] write_plan_present [OF cd rep _ ready] m by (cases "M key") blast+
qed

lemma get_holds:
  assumes "column_holds cd c w m" and "length key = KEY_LEN"
  shows "\<exists>c'. Column_get cd c key (LogWriter_query w) = Inr (map_option snd (m key), c') \<and>
     col_tables c' = col_tables c \<and> (\<not> col_collect_stats c \<longrightarrow> c' = c)"
proof -
  obtain S M where "column_rep cd c w S M" "m key = stored_view cd (col_compression c) (M key)"
    using assms unfolding column_holds_def by blast
  then show ?thesis
    using column_get_rep [of cd c w S M key] assms(2) by (simp add: stored_view_def option.map_comp comp_def)
qed

section \<open>A sample column\<close>

text \<open>A column with a table of 64 byte slots and one for longer values.\<close>

definition sample_col :: Column where
  "sample_col = \<lparr>col_tables = \<lparr>tb_index = sample_index,
       tb_value = [sample_single\<lparr>vt_ref_counted := False\<rparr>, sample_multi\<lparr>vt_id := VTableId 1\<rparr>]\<rparr>,
     col_reindex = \<lparr>rx_queue = [], rx_progress = 0\<rparr>, col_path = ''db'', col_preimage = False, col_uniform_keys = True,
     col_collect_stats = False, col_ref_counted = False, col_salt = replicate 32 0, col_stats = ColumnStats_empty,
     col_compression = Compress_new Lz4 100, col_db_version = 5, col_disk = (\<lambda>_. None)\<rparr>"

lemma empty_column:
  assumes "\<And>t. t \<in> set (table_values c) \<Longrightarrow> vt_ok t \<and> vt_filled t = 1 \<and> vt_last_removed t = 0 \<and> vt_ref_counted t = col_ref_counted c"
    and "table_values c \<noteq> []" "length (table_values c) \<le> 256" "distinct (map vt_id (table_values c))"
      "vt_multipart (last (table_values c))"
    and "it_ok (table_index c) (LogWriter_query w)" "it_map (table_index c) = None"
      "\<And>ci. q_with_index (LogWriter_query w) (it_id (table_index c)) ci = None" "rx_queue (col_reindex c) = []"
    and "\<And>u i. writer_stored w u i = None"
  shows "column_holds cd c w Map.empty"
proof -
  have L: "lookups (table_index c) (LogWriter_query w) k i = None" for k i
    using assms(7,8) by (simp add: lookups_def chunk_view_def)
  have "column_rep cd c w (\<lambda>_. Map.empty) Map.empty"
    using assms by (auto simp: column_rep_def tables_rep_def empty_represents L
        intro!: soundI holdsI simp: hit_def)
  then show ?thesis unfolding column_holds_def by (auto simp: stored_view_def)
qed

lemma fresh_stored [simp]: "writer_stored fresh_writer u i = None"
  by (simp add: fresh_writer_def)

lemma sample_col_holds: "column_holds cd sample_col fresh_writer Map.empty"
  by (rule empty_column)
     (auto simp: sample_col_def vt_ok_def sample_single_def sample_multi_def)

lemma sample_col_ready: "length v < 10000 \<Longrightarrow> write_ready sample_col fresh_writer sample_hash (Some v) m"
  by (simp add: write_ready_def column_ready_def sample_col_def sample_single_def sample_multi_def sample_hash_def
      KEY_LEN_def LZ4_MAX_INPUT_SIZE_def)

section \<open>Properties\<close>

text \<open>
  C2: a column acts as a map from keys to values with reference counters. Writing or removing a value
  succeeds and changes exactly the key, as the kind of the column says: a new value, compressed or not and
  in whatever table it fits, replaces the old one; in a ref-counted column it counts the stored one up, in
  a preimage column it is skipped; a removal counts down or takes the value out. Reading any key afterwards
  returns what the map holds.
\<close>

theorem column_write_refines:
  assumes "codecs_ok cd" and "column_holds cd c w m" and "write_ready c w key val m"
  shows "\<exists>r c' w'. Column_write_plan cd c key val w = Inr (r, c', w') \<and>
     column_holds cd c' w' (column_update (col_ref_counted c) (col_preimage c) key val m) \<and>
     (\<forall>k. length k = KEY_LEN \<longrightarrow> (\<exists>c''. Column_get cd c' k (LogWriter_query w') =
        Inr (map_option snd (column_update (col_ref_counted c) (col_preimage c) key val m k), c'')))"
  using write_plan_holds [OF assms] get_holds by blast

theorem column_write_refines_witness:
  "\<exists>r c' w' c''. Column_write_plan zero_codecs sample_col sample_hash (Some sample_long) fresh_writer = Inr (r, c', w') \<and>
     Column_get zero_codecs c' sample_hash (LogWriter_query w') = Inr (Some sample_long, c'')"
proof -
  have "length sample_hash = KEY_LEN" by (simp add: sample_hash_def KEY_LEN_def)
  then show ?thesis
    using column_write_refines [OF zero_codecs_ok sample_col_holds sample_col_ready, of sample_long]
    by (auto simp: column_update_def dest!: spec [of _ sample_hash])
qed

end
