(* ===== verification/Db_Commits.thy ===== *)
theory Db_Commits
  imports Column_Correct Db_Correct Value_Enact
begin

text \<open>
  The database over its columns. Logging a commit performs its operations one after the other on the maps the
  columns hold, and publishing the record makes them visible; since the commit overlay showed the same values
  before, a reader does not notice when a commit moves from the queue to the log.
\<close>

section \<open>Columns and the record\<close>

lemma index_view_frame:
  assumes "LogWriter_with_index w' (it_id t) = LogWriter_with_index w (it_id t)"
  shows "lookups t (LogWriter_query w') = lookups t (LogWriter_query w)"
    and "it_ok t (LogWriter_query w') = it_ok t (LogWriter_query w)"
    and "chunk_full t (LogWriter_query w') = chunk_full t (LogWriter_query w)"
proof -
  have q: "q_with_index (LogWriter_query w') (it_id t) = q_with_index (LogWriter_query w) (it_id t)"
    using assms by (simp add: LogWriter_query_def)
  then have v: "chunk_view t (LogWriter_query w') = chunk_view t (LogWriter_query w)"
    by (intro ext) (simp add: chunk_view_def)
  show "lookups t (LogWriter_query w') = lookups t (LogWriter_query w)" by (intro ext) (simp add: lookups_def v)
  show "it_ok t (LogWriter_query w') = it_ok t (LogWriter_query w)" by (simp add: it_ok_def q)
  show "chunk_full t (LogWriter_query w') = chunk_full t (LogWriter_query w)" by (rule ext) (simp add: chunk_full_def v)
qed

lemma column_holds_frame:
  assumes "column_holds cd c w m"
    and "\<And>u. u \<in> vt_id ` set (table_values c) \<Longrightarrow> writer_stored w' u = writer_stored w u"
    and "LogWriter_with_index w' (it_id (table_index c)) = LogWriter_with_index w (it_id (table_index c))"
  shows "column_holds cd c w' m"
proof -
  obtain S M where rep: "column_rep cd c w S M"
    and m: "\<And>k. length k = KEY_LEN \<Longrightarrow> m k = stored_view cd (col_compression c) (M k)"
    using assms(1) unfolding column_holds_def by blast
  have st: "writer_stored w' (vt_id (table_values c ! i)) = writer_stored w (vt_id (table_values c ! i))"
    if "i < length (table_values c)" for i using that by (intro assms(2)) simp
  have "tables_rep (table_values c) w' S"
    using column_repD(1) [OF rep] st by (simp add: tables_rep_def represents_def pages_ok_def readable_def)
  then have "column_rep cd c w' S M"
    using rep index_view_frame [OF assms(3)] unfolding column_rep_def by simp
  then show ?thesis using m unfolding column_holds_def by blast
qed

section \<open>Header pages\<close>

text \<open>\<open>complete_plan\<close> adds the headers of the value tables to the record, which no slot uses.\<close>

definition header_step :: "LogWriter \<Rightarrow> LogWriter \<Rightarrow> bool" where
  "header_step w w' \<longleftrightarrow>
     grows w w' \<and> lw_overlays w' = lw_overlays w \<and> lc_record_id (lw_log w') = lc_record_id (lw_log w) \<and>
     LogWriter_with_index w' = LogWriter_with_index w \<and>
     (\<forall>u i. i \<noteq> 0 \<longrightarrow> writer_stored w' u i = writer_stored w u i) \<and>
     (\<forall>u d. writer_stored w' u 0 = Some d \<longrightarrow> writer_stored w u 0 = Some d \<or> length d = 16)"

lemma header_step_refl [simp, intro]: "header_step w w"
  by (simp add: header_step_def)

lemma header_step_trans: "header_step w w1 \<Longrightarrow> header_step w1 w2 \<Longrightarrow> header_step w w2"
proof -
  assume 1: "header_step w w1" and 2: "header_step w1 w2"
  have "grows w w2" using 1 2 grows_trans by (auto simp: header_step_def)
  moreover have "\<forall>u d. writer_stored w2 u 0 = Some d \<longrightarrow> writer_stored w u 0 = Some d \<or> length d = 16"
    using 1 2 unfolding header_step_def by blast
  ultimately show ?thesis using 1 2 by (simp add: header_step_def)
qed

lemma header_step_insert: "length d = 16 \<Longrightarrow> header_step w (LogWriter_insert_value w u 0 d)"
  using value_frame_insert [where tid = u and w = w and i = 0 and d = d] value_frame_index [OF value_frame_insert [where tid = u and w = w and i = 0 and d = d]]
  by (simp add: header_step_def value_frame_def writer_stored_insert_value)

lemma complete_table:
  "ValueTable_complete_plan t w = (t', w') \<Longrightarrow> t' = t\<lparr>vt_dirty_header := False\<rparr> \<and> header_step w w'"
  by (auto simp: ValueTable_complete_plan_def Let_def header_step_insert header_fields split: if_splits)

lemma complete_tables:
  "complete_plans ts w = (ts', w') \<Longrightarrow> ts' = map (\<lambda>t. t\<lparr>vt_dirty_header := False\<rparr>) ts \<and> header_step w w'"
proof (induction ts arbitrary: w ts' w')
  case (Cons t ts)
  obtain t1 w1 where 1: "ValueTable_complete_plan t w = (t1, w1)" by fastforce
  obtain ts1 w2 where 2: "complete_plans ts w1 = (ts1, w2)" by fastforce
  show ?case
    using Cons.prems Cons.IH [OF 2] complete_table [OF 1] header_step_trans [of w w1 w2] by (simp add: 1 2)
qed simp

lemma header_represents:
  assumes rep: "represents t w S" and h: "header_step w w'"
  shows "represents (t\<lparr>vt_dirty_header := False\<rparr>) w' S"
proof -
  let ?t = "t\<lparr>vt_dirty_header := False\<rparr>"
  obtain fs C where ok: "vt_ok t" and inv: "table_inv (W t w) t fs C" and S: "S = (\<lambda>a. map_option (cell_of t) (C a))"
    using rep unfolding represents_def by blast
  have same: "same_table t ?t" by (simp add: same_table_def)
  have view: "W ?t w' i = W t w i" if "i \<noteq> 0" for i
    unfolding same_table_W [OF same, of w'] using h that by (simp add: header_step_def view_def slot_bytes_def)
  have sp: "free_list (W t w) (vt_last_removed t) fs" "distinct fs" "set fs \<inter> used C = {}"
      "set fs \<union> used C = {i. 0 < i \<and> i < vt_filled t}" "0 < vt_filled t"
    using table_inv_space [OF inv] by (simp_all add: space_def)
  have pos: "x \<noteq> 0" if "x \<in> set fs \<union> used C" for x using that sp(4) by auto
  have "free_list (W ?t w') (vt_last_removed t) fs"
    using sp(1) free_list_cong [of fs "W ?t w'" "W t w"] view pos by auto
  moreover have "chain_at (W ?t w') ?t a x" if "C a = Some x" for a x
    using table_inv_chain [OF inv that] chain_at_cong [OF same, of x "W ?t w'" "W t w" a] used_mem [of C a x] that pos view
    by blast
  ultimately have "table_inv (W ?t w') ?t fs C"
    using sp table_inv_disjoint [OF inv] by (auto simp: table_inv_def space_def)
  moreover have "vt_ok ?t" using ok by (simp add: vt_ok_def)
  moreover have "pages_ok ?t w'"
    unfolding pages_ok_def page_ok_same [OF same]
  proof (intro allI impI)
    fix i d assume d: "writer_stored w' (vt_id ?t) i = Some d"
    have old: "writer_stored w (vt_id t) i = Some d \<Longrightarrow> page_ok t i d \<and> (i \<noteq> 0 \<longrightarrow> i < vt_filled t)"
      using rep by (simp add: represents_def pages_ok_def)
    show "page_ok t i d \<and> (i \<noteq> 0 \<longrightarrow> i < vt_filled ?t)"
    proof (cases "i = 0")
      case True
      then have "writer_stored w (vt_id t) i = Some d \<or> length d = 16" using d h by (simp add: header_step_def)
      then show ?thesis using old True by (auto simp: page_ok_def)
    next
      case False
      then show ?thesis using old d h by (simp add: header_step_def)
    qed
  qed
  ultimately show ?thesis using S cell_of_same [OF same] unfolding represents_def by metis
qed

definition completed :: "Column \<Rightarrow> Column" where
  "completed c = set_stats (c\<lparr>col_tables := (col_tables c)\<lparr>tb_value :=
     map (\<lambda>t. t\<lparr>vt_dirty_header := False\<rparr>) (table_values c)\<rparr>\<rparr>) ColumnStats_commit"

lemma completed_simps [simp]:
  "table_values (completed c) = map (\<lambda>t. t\<lparr>vt_dirty_header := False\<rparr>) (table_values c)"
  "table_index (completed c) = table_index c" "col_reindex (completed c) = col_reindex c"
  "col_ref_counted (completed c) = col_ref_counted c" "col_preimage (completed c) = col_preimage c"
  "col_compression (completed c) = col_compression c" "col_uniform_keys (completed c) = col_uniform_keys c"
  "col_salt (completed c) = col_salt c" "col_db_version (completed c) = col_db_version c"
  by (simp_all add: completed_def set_stats_def)

lemma complete_column: "Column_complete_plan c w = (c', w') \<Longrightarrow> c' = completed c \<and> header_step w w'"
  using complete_tables [of "table_values c" w]
  by (auto simp: Column_complete_plan_def completed_def split: prod.splits)

lemma complete_columns_step:
  "complete_columns cols w = (cols', w') \<Longrightarrow> cols' = map completed cols \<and> header_step w w'"
proof (induction cols arbitrary: w cols' w')
  case (Cons c cs)
  obtain c1 w1 where 1: "Column_complete_plan c w = (c1, w1)" by fastforce
  obtain cs1 w2 where 2: "complete_columns cs w1 = (cs1, w2)" by fastforce
  show ?case
    using Cons.prems Cons.IH [OF 2] complete_column [OF 1] header_step_trans [of w w1 w2] by (simp add: 1 2)
qed simp

lemma completed_holds:
  assumes "column_holds cd c w m" and h: "header_step w w'"
  shows "column_holds cd (completed c) w' m"
proof -
  let ?vs = "table_values c"
  obtain S M where rep: "column_rep cd c w S M"
    and m: "\<And>k. length k = KEY_LEN \<Longrightarrow> m k = stored_view cd (col_compression c) (M k)"
    using assms(1) unfolding column_holds_def by blast
  note r = column_repD [OF rep]
  have idx: "LogWriter_with_index w' (it_id (table_index c)) = LogWriter_with_index w (it_id (table_index c))"
    and g: "grows w w'" using h by (simp_all add: header_step_def)
  have "readable (t\<lparr>vt_dirty_header := False\<rparr>) w' a" if "readable t w a" for t a
    by (rule readable_grows [OF that g]) (simp add: same_table_def)
  moreover have "represents ((?vs ! i)\<lparr>vt_dirty_header := False\<rparr>) w' (S i)" if "i < length ?vs" for i
    using header_represents [OF tables_rep_at(1) [OF r(1) that] h] .
  ultimately have "tables_rep (map (\<lambda>t. t\<lparr>vt_dirty_header := False\<rparr>) ?vs) w' S"
    using r(1) by (auto simp: tables_rep_def comp_def last_map)
  moreover have "stores (map (\<lambda>t. t\<lparr>vt_dirty_header := False\<rparr>) ?vs) S = stores ?vs S" by (rule stores_same) simp
  ultimately have "column_rep cd (completed c) w' S M"
    using r index_view_frame [OF idx] unfolding column_rep_def by simp
  then show ?thesis using m unfolding column_holds_def by auto
qed

section \<open>The operations of a commit\<close>

text \<open>No two columns share a table.\<close>

definition apart :: "Column list \<Rightarrow> bool" where
  "apart cols \<longleftrightarrow> (\<forall>i<length cols. \<forall>j<length cols. i \<noteq> j \<longrightarrow>
     vt_id ` set (table_values (cols ! i)) \<inter> vt_id ` set (table_values (cols ! j)) = {} \<and>
     it_id (table_index (cols ! i)) \<noteq> it_id (table_index (cols ! j)))"

definition columns_hold :: "Codecs \<Rightarrow> Column list \<Rightarrow> LogWriter \<Rightarrow> column_map list \<Rightarrow> bool" where
  "columns_hold cd cols w ms \<longleftrightarrow>
     length ms = length cols \<and> apart cols \<and> (\<forall>i<length cols. column_holds cd (cols ! i) w (ms ! i))"

text \<open>The options of a column that readers and writers depend on.\<close>

type_synonym kind = "bool \<times> bool \<times> bool \<times> Salt \<times> u32"

definition kind_of :: "Column \<Rightarrow> kind" where
  "kind_of c = (col_ref_counted c, col_preimage c, col_uniform_keys c, col_salt c, col_db_version c)"

text \<open>An operation of a commit on the maps of the columns.\<close>

definition apply_op :: "kind list \<Rightarrow> operation \<Rightarrow> column_map list \<Rightarrow> column_map list" where
  "apply_op ks x ms =
     (let (c, key, val) = x; i = unat c; (counted, preimage, _) = ks ! i
      in ms[i := column_update counted preimage key val (ms ! i)])"

text \<open>Every operation finds room when its turn comes.\<close>

primrec ops_ready :: "Codecs \<Rightarrow> operation list \<Rightarrow> Column list \<Rightarrow> LogWriter \<Rightarrow> column_map list \<Rightarrow> bool" where
  "ops_ready cd [] cols w ms = True"
| "ops_ready cd (x # xs) cols w ms =
     (let (c, key, val) = x; i = unat c
      in i < length cols \<and> write_ready (cols ! i) w key val (ms ! i) \<and>
         (case Column_write_plan cd (cols ! i) key val w of
            Inl _ \<Rightarrow> False
          | Inr (_, col, w') \<Rightarrow> ops_ready cd xs (cols[i := col]) w' (apply_op (map kind_of cols) x ms)))"

lemma apart_update:
  assumes "apart cols" and "map vt_id (table_values c) = map vt_id (table_values (cols ! i))"
    and "table_index c = table_index (cols ! i)"
  shows "apart (cols[i := c])"
proof -
  have "vt_id ` set (table_values c) = vt_id ` set (table_values (cols ! i))"
    using assms(2) by (metis list.set_map)
  then have "vt_id ` set (table_values (cols[i := c] ! j)) = vt_id ` set (table_values (cols ! j)) \<and>
      it_id (table_index (cols[i := c] ! j)) = it_id (table_index (cols ! j))" if "j < length cols" for j
    using that assms(3) by (cases "j = i") simp_all
  then show ?thesis using assms(1) by (simp add: apart_def)
qed

lemma columns_hold_step:
  assumes cd: "codecs_ok cd" and hold: "columns_hold cd cols w ms" and i: "i < length cols"
    and ready: "write_ready (cols ! i) w key val (ms ! i)"
  obtains r col w' where "Column_write_plan cd (cols ! i) key val w = Inr (r, col, w')" "r \<noteq> NeedReindex"
    "columns_hold cd (cols[i := col]) w'
       (ms[i := column_update (col_ref_counted (cols ! i)) (col_preimage (cols ! i)) key val (ms ! i)])"
    "col_step (cols ! i) w col w'"
proof -
  let ?m = "column_update (col_ref_counted (cols ! i)) (col_preimage (cols ! i)) key val (ms ! i)"
  have h: "column_holds cd (cols ! i) w (ms ! i)" "apart cols" "length ms = length cols"
    using hold i by (simp_all add: columns_hold_def)
  obtain r col w' where p: "Column_write_plan cd (cols ! i) key val w = Inr (r, col, w')" "r \<noteq> NeedReindex"
      "column_holds cd col w' ?m" "col_step (cols ! i) w col w'"
    using write_plan_holds [OF cd h(1) ready] by blast
  have "column_holds cd (cols[i := col] ! j) w' (ms[i := ?m] ! j)" if j: "j < length cols" for j
  proof (cases "j = i")
    case False
    have "column_holds cd (cols ! j) w (ms ! j)" using hold j by (simp add: columns_hold_def)
    moreover have "vt_id ` set (table_values (cols ! j)) \<inter> vt_id ` set (table_values (cols ! i)) = {}"
        "it_id (table_index (cols ! j)) \<noteq> it_id (table_index (cols ! i))"
      using h(2) i j False by (simp_all add: apart_def)
    moreover have "writer_stored w' u = writer_stored w u" if "u \<notin> vt_id ` set (table_values (cols ! i))" for u
      using p(4) that by (simp add: col_step_def)
    moreover have "LogWriter_with_index w' u = LogWriter_with_index w u" if "u \<noteq> it_id (table_index (cols ! i))" for u
      using p(4) that by (simp add: col_step_def)
    ultimately have "column_holds cd (cols ! j) w' (ms ! j)"
      using column_holds_frame [of cd "cols ! j" w "ms ! j" w'] by blast
    with False show ?thesis by simp
  qed (use p(3) j h(3) in simp)
  moreover have "apart (cols[i := col])" by (rule apart_update [OF h(2)]) (use p(4) in \<open>simp_all add: col_step_def\<close>)
  ultimately show thesis using that p h(3) by (simp add: columns_hold_def)
qed

lemma write_operations_hold:
  assumes cd: "codecs_ok cd"
  shows "columns_hold cd cols w ms \<Longrightarrow> ops_ready cd xs cols w ms \<Longrightarrow>
     \<exists>cols' w'. write_operations cd xs r cols w = Inr (r, cols', w') \<and>
       columns_hold cd cols' w' (fold (apply_op (map kind_of cols)) xs ms) \<and> map kind_of cols' = map kind_of cols \<and>
       grows w w' \<and> lw_overlays w' = lw_overlays w \<and> lc_record_id (lw_log w') = lc_record_id (lw_log w)"
proof (induction xs arbitrary: cols w ms)
  case (Cons x xs)
  obtain c key val where x: "x = (c, key, val)" by (cases x)
  define i where "i = unat c"
  have i: "i < length cols" and ready: "write_ready (cols ! i) w key val (ms ! i)"
    using Cons.prems(2) by (simp_all add: x i_def Let_def)
  obtain o' col w1 where p: "Column_write_plan cd (cols ! i) key val w = Inr (o', col, w1)" "o' \<noteq> NeedReindex"
      "columns_hold cd (cols[i := col]) w1
         (ms[i := column_update (col_ref_counted (cols ! i)) (col_preimage (cols ! i)) key val (ms ! i)])"
      "col_step (cols ! i) w col w1"
    by (rule columns_hold_step [OF cd Cons.prems(1) i ready])
  have kind: "map kind_of (cols[i := col]) = map kind_of cols"
    using p(4) i by (auto simp: map_update kind_of_def col_step_def intro!: nth_equalityI simp: nth_list_update)
  have ms: "ms[i := column_update (col_ref_counted (cols ! i)) (col_preimage (cols ! i)) key val (ms ! i)] =
      apply_op (map kind_of cols) x ms"
    using i by (simp add: apply_op_def x i_def kind_of_def Let_def)
  have "ops_ready cd xs (cols[i := col]) w1 (apply_op (map kind_of cols) x ms)"
    using Cons.prems(2) p(1) by (simp add: x i_def Let_def)
  from Cons.IH [OF p(3) [unfolded ms] this] obtain cols' w' where
    q: "write_operations cd xs r (cols[i := col]) w1 = Inr (r, cols', w')"
      "columns_hold cd cols' w' (fold (apply_op (map kind_of cols)) (x # xs) ms)" "map kind_of cols' = map kind_of cols"
      "grows w1 w'" "lw_overlays w' = lw_overlays w1" "lc_record_id (lw_log w') = lc_record_id (lw_log w1)"
    unfolding kind by auto
  have "grows w w'" using q(4) p(4) grows_trans by (auto simp: col_step_def)
  then show ?case
    using q p(1,2,4) i by (simp add: x i_def [symmetric] Let_def col_step_def)
qed auto

section \<open>Logging a commit\<close>

text \<open>What the columns of a database hold, as the readers of the shared overlays see it.\<close>

definition db_writer :: "DbInner \<Rightarrow> LogWriter" where
  "db_writer d = fst (Log_begin_record (db_log d))"

definition db_holds :: "Crates \<Rightarrow> DbInner \<Rightarrow> column_map list \<Rightarrow> bool" where
  "db_holds cr d ms \<longleftrightarrow> columns_hold (cr_codecs cr) (db_columns d) (db_writer d) ms"

lemma db_writer_simps [simp]:
  "writer_stored (db_writer d) = overlays_stored (lg_overlays (db_log d))"
  "LogWriter_with_index (db_writer d) = LogOverlays_with_index (lg_overlays (db_log d))"
  "LogWriter_query (db_writer d) = LogOverlays_query (lg_overlays (db_log d))"
  "lw_overlays (db_writer d) = lg_overlays (db_log d)" "lc_wf (lw_log (db_writer d))"
  "lc_record_id (lw_log (db_writer d)) = lg_next_record_id (db_log d)"
proof -
  have w: "db_writer d = LogWriter_new (lg_overlays (db_log d)) (lg_next_record_id (db_log d))"
    by (simp add: db_writer_def Log_begin_record_def Let_def)
  show st: "writer_stored (db_writer d) = overlays_stored (lg_overlays (db_log d))"
    by (intro ext) (simp add: w writer_stored_def LogWriter_new_def LogChange_new_def)
  show ix: "LogWriter_with_index (db_writer d) = LogOverlays_with_index (lg_overlays (db_log d))"
    by (intro ext) (simp add: w LogWriter_with_index_def LogWriter_new_def LogChange_new_def)
  show "LogWriter_query (db_writer d) = LogOverlays_query (lg_overlays (db_log d))"
    by (simp add: LogWriter_query_def LogOverlays_query_def ix fun_eq_iff LogWriter_value_stored LogOverlays_value_stored st)
  show "lw_overlays (db_writer d) = lg_overlays (db_log d)" "lc_wf (lw_log (db_writer d))"
      "lc_record_id (lw_log (db_writer d)) = lg_next_record_id (db_log d)"
    by (simp_all add: w LogWriter_new_def) (simp add: LogChange_new_def)
qed

lemma columns_hold_cong:
  assumes "columns_hold cd cols w ms" and "writer_stored w' = writer_stored w"
    and "LogWriter_with_index w' = LogWriter_with_index w"
  shows "columns_hold cd cols w' ms"
  using assms column_holds_frame [where w = w and w' = w'] by (auto simp: columns_hold_def)

lemma completed_columns_hold:
  assumes "columns_hold cd cols w ms" and "header_step w w'"
  shows "columns_hold cd (map completed cols) w' ms"
proof -
  have "vt_id ` set (table_values (completed c)) = vt_id ` set (table_values c)" for c by (simp add: image_image)
  then show ?thesis using assms completed_holds [OF _ assms(2)] by (auto simp: columns_hold_def apart_def simp del: completed_simps(1))
qed

lemma log_publish_pages:
  assumes "lc_wf (lw_log w)" and "lw_overlays w = lg_overlays lg" and "lc_record_id (lw_log w) + 1 = lg_next_record_id lg"
  shows "\<exists>n lg'. Log_end_record crc lg (LogWriter_drain w) = Inr (n, lg') \<and>
     overlays_stored (lg_overlays lg') = writer_stored w \<and> LogOverlays_with_index (lg_overlays lg') = LogWriter_with_index w"
proof -
  obtain n lg' where r: "Log_end_record crc lg (lw_log w) = Inr (n, lg')"
    using assms(3) by (auto simp: Log_end_record_def Let_def case_prod_beta)
  then show ?thesis using publish [OF assms(1) r assms(2) refl] by (auto simp: LogWriter_drain_def)
qed

lemma process_commit_holds:
  assumes cd: "codecs_ok (cr_codecs cr)" and hold: "db_holds cr d ms"
    and ready: "ops_ready (cr_codecs cr) (cm_changeset commit) (db_columns d) (db_writer d) ms"
  shows "\<exists>d'. process_commit cr d commit = Inr d' \<and>
     db_holds cr d' (fold (apply_op (map kind_of (db_columns d))) (cm_changeset commit) ms) \<and>
     map kind_of (db_columns d') = map kind_of (db_columns d) \<and> db_metadata d' = db_metadata d \<and>
     db_commit_overlay d' = fold (clean_overlay (cm_id commit)) (cm_changeset commit) (db_commit_overlay d)"
proof -
  let ?cd = "cr_codecs cr" and ?ms = "fold (apply_op (map kind_of (db_columns d))) (cm_changeset commit) ms"
  obtain lg where b: "Log_begin_record (db_log d) = (db_writer d, lg)"
    by (simp add: db_writer_def) (metis prod.collapse)
  then have lg: "lg_overlays lg = lg_overlays (db_log d)" "lg_next_record_id lg = lg_next_record_id (db_log d) + 1"
    by (auto simp: Log_begin_record_def Let_def)
  obtain cols w1 where p: "write_operations ?cd (cm_changeset commit) False (db_columns d) (db_writer d) = Inr (False, cols, w1)"
      "columns_hold ?cd cols w1 ?ms" "map kind_of cols = map kind_of (db_columns d)" "grows (db_writer d) w1"
      "lw_overlays w1 = lw_overlays (db_writer d)" "lc_record_id (lw_log w1) = lc_record_id (lw_log (db_writer d))"
    using write_operations_hold [OF cd hold [unfolded db_holds_def] ready] by blast
  obtain cols' w2 where q: "complete_columns cols w1 = (cols', w2)" by fastforce
  then have q': "cols' = map completed cols" and h: "header_step w1 w2" using complete_columns_step by blast+
  have "lc_wf (lw_log w2)"
    using grows_wf [of w1 w2] grows_wf [OF p(4)] h by (simp add: header_step_def)
  moreover have "lw_overlays w2 = lg_overlays lg" "lc_record_id (lw_log w2) + 1 = lg_next_record_id lg"
    using h p(5,6) lg by (simp_all add: header_step_def)
  ultimately obtain n lg' where e: "Log_end_record (cr_crc32 cr) lg (LogWriter_drain w2) = Inr (n, lg')"
      "overlays_stored (lg_overlays lg') = writer_stored w2" "LogOverlays_with_index (lg_overlays lg') = LogWriter_with_index w2"
    using log_publish_pages by blast
  define d' where "d' = d\<lparr>db_columns := cols', db_log := lg', db_log_queue := db_log_queue d + n,
      db_flush_worker_wait := True,
      db_commit_overlay := fold (clean_overlay (cm_id commit)) (cm_changeset commit) (db_commit_overlay d)\<rparr>"
  have "process_commit cr d commit = Inr d'"
    by (simp add: process_commit_def b p(1) q e(1) d'_def WaitCondvar_signal_def)
  moreover have "db_holds cr d' ?ms"
    unfolding db_holds_def
    by (rule columns_hold_cong [where w = w2]) (use completed_columns_hold [OF p(2) h] e(2,3) in \<open>simp_all add: d'_def q'\<close>)
  moreover have "map kind_of cols' = map kind_of (db_columns d)"
    unfolding q' p(3) [symmetric] by (simp add: kind_of_def)
  ultimately show ?thesis by (intro exI [of _ d']) (simp add: d'_def)
qed

section \<open>What a reader sees\<close>

definition db_shows :: "DbInner \<Rightarrow> column_map list \<Rightarrow> ColId \<Rightarrow> Key \<Rightarrow> bytes option" where
  "db_shows d ms col k = (case overlay_get d col k of Some v \<Rightarrow> v | None \<Rightarrow> map_option snd ((ms ! unat col) k))"

lemma get_shows:
  assumes "db_holds cr d ms" and "unat col < length (db_columns d)"
    and "Column_hash (cr_blake2b cr) (db_columns d ! unat col) key = Inr k" "length k = KEY_LEN"
  shows "\<exists>d'. DbInner_get cr d col key = Inr (db_shows d ms col k, d')"
proof -
  have "column_holds (cr_codecs cr) (db_columns d ! unat col) (db_writer d) (ms ! unat col)"
    using assms(1,2) by (simp add: db_holds_def columns_hold_def)
  then obtain c' where "Column_get (cr_codecs cr) (db_columns d ! unat col) k (LogOverlays_query (lg_overlays (db_log d))) =
      Inr (map_option snd ((ms ! unat col) k), c')"
    using get_holds [OF _ assms(4)] by fastforce
  then show ?thesis
    using assms(2,3) by (simp add: DbInner_get_def column_at_def db_shows_def split: option.split)
qed

text \<open>In a column without reference counters and preimages the last write to a key stays.\<close>

lemma apply_op_plain:
  fixes c col :: ColId
  assumes "unat col < length ms" and "fst (ks ! unat col) = False" "fst (snd (ks ! unat col)) = False"
  shows "map_option snd ((apply_op ks (c, key, val) ms ! unat col) k) =
     (if c = col \<and> key = k then val else map_option snd ((ms ! unat col) k))"
proof (cases "c = col")
  case True
  then show ?thesis
    using assms by (auto simp: apply_op_def Let_def column_update_def split: prod.split option.split)
next
  case False
  then have "unat c \<noteq> unat col" by (metis unsigned_word_eqI)
  with False show ?thesis by (auto simp: apply_op_def Let_def split: prod.split)
qed

lemma apply_ops_plain:
  assumes "unat col < length ms" and "fst (ks ! unat col) = False" "fst (snd (ks ! unat col)) = False"
    and "\<not> co_ref_counted (md_columns md ! unat col)"
  shows "map_option snd ((fold (apply_op ks) xs ms ! unat col) k) =
     (case last_opt (op_writes md r xs col k) of Some (_, v) \<Rightarrow> v | None \<Rightarrow> map_option snd ((ms ! unat col) k))"
  using assms(1)
proof (induction xs arbitrary: ms)
  case (Cons x xs)
  obtain c key val where x: "x = (c, key, val)" by (cases x)
  have len: "unat col < length (apply_op ks x ms)" using Cons.prems by (simp add: apply_op_def x Let_def split: prod.split)
  have "shown md col k x \<longleftrightarrow> c = col \<and> key = k" using assms(4) by (auto simp: shown_def x)
  then show ?case
    using Cons.IH [OF len] apply_op_plain [OF Cons.prems assms(2,3), of c key val k]
    by (auto simp: x over_def split: option.split)
qed simp

definition plain_column :: "DbInner \<Rightarrow> ColId \<Rightarrow> bool" where
  "plain_column d col \<longleftrightarrow>
     unat col < length (db_columns d) \<and> length (md_columns (db_metadata d)) = length (db_columns d) \<and>
     \<not> col_ref_counted (db_columns d ! unat col) \<and> \<not> col_preimage (db_columns d ! unat col) \<and>
     \<not> co_ref_counted (md_columns (db_metadata d) ! unat col)"

lemma process_commits_shows:
  assumes cd: "codecs_ok (cr_codecs cr)" and inv: "queue_inv d" and hold: "db_holds cr d ms"
    and q: "cq_commits (db_commit_queue d) = commit # rest" "length rest < 2 ^ 64"
    and ready: "ops_ready (cr_codecs cr) (cm_changeset commit) (db_columns d) (db_writer d) ms"
    and go: "db_shutdown d \<or> sint (db_log_queue d) \<le> MAX_LOG_QUEUE_BYTES" and col: "plain_column d col"
  obtains d' ms' where "DbInner_process_commits cr d = Some (Inr (True, d'))" "db_holds cr d' ms'"
    "map kind_of (db_columns d') = map kind_of (db_columns d)" "db_shows d' ms' col k = db_shows d ms col k"
proof -
  let ?md = "db_metadata d" and ?i = "unat col" and ?ks = "map kind_of (db_columns d)"
  let ?ms = "fold (apply_op ?ks) (cm_changeset commit) ms"
  define d1 where "d1 = d\<lparr>db_commit_queue := (db_commit_queue d)\<lparr>cq_commits := rest,
      cq_bytes := cq_bytes (db_commit_queue d) - cm_bytes commit\<rparr>\<rparr>"
  have d1: "db_writer d1 = db_writer d" "db_columns d1 = db_columns d" "db_commit_overlay d1 = db_commit_overlay d"
    by (simp_all add: d1_def db_writer_def)
  have hold1: "db_holds cr d1 ms" using hold by (simp add: db_holds_def d1)
  obtain d' where d': "process_commit cr d1 commit = Inr d'" "db_holds cr d' ?ms" "map kind_of (db_columns d') = ?ks"
      "db_commit_overlay d' = fold (clean_overlay (cm_id commit)) (cm_changeset commit) (db_commit_overlay d)"
    using process_commit_holds [OF cd hold1, unfolded d1, OF ready] by blast
  have range: "?i < length (md_columns ?md)" and len: "length (db_commit_overlay d) = length (md_columns ?md)"
      and len': "length (db_commit_overlay d') = length (md_columns ?md)" and lms: "?i < length ms"
    using inv col hold clean_overlay_fold [of col "db_commit_overlay d" ?md "cm_changeset commit"] q(1)
    by (auto simp: plain_column_def queue_inv_def Let_def d'(4) db_holds_def columns_hold_def)
  have new: "map_of (db_commit_overlay d' ! ?i) k = last_opt (writes ?md rest col k)"
    unfolding d'(4) by (rule writes_pop [OF inv q range])
  have old: "map_of (db_commit_overlay d ! ?i) k =
      over (last_opt (op_writes ?md (cm_id commit) (cm_changeset commit) col k)) (last_opt (writes ?md rest col k))"
    using inv range by (simp add: queue_inv_def Let_def q(1))
  have ops: "map_option snd ((?ms ! ?i) k) = (case last_opt (op_writes ?md (cm_id commit) (cm_changeset commit) col k) of
      Some (_, v) \<Rightarrow> v | None \<Rightarrow> map_option snd ((ms ! ?i) k))"
    by (rule apply_ops_plain [OF lms]) (use col in \<open>simp_all add: plain_column_def kind_of_def\<close>)
  have "db_shows d' ?ms col k = db_shows d ms col k"
    using new old ops range len len' by (auto simp: db_shows_def overlay_get_def over_def split: option.splits)
  moreover have "DbInner_process_commits cr d = Some (Inr (True, d'))"
    using go q(1) d'(1) by (auto simp: DbInner_process_commits_def d1_def Let_def)
  ultimately show thesis using that d'(2,3) by blast
qed

section \<open>A sample database\<close>

definition sample_store :: DbInner where
  "sample_store = sample_inner\<lparr>db_columns := [sample_col]\<rparr>"

definition sample_ops :: "operation list" where
  "sample_ops = [(0, sample_hash, Some [1, 2, 3])]"

lemma sample_store_writer: "db_writer sample_store = fresh_writer"
  by (simp add: db_writer_def Log_begin_record_def sample_store_def sample_inner_def sample_log_simps fresh_writer_def Let_def)

lemma sample_store_holds: "db_holds cr sample_store [Map.empty]"
  unfolding db_holds_def sample_store_writer
  by (simp add: columns_hold_def apart_def sample_store_def sample_col_holds)

lemma sample_ops_ready: "codecs_ok cd \<Longrightarrow> ops_ready cd sample_ops [sample_col] fresh_writer [Map.empty]"
  using write_plan_holds [OF _ sample_col_holds sample_col_ready, of cd "[1, 2, 3]"]
  by (auto simp: sample_ops_def sample_col_ready)

lemma sample_hash_length [simp]: "length sample_hash = KEY_LEN"
  by (simp add: sample_hash_def KEY_LEN_def)

section \<open>Properties\<close>

text \<open>
  C3: logging a commit succeeds when its values have room, and the columns then hold exactly the maps that
  result from performing the operations of the commit in their order, each on its own column; the overlay
  gives up the values of this commit. The record is published, so this is what every reader of the log finds.
\<close>

theorem db_commit_applies:
  assumes "codecs_ok (cr_codecs cr)" and "db_holds cr d ms"
    and "ops_ready (cr_codecs cr) (cm_changeset commit) (db_columns d) (db_writer d) ms"
  shows "\<exists>d'. process_commit cr d commit = Inr d' \<and>
     db_holds cr d' (fold (apply_op (map kind_of (db_columns d))) (cm_changeset commit) ms) \<and>
     db_commit_overlay d' = fold (clean_overlay (cm_id commit)) (cm_changeset commit) (db_commit_overlay d)"
  using process_commit_holds [OF assms] by blast

theorem db_commit_applies_witness:
  "\<exists>d'. process_commit sample_crates sample_store \<lparr>cm_id = 2, cm_bytes = 35, cm_changeset = sample_ops\<rparr> = Inr d' \<and>
     db_holds sample_crates d' [[sample_hash \<mapsto> (1, [1, 2, 3])]]"
  using db_commit_applies [of sample_crates sample_store "[Map.empty]" "\<lparr>cm_id = 2, cm_bytes = 35, cm_changeset = sample_ops\<rparr>"]
    sample_store_holds sample_ops_ready [OF zero_codecs_ok] sample_store_writer
  by (auto simp: sample_crates_def) (auto simp: sample_store_def sample_ops_def apply_op_def Let_def kind_of_def column_update_def sample_col_def)



end
