(* ===== verification/Db_Fresh.thy ===== *)
theory Db_Fresh
  imports Db_Commits Value_Enact
begin

text \<open>
  Creating a database. In an empty directory \<open>open_or_create\<close> succeeds, and the state it starts with satisfies
  what the other properties assume: the columns hold empty maps and share no table, the commit queue and its
  overlay agree, and the log files are in order.
\<close>

section \<open>Tables without files\<close>

lemma open_indexes_none: "disk = (\<lambda>_. None) \<Longrightarrow> open_indexes path disk tids newest rx st = Inr (newest, rx, st)"
  by (induction tids) (simp_all add: IndexTable_open_existing_def)

lemma open_index_none:
  "Column_open_index path col (\<lambda>_. None) =
     Inr (IndexTable_create_new path (ITableId_new col START_BITS), [], ColumnStats_empty)"
  by (simp add: Column_open_index_def open_indexes_none)

text \<open>The entry sizes a value table accepts.\<close>

definition sizes_ok :: "ColumnOptions \<Rightarrow> bool" where
  "sizes_ok o' \<longleftrightarrow> list_all (\<lambda>s. MIN_ENTRY_SIZE \<le> s \<and> s \<le> MAX_ENTRY_SIZE) (co_sizes o')"

definition fresh_table :: "ColId \<Rightarrow> ColumnOptions \<Rightarrow> nat \<Rightarrow> ValueTable \<Rightarrow> bool" where
  "fresh_table col o' i t \<longleftrightarrow>
     vt_ok t \<and> vt_filled t = 1 \<and> vt_last_removed t = 0 \<and> tf_file (vt_file t) = None \<and>
     vt_multipart t = (length (co_sizes o') \<le> i) \<and> vt_ref_counted t = co_ref_counted o' \<and>
     vt_id t = VTableId_new col (of_nat i)"

lemma open_table_fresh:
  assumes "sizes_ok o'" and "i < 256"
  shows "\<exists>t. Column_open_table path col (of_nat i) o' ver (\<lambda>_. None) = Inr t \<and> fresh_table col o' i t"
proof -
  have i: "unat (of_nat i :: u8) = i" using assms(2) by (intro of_nat_inverse [OF refl]) simp
  let ?s = "if i < length (co_sizes o') then Some (co_sizes o' ! i) else None"
  have "case ?s of None \<Rightarrow> True | Some s \<Rightarrow> MIN_ENTRY_SIZE \<le> s \<and> s \<le> MAX_ENTRY_SIZE"
    using assms(1) by (auto simp: sizes_ok_def list_all_length)
  from open_fresh_table [OF this, of path "VTableId_new col (of_nat i)" "co_ref_counted o'" ver]
  obtain t where "ValueTable_open path None (VTableId_new col (of_nat i)) ?s (co_ref_counted o') ver = Inr t"
      "vt_ok t" "vt_filled t = 1" "vt_last_removed t = 0" "tf_file (vt_file t) = None"
      "vt_multipart t = (?s = None)" "vt_ref_counted t = co_ref_counted o'" "vt_id t = VTableId_new col (of_nat i)"
    by metis
  then show ?thesis by (intro exI [of _ t]) (auto simp: Column_open_table_def fresh_table_def i Let_def)
qed

lemma open_tables_fresh:
  assumes "sizes_ok o'"
  shows "list_all (\<lambda>i. i < 256) is \<Longrightarrow>
     \<exists>ts. open_tables path col o' ver (\<lambda>_. None) is = Inr ts \<and> list_all2 (fresh_table col o') is ts"
proof (induction "is")
  case (Cons i "is")
  then show ?case using open_table_fresh [OF assms, of i path col ver] by fastforce
qed simp

text \<open>A column as it is when none of its files exists.\<close>

definition fresh_column :: "Options \<Rightarrow> Metadata \<Rightarrow> nat \<Rightarrow> Column \<Rightarrow> bool" where
  "fresh_column options md i c \<longleftrightarrow>
     (let o' = md_columns md ! i
      in list_all2 (fresh_table (of_nat i) o') [0..<length (co_sizes o') + 1] (table_values c) \<and>
         table_index c = IndexTable_create_new (op_path options) (ITableId_new (of_nat i) START_BITS) \<and>
         rx_queue (col_reindex c) = [] \<and> col_collect_stats c = op_stats options \<and>
         kind_of c = (co_ref_counted o', co_preimage o', co_uniform o', md_salt md, md_version md))"

lemma open_column_fresh:
  assumes "i < length (md_columns md)" and "i < 256" and "sizes_ok (md_columns md ! i)"
    and "ColumnOptions_is_valid (md_columns md ! i)"
  shows "\<exists>c. Column_open (of_nat i) options md (\<lambda>_. None) (\<lambda>_. None) = Inr c \<and> fresh_column options md i c"
proof -
  let ?o = "md_columns md ! i"
  have i: "unat (of_nat i :: u8) = i" using assms(2) by (intro of_nat_inverse [OF refl]) simp
  have "list_all (\<lambda>j. j < 256) [0..<length (co_sizes ?o) + 1]"
    using assms(4) by (simp add: ColumnOptions_is_valid_def SIZE_TIERS_def list_all_iff)
  from open_tables_fresh [OF assms(3) this, of "op_path options" "of_nat i" "md_version md"]
  obtain ts where "open_tables (op_path options) (of_nat i) ?o (md_version md) (\<lambda>_. None) [0..<length (co_sizes ?o) + 1] = Inr ts"
      "list_all2 (fresh_table (of_nat i) ?o) [0..<length (co_sizes ?o) + 1] ts"
    by blast
  then show ?thesis
    using assms(1) by (simp add: Column_open_def open_index_none i Let_def fresh_column_def kind_of_def)
qed

lemma open_columns_fresh:
  assumes "length (md_columns md) \<le> 256"
    and "\<And>o'. o' \<in> set (md_columns md) \<Longrightarrow> sizes_ok o' \<and> ColumnOptions_is_valid o'"
    and "dk_index disk = (\<lambda>_. None)" "dk_value disk = (\<lambda>_. None)"
  shows "list_all (\<lambda>i. i < length (md_columns md)) is \<Longrightarrow>
     \<exists>cs. open_columns options md disk is = Inr cs \<and> list_all2 (fresh_column options md) is cs"
proof (induction "is")
  case (Cons i "is")
  have "\<exists>c. Column_open (of_nat i) options md (\<lambda>_. None) (\<lambda>_. None) = Inr c \<and> fresh_column options md i c"
    by (rule open_column_fresh) (use Cons.prems assms(1,2) in auto)
  then show ?case using Cons assms(3,4) by fastforce
qed simp

section \<open>The first state of a database\<close>

lemma list_all2_in: "list_all2 P xs ys \<Longrightarrow> y \<in> set ys \<Longrightarrow> \<exists>x\<in>set xs. P x y"
  by (induction rule: list_all2_induct) auto

lemma fresh_ids:
  assumes "list_all2 (fresh_table col o') is ts"
  shows "map vt_id ts = map (\<lambda>i. VTableId_new col (of_nat i)) is"
  using assms by (induction rule: list_all2_induct) (simp_all add: fresh_table_def)

lemma vtable_ids_distinct: "distinct (map (\<lambda>i. VTableId_new col (of_nat i)) [0..<n])" if "n \<le> 256"
proof -
  have "inj_on (\<lambda>i. VTableId_new col (of_nat i)) {0..<n}"
  proof (rule inj_onI)
    fix i j assume ij: "i \<in> {0..<n}" "j \<in> {0..<n}" "VTableId_new col (of_nat i) = VTableId_new col (of_nat j)"
    then have "(of_nat i :: u8) = of_nat j" by (metis VTableId_parts(2))
    then have "unat (of_nat i :: u8) = unat (of_nat j :: u8)" by simp
    moreover have "unat (of_nat i :: u8) = i" "unat (of_nat j :: u8) = j"
      using ij that by (simp_all add: of_nat_inverse [OF refl])
    ultimately show "i = j" by simp
  qed
  then show ?thesis by (simp add: distinct_map)
qed

lemma fresh_column_holds:
  assumes c: "fresh_column options md i c" and valid: "ColumnOptions_is_valid (md_columns md ! i)"
    and none: "\<And>u ci. q_with_index (LogWriter_query w) u ci = None"
    and stored: "\<And>u i. writer_stored w u i = None"
  shows "column_holds cd c w Map.empty"
proof -
  let ?o = "md_columns md ! i"
  have ts: "list_all2 (fresh_table (of_nat i) ?o) [0..<length (co_sizes ?o) + 1] (table_values c)"
    and idx: "table_index c = IndexTable_create_new (op_path options) (ITableId_new (of_nat i) START_BITS)"
    and rx: "rx_queue (col_reindex c) = []" and k: "col_ref_counted c = co_ref_counted ?o"
    using c by (simp_all add: fresh_column_def Let_def kind_of_def)
  have len: "length (table_values c) = length (co_sizes ?o) + 1" using list_all2_lengthD [OF ts] by simp
  have small: "length (co_sizes ?o) + 1 \<le> 256" using valid by (simp add: ColumnOptions_is_valid_def SIZE_TIERS_def)
  have "fresh_table (of_nat i) ?o (length (co_sizes ?o)) (table_values c ! length (co_sizes ?o))"
    using list_all2_nthD [OF ts, of "length (co_sizes ?o)"] by (simp add: nth_append)
  then have "vt_multipart (last (table_values c))"
    using len by (simp add: fresh_table_def last_conv_nth [of "table_values c"] flip: length_greater_0_conv)
  moreover have "distinct (map vt_id (table_values c))"
    unfolding fresh_ids [OF ts] by (rule vtable_ids_distinct [OF small])
  moreover have "it_ok (table_index c) (LogWriter_query w)"
    by (simp add: it_ok_def idx IndexTable_create_new_def none START_BITS_def bits_ok_def)
  ultimately show ?thesis
    using list_all2_in [OF ts] len small
    by (intro empty_column) (auto simp: fresh_table_def k idx IndexTable_create_new_def none rx stored)
qed

lemma fresh_columns_apart:
  assumes "list_all2 (fresh_column options md) [0..<n] cs" and "n \<le> 256"
  shows "apart cs"
  unfolding apart_def
proof (intro allI impI)
  fix i j assume ij: "i < length cs" "j < length cs" "i \<noteq> j"
  have len: "length cs = n" using list_all2_lengthD [OF assms(1)] by simp
  have c: "fresh_column options md i (cs ! i)" "fresh_column options md j (cs ! j)"
    using list_all2_nthD2 [OF assms(1)] ij len by simp_all
  have "unat (of_nat i :: u8) = i" "unat (of_nat j :: u8) = j"
    using ij len assms(2) by (simp_all add: of_nat_inverse [OF refl])
  then have ne: "(of_nat i :: u8) \<noteq> of_nat j" using ij(3) by metis
  have col: "VTableId_col u = of_nat k" if "fresh_column options md k c" "u \<in> vt_id ` set (table_values c)" for k c u
    using that list_all2_in by (fastforce simp: fresh_column_def Let_def fresh_table_def)
  have "vt_id ` set (table_values (cs ! i)) \<inter> vt_id ` set (table_values (cs ! j)) = {}"
    using col [OF c(1)] col [OF c(2)] ne by (metis disjoint_iff)
  moreover have "it_id (table_index (cs ! i)) \<noteq> it_id (table_index (cs ! j))"
    using c ne by (auto simp: fresh_column_def Let_def IndexTable_create_new_def dest: arg_cong [of _ _ ITableId_col])
  ultimately show "vt_id ` set (table_values (cs ! i)) \<inter> vt_id ` set (table_values (cs ! j)) = {} \<and>
      it_id (table_index (cs ! i)) \<noteq> it_id (table_index (cs ! j))" by blast
qed

lemma refresh_fresh:
  assumes "list_all2 (fresh_column options md) is cs"
  shows "refresh_columns cs = Inr cs"
  using assms
proof (induction rule: list_all2_induct)
  case (Cons i "is" c cs)
  have "refresh_tables ts = Inr ts" if "list_all2 (fresh_table col o') js ts" for col o' js ts
    using that by (induction rule: list_all2_induct) (simp_all add: fresh_table_def ValueTable_refresh_metadata_def)
  then have "refresh_tables (table_values c) = Inr (table_values c)"
    using Cons.hyps by (auto simp: fresh_column_def Let_def)
  then show ?case using Cons.IH by (simp add: Column_refresh_metadata_def)
qed simp

text \<open>A directory in which no database has been created.\<close>

definition empty_disk :: "Disk \<Rightarrow> bool" where
  "empty_disk disk \<longleftrightarrow>
     dk_metadata disk = None \<and> dk_index disk = (\<lambda>_. None) \<and> dk_value disk = (\<lambda>_. None) \<and>
     dk_names disk = [] \<and> \<not> dk_locked disk"

definition salt_of :: "Salt \<Rightarrow> Options \<Rightarrow> Salt" where
  "salt_of random options = (case op_salt options of Some s \<Rightarrow> s | None \<Rightarrow> random)"

lemma open_inner_fresh:
  assumes disk: "empty_disk disk" and n: "length (op_columns options) \<le> 256"
    and valid: "Options_is_valid options" "list_all sizes_ok (op_columns options)"
  obtains d disk' cs where
    "DbInner_open cr random options (InternalOptions_default\<lparr>io_create := True\<rparr>) disk = Inr (d, disk')"
    "dk_metadata disk' = Some (Options_write_metadata (cr_hex_encode cr) options (salt_of random options))"
    "db_metadata d = \<lparr>md_salt = salt_of random options, md_version = CURRENT_VERSION, md_columns = op_columns options\<rparr>"
    "list_all2 (fresh_column options (db_metadata d)) [0..<length (op_columns options)] (db_columns d)"
    "db_commit_queue d = \<lparr>cq_record_id = 0, cq_bytes = 0, cq_commits = []\<rparr>"
    "db_commit_overlay d = map (\<lambda>_. []) (op_columns options)" "db_bg_err d = None" "db_shutdown d = False"
    "lg_overlays (db_log d) = LogOverlays_default" "log_ids (db_log d) = []" "lg_replay_queue (db_log d) = []"
    "lg_reading (db_log d) = None"
proof -
  let ?io = "InternalOptions_default\<lparr>io_create := True\<rparr>"
  define md where "md = \<lparr>md_salt = salt_of random options, md_version = CURRENT_VERSION, md_columns = op_columns options\<rparr>"
  define disk1 where "disk1 = disk\<lparr>dk_exists := True, dk_locked := True\<rparr>"
  have meta: "Options_load_and_validate_metadata (cr_hex_encode cr) (cr_hex_decode cr) random options True None =
      Inr (md, Some (Options_write_metadata (cr_hex_encode cr) options (salt_of random options)))"
    by (simp add: Options_load_and_validate_metadata_def Options_load_metadata_def md_def salt_of_def Let_def)
  obtain lg where lg: "Log_open (op_path options) (op_sync_wal options) [] (dk_logs disk) = Inr lg"
      "lg_overlays lg = LogOverlays_default" "log_ids lg = []" "lg_replay_queue lg = []" "lg_reading lg = None"
    by (simp add: Log_open_def log_ids_def pipeline_def)
  obtain cs where cs: "open_columns options md disk1 [0..<length (op_columns options)] = Inr cs"
      "list_all2 (fresh_column options md) [0..<length (op_columns options)] cs"
    using open_columns_fresh [of md disk1 "[0..<length (op_columns options)]" options] disk n valid
    by (auto simp: md_def disk1_def empty_disk_def Options_is_valid_def list_all_iff)
  have io: "io_create ?io" "\<not> io_skip_check_lock ?io" by (simp_all add: InternalOptions_default_def)
  obtain d disk' where "DbInner_open cr random options ?io disk = Inr (d, disk')" "dk_metadata disk' =
        Some (Options_write_metadata (cr_hex_encode cr) options (salt_of random options))"
      "db_metadata d = md" "db_columns d = cs" "db_commit_queue d = \<lparr>cq_record_id = 0, cq_bytes = 0, cq_commits = []\<rparr>"
      "db_commit_overlay d = map (\<lambda>_. []) (op_columns options)" "db_bg_err d = None" "db_shutdown d = False" "db_log d = lg"
    using disk cs(1) by (simp add: DbInner_open_def io empty_disk_def meta lg(1) disk1_def Let_def md_def)
  then show thesis using that lg cs(2) by (simp add: md_def)
qed

lemma default_no_index: "LogOverlays_with_index LogOverlays_default u ci = None"
  by (simp add: LogOverlays_with_index_def LogOverlays_default_def)

lemma fresh_db_holds:
  assumes cs: "list_all2 (fresh_column options (db_metadata d)) [0..<n] (db_columns d)" and n: "n \<le> 256"
    and valid: "\<And>i. i < n \<Longrightarrow> ColumnOptions_is_valid (md_columns (db_metadata d) ! i)"
    and ov: "lg_overlays (db_log d) = LogOverlays_default"
  shows "db_holds cr d (replicate n Map.empty)"
proof -
  have len: "length (db_columns d) = n" using list_all2_lengthD [OF cs] by simp
  have "q_with_index (LogWriter_query (db_writer d)) u ci = None" for u ci
    by (simp add: LogOverlays_query_def ov default_no_index)
  moreover have "writer_stored (db_writer d) u j = None" for u j
    by (simp add: writer_stored_def overlays_stored_def ov LogOverlays_default_def)
  ultimately have "column_holds (cr_codecs cr) (db_columns d ! i) (db_writer d) Map.empty" if "i < n" for i
    using fresh_column_holds [of options "db_metadata d" i "db_columns d ! i" "db_writer d"] list_all2_nthD2 [OF cs, of i]
      that len valid by simp
  then show ?thesis
    using fresh_columns_apart [OF cs n] len by (simp add: db_holds_def columns_hold_def)
qed

lemma create_fresh:
  assumes "empty_disk disk" and "length (op_columns options) \<le> 256"
    and "Options_is_valid options" and "list_all sizes_ok (op_columns options)"
  obtains db disk' where "Db_open_or_create cr random options disk = Inr (db, disk')"
    "db_holds cr (dd_inner db) (replicate (length (op_columns options)) Map.empty)"
    "queue_inv (dd_inner db)" "log_inv (db_log (dd_inner db))" "\<not> db_shutdown (dd_inner db)" "db_bg_err (dd_inner db) = None"
    "map kind_of (db_columns (dd_inner db)) =
       map (\<lambda>o'. (co_ref_counted o', co_preimage o', co_uniform o', salt_of random options, CURRENT_VERSION)) (op_columns options)"
    "\<forall>c \<in> set (db_columns (dd_inner db)). col_collect_stats c = op_stats options"
    "md_columns (db_metadata (dd_inner db)) = op_columns options"
    "db_commit_overlay (dd_inner db) = map (\<lambda>_. []) (op_columns options)"
    "dk_metadata disk' = Some (Options_write_metadata (cr_hex_encode cr) options (salt_of random options))"
proof -
  let ?n = "length (op_columns options)" and ?io = "InternalOptions_default\<lparr>io_create := True\<rparr>"
  obtain d disk' where d: "DbInner_open cr random options ?io disk = Inr (d, disk')"
      "dk_metadata disk' = Some (Options_write_metadata (cr_hex_encode cr) options (salt_of random options))"
      "db_metadata d = \<lparr>md_salt = salt_of random options, md_version = CURRENT_VERSION, md_columns = op_columns options\<rparr>"
      "list_all2 (fresh_column options (db_metadata d)) [0..<?n] (db_columns d)"
      "db_commit_queue d = \<lparr>cq_record_id = 0, cq_bytes = 0, cq_commits = []\<rparr>"
      "db_commit_overlay d = map (\<lambda>_. []) (op_columns options)" "db_bg_err d = None" "db_shutdown d = False"
      "lg_overlays (db_log d) = LogOverlays_default" "log_ids (db_log d) = []" "lg_replay_queue (db_log d) = []"
      "lg_reading (db_log d) = None"
    by (rule open_inner_fresh [OF assms])
  define d' where "d' = d\<lparr>db_log := (db_log d)\<lparr>lg_reading_state := Idle\<rparr>\<rparr>"
  have "DbInner_replay_all_logs cr d = Inr d'"
    using refresh_fresh [OF d(4)] by (simp add: DbInner_replay_all_logs_def d(11,12) Log_replay_next_def d'_def Let_def)
  then obtain db where db: "Db_open_or_create cr random options disk = Inr (db, disk')" "dd_inner db = d'"
    using d(1) assms(3) by (simp add: Db_open_or_create_def Db_open_inner_def InternalOptions_default_def Let_def)
  have "db_holds cr d' (replicate ?n Map.empty)"
    by (rule fresh_db_holds [where options = options])
       (use d(3,4,9) assms(2,3) in \<open>simp_all add: d'_def Options_is_valid_def list_all_length\<close>)
  moreover have "queue_inv d'" by (simp add: d'_def queue_inv_def d(3,5,6) numbered_def)
  moreover have "log_inv (db_log d')" using d(10) by (simp add: d'_def log_inv_def log_ids_def pipeline_def)
  moreover have "map kind_of (db_columns d') =
      map (\<lambda>o'. (co_ref_counted o', co_preimage o', co_uniform o', salt_of random options, CURRENT_VERSION)) (op_columns options)"
    using list_all2_lengthD [OF d(4)] list_all2_nthD2 [OF d(4)]
    by (intro nth_equalityI) (simp_all add: d'_def fresh_column_def Let_def d(3))
  moreover have "\<forall>c \<in> set (db_columns d'). col_collect_stats c = op_stats options"
    using list_all2_in [OF d(4)] by (auto simp: d'_def fresh_column_def Let_def)
  ultimately show thesis using that db d(2,3,6,7,8) by (simp add: d'_def)
qed

section \<open>Properties\<close>

text \<open>
  C8: creating a database in an empty directory succeeds for all options with valid sizes. The state it
  starts with is well formed: every column holds the empty map and has the kind its options ask for, no two
  columns share a table, the commit overlay agrees with the (empty) queue, every log file is in one stage,
  and the metadata file has been written.
\<close>

theorem db_create:
  assumes "empty_disk disk" and "length (op_columns options) \<le> 256"
    and "Options_is_valid options" and "list_all sizes_ok (op_columns options)"
  shows "\<exists>db disk'. Db_open_or_create cr random options disk = Inr (db, disk') \<and>
     db_holds cr (dd_inner db) (replicate (length (op_columns options)) Map.empty) \<and>
     queue_inv (dd_inner db) \<and> log_inv (db_log (dd_inner db)) \<and> \<not> db_shutdown (dd_inner db) \<and>
     map kind_of (db_columns (dd_inner db)) =
       map (\<lambda>o'. (co_ref_counted o', co_preimage o', co_uniform o', salt_of random options, CURRENT_VERSION)) (op_columns options) \<and>
     dk_metadata disk' = Some (Options_write_metadata (cr_hex_encode cr) options (salt_of random options))"
  by (rule create_fresh [OF assms, of cr random]) simp

definition sample_dir :: Disk where
  "sample_dir = \<lparr>dk_exists = False, dk_locked = False, dk_metadata = None, dk_index = (\<lambda>_. None),
     dk_value = (\<lambda>_. None), dk_names = [], dk_logs = (\<lambda>_. None)\<rparr>"

theorem db_create_witness:
  "\<exists>db disk'. Db_open_or_create sample_crates sample_salt sample_options sample_dir = Inr (db, disk') \<and>
     db_holds sample_crates (dd_inner db) [Map.empty, Map.empty] \<and> queue_inv (dd_inner db)"
proof -
  have "empty_disk sample_dir" by (simp add: empty_disk_def sample_dir_def)
  moreover have "length (op_columns sample_options) = 2" "Options_is_valid sample_options"
      "list_all sizes_ok (op_columns sample_options)"
    by (simp_all add: sample_options_def sample_columns_def Options_is_valid_def ColumnOptions_is_valid_def SIZE_TIERS_def
        sizes_ok_def MIN_ENTRY_SIZE_def MAX_ENTRY_SIZE_def COMPRESSED_MASK_def word_le_nat_alt)
  ultimately show ?thesis
    using db_create [of sample_dir sample_options sample_crates sample_salt] by (auto simp: numeral_2_eq_2)
qed

end
