(* ===== verification/Column_Iter.thy ===== *)
theory Column_Iter
  imports Column_Correct
begin

text \<open>
  Iterating over a column. The entries of the index are walked chunk by chunk; the key of an entry is put
  together from the number of its chunk, the key bits it holds and the partial key of the stored value.
  The iteration is shown to visit every stored key once, with its counter and its value.
\<close>

section \<open>The entries of a chunk\<close>

lemma entries_view:
  assumes ok: "it_ok t q" and ci: "unat ci < 2 ^ unat (ibits t)"
  shows "IndexTable_entries t ci q = Inr (map (IndexTable_read_entry (chunk_view t q ci)) [0..<CHUNK_ENTRIES])"
proof (cases "q_with_index q (it_id t) ci")
  case None
  have b: "bits_ok (ibits t)" using ok by (simp add: it_ok_def)
  show ?thesis
  proof (cases "it_map t")
    case (Some mp)
    then have "flen mp = unat (file_size (ibits t))" using ok by (simp add: it_ok_def)
    then show ?thesis
      using None Some chunk_in_map(2) [OF b ci]
      by (simp add: IndexTable_entries_def IndexTable_chunk_at_def IndexTable_transmute_chunk_def chunk_view_def)
  qed (use None in \<open>simp add: IndexTable_entries_def IndexTable_transmute_chunk_def chunk_view_def\<close>)
qed (simp add: IndexTable_entries_def IndexTable_transmute_chunk_def chunk_view_def)

text \<open>Every chunk and every key material belong to a key.\<close>

lemma material_small:
  assumes "bits_ok b" and "bit (IndexEntry_key_material e b) i"
  shows "i < 50 - unat b"
proof -
  have "unat (IndexEntry_address_bits b) = unat b + 14"
    using assms(1) by (rule unat_address_bits)
  then show ?thesis
    using assms by (auto simp: IndexEntry_key_material_def bit_shr bits_ok_def dest: bit_imp_le_length)
qed

lemma key_of_entry:
  assumes b: "bits_ok (ibits t)" and ci: "unat ci < 2 ^ unat (ibits t)"
  obtains k where "length k = KEY_LEN" "IndexTable_chunk_index t (key_prefix k) = ci"
    "IndexEntry_key_material e (ibits t) = IndexEntry_extract_key (key_prefix k) (ibits t)"
proof -
  let ?b = "unat (ibits t)" and ?m = "IndexEntry_key_material e (ibits t)"
  define p where "p = shl ci (64 - ?b) OR shl ?m 14"
  have ib: "0 < ?b" "?b \<le> 49" using b by (simp_all add: bits_ok_def)
  have hi: "bit ci i \<Longrightarrow> i < ?b" for i using small_no_bit [OF ci, of i] by (meson not_le)
  have pb: "bit p i \<longleftrightarrow> i < 64 \<and> (if 64 - ?b \<le> i then bit ci (i - (64 - ?b)) else 14 \<le> i \<and> bit ?m (i - 14))" for i
    using material_small [OF b, of e "i - 14"] ib by (auto simp: p_def bit_or_iff bit_shl)
  have "IndexTable_chunk_index t p = ci"
  proof (rule bit_word_eqI)
    fix i :: nat
    have "64 - ?b + i < 64" if "bit ci i" using hi [OF that] ib by linarith
    then show "bit (IndexTable_chunk_index t p) i = bit ci i" using ib by (auto simp: bit_chunk_index [OF b] pb)
  qed
  moreover have "?m = IndexEntry_extract_key p (ibits t)"
  proof (rule bit_word_eqI)
    fix i :: nat
    have "i + ?b < 50 \<and> \<not> 64 - ?b \<le> 14 + i" if "bit ?m i" using material_small [OF b that] by linarith
    then show "bit ?m i = bit (IndexEntry_extract_key p (ibits t)) i"
      using ib by (auto simp: bit_extract_key [OF b] pb)
  qed
  moreover have "key_prefix (to_be 8 p @ replicate 24 0) = p"
    by (simp add: key_prefix_def slice_of_def)
  ultimately show thesis using that [of "to_be 8 p @ replicate 24 0"] by (simp add: KEY_LEN_def)
qed

section \<open>The items of a column\<close>

text \<open>What a closure computes that is handed the items one by one until it returns \<open>false\<close>.\<close>

primrec run_items :: "('s \<Rightarrow> 'i \<Rightarrow> bool \<times> 's) \<Rightarrow> 'i list \<Rightarrow> 's \<Rightarrow> bool \<times> 's" where
  "run_items f [] s = (True, s)"
| "run_items f (x # xs) s = (let (go_on, s) = f s x in if go_on then run_items f xs s else (False, s))"

lemma run_items_append:
  "run_items f (xs @ ys) s = (let (go_on, s) = run_items f xs s in if go_on then run_items f ys s else (False, s))"
  by (induction xs arbitrary: s) (auto split: prod.split)

abbreviation entry_at :: "Column \<Rightarrow> LogWriter \<Rightarrow> u64 \<times> nat \<Rightarrow> IndexEntry" where
  "entry_at c w p \<equiv> IndexTable_read_entry (chunk_view (table_index c) (LogWriter_query w) (fst p)) (snd p)"

definition positions :: "Column \<Rightarrow> LogWriter \<Rightarrow> u64 list \<Rightarrow> (u64 \<times> nat) list" where
  "positions c w chs = filter (\<lambda>p. \<not> IndexEntry_is_empty (entry_at c w p)) (List.product chs [0..<CHUNK_ENTRIES])"

definition item_at :: "Codecs \<Rightarrow> Column \<Rightarrow> LogWriter \<Rightarrow> (nat \<Rightarrow> contents) \<Rightarrow> u64 \<times> nat \<Rightarrow> IterState" where
  "item_at cd c w S p =
     (let e = entry_at c w p; v = the (stores (table_values c) S (IndexEntry_address e (ibits (table_index c))))
      in \<lparr>is_chunk_index = fst p,
          is_key = overwrite 6 (st_key v) (IndexTable_recover_key_prefix (table_index c) (fst p) e),
          is_rc = st_rc v, is_value = projr (plain cd (col_compression c) v)\<rparr>)"

text \<open>An entry that is not empty is the entry of a stored key.\<close>

lemma entry_owner:
  assumes rep: "column_rep cd c w S M" and ci: "unat ci < 2 ^ unat (ibits (table_index c))" and i: "i < CHUNK_ENTRIES"
    and e: "e = entry_at c w (ci, i)" "\<not> IndexEntry_is_empty e"
  obtains k v where "length k = KEY_LEN" "IndexTable_chunk_index (table_index c) (key_prefix k) = ci"
    "hit (lookups (table_index c) (LogWriter_query w)) (stores (table_values c) S) k i
       (IndexEntry_address e (ibits (table_index c))) v"
    "overwrite 6 (st_key v) (IndexTable_recover_key_prefix (table_index c) ci e) = k"
proof -
  let ?t = "table_index c" and ?q = "LogWriter_query w"
  note r = column_repD [OF rep]
  have b: "bits_ok (ibits ?t)" using r(2) by (simp add: it_ok_def)
  obtain k0 where k0: "length k0 = KEY_LEN" "IndexTable_chunk_index ?t (key_prefix k0) = ci"
      "IndexEntry_key_material e (ibits ?t) = IndexEntry_extract_key (key_prefix k0) (ibits ?t)"
    by (rule key_of_entry [OF b ci])
  have "lookups ?t ?q k0 i = Some (IndexEntry_address e (ibits ?t))"
    using k0 i e by (simp add: lookups_def cand_def Let_def)
  then obtain k v where k: "length k = KEY_LEN" "same_bucket ?t k0 k"
      "hit (lookups ?t ?q) (stores (table_values c) S) k i (IndexEntry_address e (ibits ?t)) v"
    by (rule sound_owner [OF r(5) k0(1), unfolded r(8)])
  then have kk: "IndexTable_chunk_index ?t (key_prefix k) = ci"
      "IndexEntry_key_material e (ibits ?t) = IndexEntry_extract_key (key_prefix k) (ibits ?t)"
    using k0 by (simp_all add: same_bucket_def)
  have "overwrite 6 (st_key v) (IndexTable_recover_key_prefix ?t ci e) = k"
    using recover_and_partial [OF b k(1) kk(2)] kk(1) k(3) by (simp add: hit_def)
  then show thesis using that k kk by blast
qed

lemma position_item:
  assumes rep: "column_rep cd c w S M" and ci: "unat ci < 2 ^ unat (ibits (table_index c))"
    and p: "(ci, i) \<in> set (positions c w chs)"
  obtains k v where "length k = KEY_LEN" "IndexTable_chunk_index (table_index c) (key_prefix k) = ci"
    "hit (lookups (table_index c) (LogWriter_query w)) (stores (table_values c) S) k i
       (IndexEntry_address (entry_at c w (ci, i)) (ibits (table_index c))) v"
    "item_at cd c w S (ci, i) =
       \<lparr>is_chunk_index = ci, is_key = k, is_rc = st_rc v, is_value = projr (plain cd (col_compression c) v)\<rparr>"
proof -
  let ?e = "entry_at c w (ci, i)"
  have e: "i < CHUNK_ENTRIES" "\<not> IndexEntry_is_empty ?e" using p by (auto simp: positions_def)
  obtain k v where kv: "length k = KEY_LEN" "IndexTable_chunk_index (table_index c) (key_prefix k) = ci"
    "hit (lookups (table_index c) (LogWriter_query w)) (stores (table_values c) S) k i
       (IndexEntry_address ?e (ibits (table_index c))) v"
    "overwrite 6 (st_key v) (IndexTable_recover_key_prefix (table_index c) ci ?e) = k"
    by (rule entry_owner [OF rep ci e(1) refl e(2)])
  then show thesis using that by (simp add: item_at_def Let_def hit_def)
qed

section \<open>Walking the index\<close>

text \<open>The closure \<open>iter_while\<close> passes on.\<close>

definition on_item :: "('s \<Rightarrow> IterState \<Rightarrow> bool \<times> 's) \<Rightarrow> 's \<Rightarrow> IterStateOrCorrupted \<Rightarrow> bool res \<times> 's" where
  "on_item f s state = (case state of
     Item item \<Rightarrow> (let (go_on, s) = f s item in (Inr go_on, s))
   | Corrupted _ _ \<Rightarrow> (Inl (Err (Corruption ''Missing indexed value'')), s))"

lemma iter_entry_item:
  assumes rep: "column_rep cd c w S M" and ci: "unat ci < 2 ^ unat (ibits (table_index c))"
    and p: "(ci, i) \<in> set (positions c w chs)" and c: "\<not> col_preimage c" "4 \<le> col_db_version c"
  shows "iter_entry cd c (LogWriter_query w) (on_item f) True ci (entry_at c w (ci, i)) s = Inr (f s (item_at cd c w S (ci, i)))"
proof -
  let ?e = "entry_at c w (ci, i)" let ?a = "IndexEntry_address ?e (ibits (table_index c))"
  note r = column_repD [OF rep]
  have e: "i < CHUNK_ENTRIES" "\<not> IndexEntry_is_empty ?e" using p by (auto simp: positions_def)
  obtain k v where kv: "length k = KEY_LEN"
      "hit (lookups (table_index c) (LogWriter_query w)) (stores (table_values c) S) k i ?a v"
    by (rule position_item [OF rep ci p])
  then have "M k = Some v" using holdsD [OF r(6) kv(1)] by blast
  then obtain x where x: "plain cd (col_compression c) v = Inr x" using r(7) [OF kv(1)] by blast
  have v: "stores (table_values c) S ?a = Some v" using kv(2) by (simp add: hit_def)
  then have tier: "unat (Address_size_tier ?a) < length (table_values c)"
      "S (unat (Address_size_tier ?a)) (Address_offset ?a) = Some v"
    by (auto simp: stores_def split: if_splits)
  note get = get_represents(2) [OF tables_rep_at(1) [OF r(1) tier(1)] tier(2)]
  show ?thesis
    using e(2) c tier(1) get v x
    by (auto simp: iter_entry_def entry_location_def value_at_def Let_def item_at_def plain_def Column_decompress_def
        on_item_def split: prod.split if_splits)
qed

lemma iter_entry_empty: "IndexEntry_is_empty e \<Longrightarrow> iter_entry cd c q f skip ci e s = Inr (True, s)"
  by (simp add: iter_entry_def)

lemma iter_entries_run:
  assumes "\<And>i s. i \<in> set is \<Longrightarrow> \<not> IndexEntry_is_empty (E i) \<Longrightarrow> g s (E i) = Inr (f s (h i))"
    and "\<And>i s. IndexEntry_is_empty (E i) \<Longrightarrow> g s (E i) = Inr (True, s)"
  shows "iter_entries g (map E is) s = Inr (run_items f (map h (filter (\<lambda>i. \<not> IndexEntry_is_empty (E i)) is)) s)"
  using assms(1)
proof (induction "is" arbitrary: s)
  case (Cons i "is")
  then show ?case using assms(2) [of i s] by (auto split: prod.split)
qed simp

lemma iter_chunks_run:
  assumes rep: "column_rep cd c w S M" and c: "\<not> col_preimage c" "4 \<le> col_db_version c"
  shows "(\<forall>ci \<in> set chs. unat ci < 2 ^ unat (ibits (table_index c))) \<Longrightarrow>
     iter_chunks cd c (LogWriter_query w) (on_item f) True chs s =
       Inr (snd (run_items f (map (item_at cd c w S) (positions c w chs)) s))"
proof (induction chs arbitrary: s)
  case (Cons ci chs)
  let ?is = "filter (\<lambda>i. \<not> IndexEntry_is_empty (entry_at c w (ci, i))) [0..<CHUNK_ENTRIES]"
  have ci: "unat ci < 2 ^ unat (ibits (table_index c))" using Cons.prems by simp
  have pos: "positions c w (ci # chs) = map (Pair ci) ?is @ positions c w chs"
    by (simp add: positions_def filter_map comp_def)
  have "iter_entries (\<lambda>s e. iter_entry cd c (LogWriter_query w) (on_item f) True ci e s)
      (map (IndexTable_read_entry (chunk_view (table_index c) (LogWriter_query w) ci)) [0..<CHUNK_ENTRIES]) s =
      Inr (run_items f (map (\<lambda>i. item_at cd c w S (ci, i)) ?is) s)"
  proof (simp only: fst_conv snd_conv, rule iter_entries_run)
    fix i s assume "i \<in> set [0..<CHUNK_ENTRIES]"
      "\<not> IndexEntry_is_empty (IndexTable_read_entry (chunk_view (table_index c) (LogWriter_query w) ci) i)"
    then have "(ci, i) \<in> set (positions c w [ci])" by (simp add: positions_def)
    from iter_entry_item [OF rep ci this c]
    show "iter_entry cd c (LogWriter_query w) (on_item f) True ci
        (IndexTable_read_entry (chunk_view (table_index c) (LogWriter_query w) ci) i) s = Inr (f s (item_at cd c w S (ci, i)))"
      by simp
  qed (rule iter_entry_empty)
  then show ?case
    using entries_view [OF column_repD(2) [OF rep] ci] Cons
    by (auto simp: pos run_items_append comp_def split: prod.split)
qed (simp add: positions_def)

text \<open>The iteration, and what its items are.\<close>

lemma iter_while_run:
  assumes rep: "column_rep cd c w S M" and c: "\<not> col_preimage c" "4 \<le> col_db_version c"
  shows "Column_iter_while cd blake2b c (LogWriter_query w) f s =
     Inr (snd (run_items f (map (item_at cd c w S)
       (positions c w (map of_nat [0..<2 ^ unat (ibits (table_index c))]))) s))"
proof -
  let ?n = "2 ^ unat (ibits (table_index c)) :: nat"
  have b: "bits_ok (ibits (table_index c))" using column_repD(2) [OF rep] by (simp add: it_ok_def)
  have n: "unat (ITableId_total_chunks (it_id (table_index c))) = ?n" "?n < 2 ^ 64"
    using unat_chunks [OF b] by (simp_all add: ITableId_total_chunks_def)
  have small: "\<forall>ci \<in> set (map of_nat [0..<?n]). unat (ci :: u64) < ?n"
    using n(2) by (auto simp: unat_of_nat_small)
  have "on_item f = (\<lambda>s state. case state of
       Item item \<Rightarrow> (let (go_on, s) = f s item in (Inr go_on, s))
     | Corrupted _ _ \<Rightarrow> (Inl (Err (Corruption ''Missing indexed value'')), s))"
    by (intro ext) (simp add: on_item_def)
  then show ?thesis
    using iter_chunks_run [OF rep c small, of f s] c(1) n(1)
    by (simp add: Column_iter_while_def Column_iter_while_inner_def)
qed

lemma all_positions:
  "(ci, i) \<in> set (positions c w (map of_nat [0..<2 ^ unat (ibits (table_index c))])) \<Longrightarrow>
     bits_ok (ibits (table_index c)) \<Longrightarrow> unat ci < 2 ^ unat (ibits (table_index c))"
  using unat_chunks(3) [of "ibits (table_index c)"] by (auto simp: positions_def unat_of_nat_small)

lemma items_hits:
  assumes rep: "column_rep cd c w S M" and k: "length k = KEY_LEN"
  shows "(\<exists>x \<in> set (map (item_at cd c w S) (positions c w (map of_nat [0..<2 ^ unat (ibits (table_index c))]))).
     is_key x = k \<and> is_rc x = n \<and> is_value x = y) \<longleftrightarrow>
     (\<exists>v. M k = Some v \<and> st_rc v = n \<and> projr (plain cd (col_compression c) v) = y)"
    (is "(\<exists>x \<in> set (map _ ?ps). _) \<longleftrightarrow> _")
proof
  let ?t = "table_index c" let ?L = "lookups ?t (LogWriter_query w)" and ?A = "stores (table_values c) S"
  note r = column_repD [OF rep]
  have b: "bits_ok (ibits ?t)" using r(2) by (simp add: it_ok_def)
  {
    assume "\<exists>x \<in> set (map (item_at cd c w S) ?ps). is_key x = k \<and> is_rc x = n \<and> is_value x = y"
    then obtain ci i where p: "(ci, i) \<in> set ?ps" and x: "is_key (item_at cd c w S (ci, i)) = k"
        "is_rc (item_at cd c w S (ci, i)) = n" "is_value (item_at cd c w S (ci, i)) = y" by auto
    obtain k' v where "length k' = KEY_LEN" "hit ?L ?A k' i (IndexEntry_address (entry_at c w (ci, i)) (ibits ?t)) v"
        "item_at cd c w S (ci, i) =
           \<lparr>is_chunk_index = ci, is_key = k', is_rc = st_rc v, is_value = projr (plain cd (col_compression c) v)\<rparr>"
      by (rule position_item [OF rep all_positions [OF p b] p])
    moreover from this have "M k' = Some v" using holdsD [OF r(6)] by blast
    ultimately show "\<exists>v. M k = Some v \<and> st_rc v = n \<and> projr (plain cd (col_compression c) v) = y" using x by auto
  }
  {
    assume "\<exists>v. M k = Some v \<and> st_rc v = n \<and> projr (plain cd (col_compression c) v) = y"
    then obtain v i a where v: "hit ?L ?A k i a v" "st_rc v = n" "projr (plain cd (col_compression c) v) = y"
      using holdsD [OF r(6) k] by blast
    define ci where "ci = IndexTable_chunk_index ?t (key_prefix k)"
    have ci: "unat ci < 2 ^ unat (ibits ?t)" unfolding ci_def by (rule chunk_index_less [OF b])
    then have ci': "ci \<in> of_nat ` {0..<2 ^ unat (ibits ?t)}" by (intro image_eqI [of _ _ "unat ci"]) auto
    have at: "i < CHUNK_ENTRIES" "\<not> IndexEntry_is_empty (entry_at c w (ci, i))"
        "IndexEntry_address (entry_at c w (ci, i)) (ibits ?t) = a"
        "IndexEntry_key_material (entry_at c w (ci, i)) (ibits ?t) = IndexEntry_extract_key (key_prefix k) (ibits ?t)"
      using v(1) by (auto simp: hit_def lookups_def cand_def ci_def Let_def split: if_splits)
    have p: "(ci, i) \<in> set ?ps" using at(1,2) ci' by (simp add: positions_def)
    have "item_at cd c w S (ci, i) = \<lparr>is_chunk_index = ci, is_key = k, is_rc = n, is_value = y\<rparr>"
      using v at(3) recover_and_partial [OF b k at(4)] by (simp add: item_at_def Let_def hit_def ci_def)
    then show "\<exists>x \<in> set (map (item_at cd c w S) ?ps). is_key x = k \<and> is_rc x = n \<and> is_value x = y"
      using p by (metis (no_types) IterState.select_convs(2-4) image_eqI list.set_map)
  }
qed

lemma items_distinct:
  assumes rep: "column_rep cd c w S M"
  shows "distinct (map is_key (map (item_at cd c w S) (positions c w (map of_nat [0..<2 ^ unat (ibits (table_index c))]))))"
    and "x \<in> set (map (item_at cd c w S) (positions c w (map of_nat [0..<2 ^ unat (ibits (table_index c))]))) \<Longrightarrow>
      length (is_key x) = KEY_LEN"
proof -
  let ?t = "table_index c" let ?ps = "positions c w (map of_nat [0..<2 ^ unat (ibits ?t)])"
  let ?L = "lookups ?t (LogWriter_query w)" and ?A = "stores (table_values c) S"
  note r = column_repD [OF rep]
  have b: "bits_ok (ibits ?t)" using r(2) by (simp add: it_ok_def)
  have pos: "\<exists>v a. length (is_key (item_at cd c w S (ci, i))) = KEY_LEN \<and>
      IndexTable_chunk_index ?t (key_prefix (is_key (item_at cd c w S (ci, i)))) = ci \<and>
      hit ?L ?A (is_key (item_at cd c w S (ci, i))) i a v" if "(ci, i) \<in> set ?ps" for ci i
    using position_item [OF rep all_positions [OF that b] that] by (metis IterState.select_convs(2))
  have "inj_on (\<lambda>p. is_key (item_at cd c w S p)) (set ?ps)"
  proof (rule inj_onI, clarify)
    fix ci i cj j assume "(ci, i) \<in> set ?ps" "(cj, j) \<in> set ?ps"
      "is_key (item_at cd c w S (ci, i)) = is_key (item_at cd c w S (cj, j))"
    then show "ci = cj \<and> i = j" using pos sound_unique [OF r(5)] by metis
  qed
  moreover have "distinct ?ps"
  proof -
    have "inj_on (of_nat :: nat \<Rightarrow> u64) {0..<2 ^ unat (ibits ?t)}"
    proof (rule inj_onI)
      fix x y :: nat assume "x \<in> {0..<2 ^ unat (ibits ?t)}" "y \<in> {0..<2 ^ unat (ibits ?t)}" "(of_nat x :: u64) = of_nat y"
      moreover have "n < 2 ^ LENGTH(64)" if "n < 2 ^ unat (ibits ?t)" for n :: nat
      proof -
        have "n < 2 ^ 64" using unat_chunks(3) [OF b] that by linarith
        then show ?thesis by simp
      qed
      ultimately show "x = y" by (metis atLeastLessThan_iff unat_of_nat_small)
    qed
    then show ?thesis by (simp add: positions_def distinct_product distinct_map)
  qed
  ultimately show "distinct (map is_key (map (item_at cd c w S) ?ps))" by (simp add: distinct_map comp_def)
  show "length (is_key x) = KEY_LEN" if "x \<in> set (map (item_at cd c w S) ?ps)" using that pos by auto
qed

lemma column_items:
  assumes "column_holds cd c w m" and "\<not> col_preimage c" and "4 \<le> col_db_version c"
  obtains items where
    "\<And>f (s :: 's). Column_iter_while cd blake2b c (LogWriter_query w) f s = Inr (snd (run_items f items s))"
    "distinct (map is_key items)" "\<And>x. x \<in> set items \<Longrightarrow> length (is_key x) = KEY_LEN"
    "\<And>k n v. length k = KEY_LEN \<Longrightarrow>
       m k = Some (n, v) \<longleftrightarrow> (\<exists>x \<in> set items. is_key x = k \<and> is_rc x = n \<and> is_value x = v)"
proof -
  obtain S M where rep: "column_rep cd c w S M"
    and m: "\<And>k. length k = KEY_LEN \<Longrightarrow> m k = stored_view cd (col_compression c) (M k)"
    using assms(1) unfolding column_holds_def by blast
  have "m k = Some (n, v) \<longleftrightarrow> (\<exists>u. M k = Some u \<and> st_rc u = n \<and> projr (plain cd (col_compression c) u) = v)"
    if "length k = KEY_LEN" for k n v using m [OF that] by (auto simp: stored_view_def)
  then show thesis
    using that [OF iter_while_run [OF rep assms(2,3)] items_distinct [OF rep]] items_hits [OF rep] by simp
qed

section \<open>Properties\<close>


lemma write_one:
  "\<exists>r c w. Column_write_plan zero_codecs sample_col sample_hash (Some [7]) fresh_writer = Inr (r, c, w) \<and>
     column_holds zero_codecs c w [sample_hash \<mapsto> (1, [7])] \<and> \<not> col_preimage c \<and> col_db_version c = 5"
proof -
  obtain r c w where p: "Column_write_plan zero_codecs sample_col sample_hash (Some [7]) fresh_writer = Inr (r, c, w)"
      "column_holds zero_codecs c w (column_update (col_ref_counted sample_col) (col_preimage sample_col) sample_hash (Some [7]) Map.empty)"
      "col_step sample_col fresh_writer c w"
    using write_plan_holds [OF zero_codecs_ok sample_col_holds sample_col_ready, of "[7]"] by auto
  then have "\<not> col_preimage c" "col_db_version c = 5" by (simp_all add: col_step_def sample_col_def)
  with p(1,2) show ?thesis by (simp add: column_update_def sample_col_def)
qed


end
