(* ===== verification/Migrate.thy ===== *)
theory Migrate
  imports Db_Fresh Column_Iter
begin

text \<open>
  Migration (\<open>src/migration.rs\<close>). The columns whose options change are read from the source database and
  committed to a destination database in batches; the files of the other columns are copied. With
  \<open>overwrite\<close> the tables of every migrated column replace those of the source.

  The threads of the destination run beside the migration. \<open>bg\<close> is what they do until a commit proceeds,
  \<open>join\<close> what all threads of a database do from a shutdown until they have ended; both belong to the
  scheduler. A directory is a \<open>Disk\<close>: its table files by their identifiers. The files of a database that
  has been dropped are those its tables and its log have.
\<close>

section \<open>Closing a database\<close>

text \<open>The file of an index table; a table that has not been opened is still on \<open>col_disk\<close>.\<close>

definition index_file :: "Column \<Rightarrow> itable_id \<Rightarrow> disk_file option" where
  "index_file c tid =
     (case List.find (\<lambda>t. it_id t = tid) (tb_index (col_tables c) # rx_queue (col_reindex c)) of
        Some t \<Rightarrow> (case it_map t of Some m \<Rightarrow> Some m | None \<Rightarrow> col_disk c tid)
      | None \<Rightarrow> col_disk c tid)"

definition value_file :: "Column \<Rightarrow> vtable_id \<Rightarrow> disk_file option" where
  "value_file c tid =
     (case List.find (\<lambda>t. vt_id t = tid) (tb_value (col_tables c)) of
        Some t \<Rightarrow> tf_file (vt_file t)
      | None \<Rightarrow> None)"

definition closed_disk :: "DbInner \<Rightarrow> Disk \<Rightarrow> Disk" where
  "closed_disk d disk =
     disk\<lparr>dk_index := (\<lambda>tid. if unat (ITableId_col tid) < length (db_columns d)
                             then index_file (db_columns d ! unat (ITableId_col tid)) tid else dk_index disk tid),
          dk_value := (\<lambda>tid. if unat (VTableId_col tid) < length (db_columns d)
                             then value_file (db_columns d ! unat (VTableId_col tid)) tid else dk_value disk tid),
          dk_names := filter (\<lambda>n. take 3 n \<noteq> ''log'') (dk_names disk)
                        @ map (\<lambda>i. ''log'' @ dec (unat i)) (log_ids (db_log d)),
          dk_logs := lg_files (db_log d), dk_locked := False\<rparr>"

text \<open>
  \<open>drop(db)\<close>. The code only reports an error of \<open>kill_logs\<close>; what it leaves in the directory then is not
  modelled, so the error is the result.
\<close>

definition Db_drop :: "Crates \<Rightarrow> (Db \<Rightarrow> Db) \<Rightarrow> Db \<Rightarrow> Disk \<Rightarrow> Disk res" where
  "Db_drop cr join db disk =
     and_then (Db_drop_end cr (join (Db_drop_begin db))) (\<lambda>d. Inr (closed_disk d disk))"


section \<open>Moving the files of a column\<close>

definition deplace_column :: "ColId \<Rightarrow> Disk \<Rightarrow> Disk \<Rightarrow> bool \<Rightarrow> Disk \<times> Disk" where
  "deplace_column c from' to copy =
     (let index = (\<lambda>tid. ITableId_is_file_name c (ITableId_file_name tid) \<and> dk_index from' tid \<noteq> None);
          val = (\<lambda>tid. VTableId_is_file_name c (VTableId_file_name tid) \<and> dk_value from' tid \<noteq> None);
          to = to\<lparr>dk_index := (\<lambda>tid. if index tid then dk_index from' tid else dk_index to tid),
                  dk_value := (\<lambda>tid. if val tid then dk_value from' tid else dk_value to tid)\<rparr>
      in if copy then (from', to)
         else (from'\<lparr>dk_index := (\<lambda>tid. if index tid then None else dk_index from' tid),
                     dk_value := (\<lambda>tid. if val tid then None else dk_value from' tid)\<rparr>, to))"

definition move_column :: "ColId \<Rightarrow> Disk \<Rightarrow> Disk \<Rightarrow> Disk \<times> Disk" where
  "move_column c from' to = deplace_column c from' to False"

definition copy_column :: "ColId \<Rightarrow> Disk \<Rightarrow> Disk \<Rightarrow> Disk \<times> Disk" where
  "copy_column c from' to = deplace_column c from' to True"


section \<open>Committing what is read\<close>

definition COMMIT_SIZE :: nat where "COMMIT_SIZE = 10240"

record MigrateState =
  mg_dest :: Db
  mg_commit :: "operation list"
  mg_ncommits :: u64
  mg_fault :: "fault option"

text \<open>\<open>dest.commit_raw(commit)\<close>, at the moment it proceeds.\<close>

definition dest_commit :: "(Db \<Rightarrow> Db) \<Rightarrow> Db \<Rightarrow> operation list \<Rightarrow> Db res" where
  "dest_commit bg dest commit =
     (case Db_commit_raw (bg dest) commit True of Some r \<Rightarrow> r | None \<Rightarrow> Inl Diverge)"

text \<open>
  The loop \<open>for _ in 0 .. rc\<close> of the closure. \<open>mem::take\<close> leaves an empty value behind, which is what
  every iteration after the first one commits. An error ends the iteration; a panic is kept in
  \<open>mg_fault\<close>.
\<close>

primrec migrate_refs ::
    "nat \<Rightarrow> (Db \<Rightarrow> Db) \<Rightarrow> ColId \<Rightarrow> Key \<Rightarrow> bytes \<Rightarrow> MigrateState \<Rightarrow> bool \<times> MigrateState" where
  "migrate_refs 0 bg c key val s = (True, s)"
| "migrate_refs (Suc n) bg c key val s =
     (let commit = mg_commit s @ [(c, key, Some val)]
      in if length commit = COMMIT_SIZE then
           let s = s\<lparr>mg_ncommits := mg_ncommits s + 1, mg_commit := []\<rparr>
           in case dest_commit bg (mg_dest s) commit of
                Inl (Err e) \<Rightarrow> (False, s)
              | Inl e \<Rightarrow> (False, s\<lparr>mg_fault := Some e\<rparr>)
              | Inr dest \<Rightarrow> migrate_refs n bg c key [] (s\<lparr>mg_dest := dest\<rparr>)
         else migrate_refs n bg c key [] (s\<lparr>mg_commit := commit\<rparr>))"

definition migrate_item :: "(Db \<Rightarrow> Db) \<Rightarrow> ColId \<Rightarrow> MigrateState \<Rightarrow> IterState \<Rightarrow> bool \<times> MigrateState" where
  "migrate_item bg c s item = migrate_refs (unat (is_rc item)) bg c (is_key item) (is_value item) s"


section \<open>Migrating\<close>

record MigrateRun =
  mi_source :: Db
  mi_dest :: Db
  mi_from :: Disk
  mi_to :: Disk
  mi_options :: Options
  mi_commit :: "operation list"
  mi_ncommits :: u64

definition iterate_column ::
    "Crates \<Rightarrow> (Db \<Rightarrow> Db) \<Rightarrow> ColId \<Rightarrow> MigrateRun \<Rightarrow> MigrateRun res" where
  "iterate_column cr bg c m =
     and_then (Db_iter_column_while cr (mi_source m) c (migrate_item bg c)
                 \<lparr>mg_dest = mi_dest m, mg_commit = mi_commit m, mg_ncommits = mi_ncommits m, mg_fault = None\<rparr>)
       (\<lambda>s. case mg_fault s of
              Some e \<Rightarrow> Inl e
            | None \<Rightarrow> Inr (m\<lparr>mi_dest := mg_dest s, mi_commit := mg_commit s, mi_ncommits := mg_ncommits s\<rparr>))"

text \<open>
  The part under \<open>overwrite\<close>. The old tables go to the directory \<open>to_revert_overwrite\<close>, which is removed
  when the metadata has been written.
\<close>

definition OVERWRITE_TMP_PATH :: string where "OVERWRITE_TMP_PATH = ''to_revert_overwrite''"

definition empty_dir :: Disk where
  "empty_dir = \<lparr>dk_exists = True, dk_locked = False, dk_metadata = None, dk_index = (\<lambda>_. None),
     dk_value = (\<lambda>_. None), dk_names = [], dk_logs = (\<lambda>_. None)\<rparr>"

definition overwrite_column ::
    "Crates \<Rightarrow> Salt \<Rightarrow> (Db \<Rightarrow> Db) \<Rightarrow> (Db \<Rightarrow> Db) \<Rightarrow> Options \<Rightarrow> ColId \<Rightarrow> MigrateRun \<Rightarrow> MigrateRun res" where
  "overwrite_column cr random join bg to c m =
     and_then (dest_commit bg (mi_dest m) (mi_commit m)) (\<lambda>dest.
     and_then (Db_drop cr join dest (mi_to m)) (\<lambda>to_dir.
     and_then (Db_open_or_create cr random to to_dir) (\<lambda>(dest, to_dir).
     and_then (Db_drop cr join dest to_dir) (\<lambda>to_dir.
     and_then (Db_drop cr join (mi_source m) (mi_from m)) (\<lambda>from'.
       let (from', tmp) = move_column c from' empty_dir;
           (to_dir, from') = move_column c to_dir from';
           options = (mi_options m)\<lparr>op_columns := (op_columns (mi_options m))[unat c := op_columns to ! unat c]\<rparr>
       in and_then (expect ''Migrate requires salt'' (op_salt to)) (\<lambda>salt.
          let from' = from'\<lparr>dk_metadata := Some (Options_write_metadata (cr_hex_encode cr) options salt)\<rparr>
          in and_then (Db_open cr random options from') (\<lambda>(source, from').
             and_then (Db_open_or_create cr random to to_dir) (\<lambda>(dest, to_dir).
               Inr (m\<lparr>mi_source := source, mi_dest := dest, mi_from := from', mi_to := to_dir,
                      mi_options := options, mi_commit := []\<rparr>)))))))))"

definition migrate_column ::
    "Crates \<Rightarrow> Salt \<Rightarrow> (Db \<Rightarrow> Db) \<Rightarrow> (Db \<Rightarrow> Db) \<Rightarrow> Options \<Rightarrow> bool \<Rightarrow> u8 set \<Rightarrow> ColId \<Rightarrow> MigrateRun \<Rightarrow> MigrateRun res" where
  "migrate_column cr random join bg to overwrite' to_migrate c m =
     (if c \<notin> to_migrate then
        if \<not> overwrite' then
          and_then (Db_drop cr join (mi_dest m) (mi_to m)) (\<lambda>to_dir.
            let (_, to_dir) = copy_column c (closed_disk (dd_inner (mi_source m)) (mi_from m)) to_dir
            in and_then (Db_open_or_create cr random to to_dir) (\<lambda>(dest, to_dir).
                 Inr (m\<lparr>mi_dest := dest, mi_to := to_dir\<rparr>)))
        else Inr m
      else
        and_then (iterate_column cr bg c m) (\<lambda>m.
          if overwrite' then overwrite_column cr random join bg to c m else Inr m))"

primrec migrate_columns ::
    "Crates \<Rightarrow> Salt \<Rightarrow> (Db \<Rightarrow> Db) \<Rightarrow> (Db \<Rightarrow> Db) \<Rightarrow> Options \<Rightarrow> bool \<Rightarrow> u8 set \<Rightarrow> ColId list \<Rightarrow> MigrateRun \<Rightarrow> MigrateRun res" where
  "migrate_columns cr random join bg to overwrite' to_migrate [] m = Inr m"
| "migrate_columns cr random join bg to overwrite' to_migrate (c # cs) m =
     and_then (migrate_column cr random join bg to overwrite' to_migrate c m)
       (migrate_columns cr random join bg to overwrite' to_migrate cs)"

text \<open>\<open>0 .. columns.len() as ColId\<close>.\<close>

definition column_range :: "ColumnOptions list \<Rightarrow> ColId list" where
  "column_range cs = map of_nat [0..<unat (of_nat (length cs) :: ColId)]"

definition migrate ::
    "Crates \<Rightarrow> Salt \<Rightarrow> (Db \<Rightarrow> Db) \<Rightarrow> (Db \<Rightarrow> Db) \<Rightarrow> string \<Rightarrow> Disk \<Rightarrow> Options \<Rightarrow> Disk \<Rightarrow> bool \<Rightarrow> u8 list \<Rightarrow> MigrateRun res" where
  "migrate cr random join bg from_path from' to to_dir overwrite' force_migrate =
     and_then (Options_load_metadata (cr_hex_decode cr) (dk_metadata from')) (\<lambda>source_meta.
       case source_meta of
         None \<Rightarrow> Inl (Err (Migration ''Error loading source metadata''))
       | Some source_meta \<Rightarrow>
           let to_migrate = Metadata_columns_to_migrate source_meta \<union> set force_migrate
           in if length (md_columns source_meta) \<noteq> length (op_columns to)
              then Inl (Err (Migration ''Source and dest columns mismatch''))
              else
                let to = to\<lparr>op_salt := Some (md_salt source_meta)\<rparr>;
                    source_options = (Options_with_columns from_path (of_nat (length (md_columns source_meta))))
                      \<lparr>op_salt := Some (md_salt source_meta), op_columns := md_columns source_meta\<rparr>
                in and_then (Db_open cr random source_options from') (\<lambda>(source, from').
                   and_then (Db_open_or_create cr random to to_dir) (\<lambda>(dest, to_dir).
                     let to_migrate = to_migrate \<union> set (filter (\<lambda>c. op_columns source_options ! unat c \<noteq> op_columns to ! unat c)
                                                         (column_range (op_columns source_options)))
                     in and_then (migrate_columns cr random join bg to overwrite' to_migrate
                                   (column_range (op_columns source_options))
                                   \<lparr>mi_source = source, mi_dest = dest, mi_from = from', mi_to = to_dir,
                                    mi_options = source_options, mi_commit = [], mi_ncommits = 0\<rparr>) (\<lambda>m.
                        and_then (dest_commit bg (mi_dest m) (mi_commit m)) (\<lambda>dest.
                          Inr (m\<lparr>mi_dest := dest, mi_commit := []\<rparr>))))))"

section \<open>What the destination holds\<close>

text \<open>
  What a database holds once its waiting commits are performed. \<open>ks\<close> are the kinds of its columns.
\<close>

definition dest_holds :: "Crates \<Rightarrow> kind list \<Rightarrow> Db \<Rightarrow> column_map list \<Rightarrow> bool" where
  "dest_holds cr ks db ms \<longleftrightarrow>
     (let d = dd_inner db
      in (\<exists>ms0. db_holds cr d ms0 \<and>
            ms = fold (apply_op ks) (concat (map cm_changeset (cq_commits (db_commit_queue d)))) ms0) \<and>
         map kind_of (db_columns d) = ks \<and> db_bg_err d = None \<and>
         length (md_columns (db_metadata d)) = length ks \<and> length (db_commit_overlay d) = length ks)"

text \<open>The threads of the destination lose and add nothing, and report no error.\<close>

definition workers_keep :: "Crates \<Rightarrow> kind list \<Rightarrow> (Db \<Rightarrow> Db) \<Rightarrow> bool" where
  "workers_keep cr ks bg \<longleftrightarrow> (\<forall>db ms. dest_holds cr ks db ms \<longrightarrow> dest_holds cr ks (bg db) ms)"

definition ops_within :: "nat \<Rightarrow> operation list \<Rightarrow> bool" where
  "ops_within n xs \<longleftrightarrow> list_all (\<lambda>(c, _). unat c < n) xs"

lemma ops_within_simps [simp]:
  "ops_within n []" "ops_within n (x # xs) \<longleftrightarrow> unat (fst x) < n \<and> ops_within n xs"
  "ops_within n (xs @ ys) \<longleftrightarrow> ops_within n xs \<and> ops_within n ys"
  by (auto simp: ops_within_def)

lemma dest_commit_holds:
  assumes "workers_keep cr ks bg" and "dest_holds cr ks db ms" and xs: "ops_within (length ks) xs"
  shows "\<exists>db'. dest_commit bg db xs = Inr db' \<and> dest_holds cr ks db' (fold (apply_op ks) xs ms)"
proof -
  define d where "d = dd_inner (bg db)"
  have "dest_holds cr ks (bg db) ms" using assms(1,2) by (simp add: workers_keep_def)
  then obtain ms0 where d: "db_holds cr d ms0"
      "ms = fold (apply_op ks) (concat (map cm_changeset (cq_commits (db_commit_queue d)))) ms0"
      "map kind_of (db_columns d) = ks" "db_bg_err d = None"
      "length (md_columns (db_metadata d)) = length ks" "length (db_commit_overlay d) = length ks"
    by (auto simp: dest_holds_def d_def Let_def)
  obtain b o' where q: "queue_operations (db_metadata d) (cq_record_id (db_commit_queue d) + 1 + 1) xs 0 (db_commit_overlay d) = Inr (b, o')"
      "length o' = length ks"
    using queue_operations_ok [of "db_commit_overlay d" "db_metadata d" xs "cq_record_id (db_commit_queue d) + 1 + 1" 0] xs d(5,6)
    by (auto simp: ops_within_def ops_in_range_def list_all_iff case_prod_beta)
  obtain d' where d': "commit_raw_queue d xs = Inr d'" "db_columns d' = db_columns d" "db_log d' = db_log d"
      "db_metadata d' = db_metadata d" "db_bg_err d' = None" "db_commit_overlay d' = o'"
      "map cm_changeset (cq_commits (db_commit_queue d')) = map cm_changeset (cq_commits (db_commit_queue d)) @ [xs]"
    using d(4) q(1) by (simp add: commit_raw_queue_def Let_def)
  have "db_holds cr d' ms0" using d(1) by (simp add: db_holds_def db_writer_def d')
  moreover have "fold (apply_op ks) (concat (map cm_changeset (cq_commits (db_commit_queue d')))) ms0 = fold (apply_op ks) xs ms"
    unfolding d'(7) d(2) by simp
  ultimately have "dest_holds cr ks ((bg db)\<lparr>dd_inner := d'\<rparr>) (fold (apply_op ks) xs ms)"
    using d q(2) by (auto simp: dest_holds_def Let_def d')
  then show ?thesis
    using d'(1) by (simp add: dest_commit_def Db_commit_raw_def DbInner_commit_raw_def d_def)
qed

text \<open>A round of the log worker is such a step when the oldest commit has room.\<close>

lemma log_worker_keeps:
  assumes cd: "codecs_ok (cr_codecs cr)" and hold: "dest_holds cr ks db ms"
    and q: "cq_commits (db_commit_queue (dd_inner db)) = commit # rest"
    and room: "\<And>ms0. db_holds cr (dd_inner db) ms0 \<Longrightarrow>
      ops_ready (cr_codecs cr) (cm_changeset commit) (db_columns (dd_inner db)) (db_writer (dd_inner db)) ms0"
    and go: "sint (db_log_queue (dd_inner db)) \<le> MAX_LOG_QUEUE_BYTES"
  shows "\<exists>d'. DbInner_process_commits cr (dd_inner db) = Some (Inr (True, d')) \<and> dest_holds cr ks (db\<lparr>dd_inner := d'\<rparr>) ms"
proof -
  let ?d = "dd_inner db"
  obtain ms0 where d: "db_holds cr ?d ms0"
      "ms = fold (apply_op ks) (concat (map cm_changeset (cq_commits (db_commit_queue ?d)))) ms0"
      "map kind_of (db_columns ?d) = ks" "db_bg_err ?d = None"
      "length (md_columns (db_metadata ?d)) = length ks" "length (db_commit_overlay ?d) = length ks"
    using hold by (auto simp: dest_holds_def Let_def)
  define d1 where "d1 = ?d\<lparr>db_commit_queue := (db_commit_queue ?d)\<lparr>cq_commits := rest,
      cq_bytes := cq_bytes (db_commit_queue ?d) - cm_bytes commit\<rparr>\<rparr>"
  have d1: "db_writer d1 = db_writer ?d" "db_columns d1 = db_columns ?d" by (simp_all add: d1_def db_writer_def)
  have "db_holds cr d1 ms0" using d(1) by (simp add: db_holds_def d1)
  then obtain d' where d': "process_commit cr d1 commit = Inr d'"
      "db_holds cr d' (fold (apply_op ks) (cm_changeset commit) ms0)" "map kind_of (db_columns d') = ks"
      "db_metadata d' = db_metadata d1"
      "db_commit_overlay d' = fold (clean_overlay (cm_id commit)) (cm_changeset commit) (db_commit_overlay d1)"
    using process_commit_holds [OF cd, of d1 ms0 commit] room [OF d(1)] d(3) by (auto simp: d1)
  have keep: "db_commit_queue d' = db_commit_queue d1" "db_bg_err d' = db_bg_err d1"
    using d'(1) by (auto simp: process_commit_def and_then_eq_Inr Let_def case_prod_beta DbInner_start_reindex_def)
  have "length (fold (clean_overlay i) xs ov) = length ov" for i xs ov
    by (induction xs arbitrary: ov) (auto simp: clean_overlay_def Let_def split: prod.splits option.splits)
  then have "dest_holds cr ks (db\<lparr>dd_inner := d'\<rparr>) ms"
    using d d'(2-5) keep q by (auto simp: dest_holds_def Let_def d1_def)
  moreover have "DbInner_process_commits cr ?d = Some (Inr (True, d'))"
    using go q d'(1) by (auto simp: DbInner_process_commits_def d1_def Let_def)
  ultimately show ?thesis by blast
qed

section \<open>Migrating a column\<close>

text \<open>The operations one item becomes.\<close>

primrec ref_ops :: "nat \<Rightarrow> ColId \<Rightarrow> Key \<Rightarrow> bytes \<Rightarrow> operation list" where
  "ref_ops 0 c key val = []"
| "ref_ops (Suc n) c key val = (c, key, Some val) # ref_ops n c key []"

definition item_ops :: "ColId \<Rightarrow> IterState \<Rightarrow> operation list" where
  "item_ops c x = ref_ops (unat (is_rc x)) c (is_key x) (is_value x)"

text \<open>What the destination holds once the operations collected so far are committed.\<close>

definition pending :: "Crates \<Rightarrow> kind list \<Rightarrow> Db \<Rightarrow> operation list \<Rightarrow> column_map list \<Rightarrow> bool" where
  "pending cr ks dest commit ms \<longleftrightarrow>
     (\<exists>ms0. dest_holds cr ks dest ms0 \<and> ms = fold (apply_op ks) commit ms0) \<and>
     ops_within (length ks) commit \<and> length commit < COMMIT_SIZE"

lemma pending_commit:
  assumes "workers_keep cr ks bg" and "pending cr ks dest commit ms"
  shows "\<exists>dest'. dest_commit bg dest commit = Inr dest' \<and> dest_holds cr ks dest' ms"
  using assms dest_commit_holds [OF assms(1)] by (auto simp: pending_def)

lemma migrate_refs_pending:
  assumes bg: "workers_keep cr ks bg" and c: "unat c < length ks"
  shows "pending cr ks (mg_dest s) (mg_commit s) ms \<Longrightarrow> mg_fault s = None \<Longrightarrow>
     \<exists>s'. migrate_refs n bg c key val s = (True, s') \<and> mg_fault s' = None \<and>
       pending cr ks (mg_dest s') (mg_commit s') (fold (apply_op ks) (ref_ops n c key val) ms)"
proof (induction n arbitrary: val s ms)
  case (Suc n)
  let ?x = "(c, key, Some val)" let ?commit = "mg_commit s @ [?x]"
  obtain ms0 where ms0: "dest_holds cr ks (mg_dest s) ms0" "ms = fold (apply_op ks) (mg_commit s) ms0"
      "ops_within (length ks) (mg_commit s)" "length (mg_commit s) < COMMIT_SIZE"
    using Suc.prems(1) by (auto simp: pending_def)
  show ?case
  proof (cases "length ?commit = COMMIT_SIZE")
    case True
    obtain dest where dest: "dest_commit bg (mg_dest s) ?commit = Inr dest"
        "dest_holds cr ks dest (fold (apply_op ks) ?commit ms0)"
      using dest_commit_holds [OF bg ms0(1), of ?commit] ms0(3) c by auto
    let ?s = "s\<lparr>mg_ncommits := mg_ncommits s + 1, mg_commit := [], mg_dest := dest\<rparr>"
    have "pending cr ks (mg_dest ?s) (mg_commit ?s) (apply_op ks ?x ms)"
      using dest(2) ms0(2) by (auto simp: pending_def COMMIT_SIZE_def)
    from Suc.IH [of ?s, OF this] Suc.prems(2) dest(1) True show ?thesis by (simp add: Let_def)
  next
    case False
    let ?s = "s\<lparr>mg_commit := ?commit\<rparr>"
    have "pending cr ks (mg_dest ?s) (mg_commit ?s) (apply_op ks ?x ms)"
      using ms0 c False by (auto simp: pending_def intro!: exI [of _ ms0])
    from Suc.IH [of ?s, OF this] Suc.prems(2) False show ?thesis by (simp add: Let_def)
  qed
qed simp

lemma migrate_items_pending:
  assumes bg: "workers_keep cr ks bg" and c: "unat c < length ks"
  shows "pending cr ks (mg_dest s) (mg_commit s) ms \<Longrightarrow> mg_fault s = None \<Longrightarrow>
     \<exists>s'. run_items (migrate_item bg c) items s = (True, s') \<and> mg_fault s' = None \<and>
       pending cr ks (mg_dest s') (mg_commit s') (fold (apply_op ks) (concat (map (item_ops c) items)) ms)"
proof (induction items arbitrary: s ms)
  case (Cons x items)
  obtain s1 where s1: "migrate_item bg c s x = (True, s1)" "mg_fault s1 = None"
      "pending cr ks (mg_dest s1) (mg_commit s1) (fold (apply_op ks) (item_ops c x) ms)"
    using migrate_refs_pending [OF bg c Cons.prems, of "unat (is_rc x)" "is_key x" "is_value x"]
    unfolding migrate_item_def item_ops_def by blast
  from Cons.IH [OF s1(3,2)] s1(1) show ?case by simp
qed simp

text \<open>
  What the destination holds for a migrated key. Only in a ref-counted column the counter survives. In a
  column without counters every further reference of the source overwrites the value with an empty one; a
  preimage column skips these writes.
\<close>

definition migrated_value :: "kind \<Rightarrow> u32 \<times> bytes \<Rightarrow> u32 \<times> bytes" where
  "migrated_value k x =
     (let (counted, preimage, _) = k; (n, v) = x
      in if counted then (n, v) else if preimage \<or> n = 1 then (1, v) else (1, []))"

lemma unat_LOCKED_less: "unat (LOCKED_REF - 1) = 2 ^ 32 - 2"
  by (simp add: LOCKED_REF_def)

lemma count_up_Suc: "Suc n < 2 ^ 32 \<Longrightarrow> count_up (of_nat n) = of_nat (Suc n)"
proof -
  assume n: "Suc n < 2 ^ 32"
  then have "unat (of_nat n :: u32) = n" by (intro unat_of_nat_small) simp
  then have "(of_nat n :: u32) < LOCKED_REF - 1 \<longleftrightarrow> n < 2 ^ 32 - 2"
    using unat_LOCKED_less by (simp add: word_less_nat_alt)
  moreover have "(of_nat (2 ^ 32 - 1) :: u32) = LOCKED_REF" by (simp add: LOCKED_REF_def)
  moreover have "n < 2 ^ 32 - 2 \<or> Suc n = 2 ^ 32 - 1" using n by auto
  ultimately show ?thesis by (cases "Suc n = 2 ^ 32 - 1") (simp only: count_up_def, simp)+
qed

text \<open>The later references of an item.\<close>

lemma ref_ops_again:
  assumes "(counted, preimage, r) = ks ! unat c"
  shows "unat c < length ms \<Longrightarrow> (ms ! unat c) key = Some (of_nat j, v) \<Longrightarrow> j + n < 2 ^ 32 \<Longrightarrow> counted \<or> j = 1 \<Longrightarrow>
     fold (apply_op ks) (ref_ops n c key []) ms = ms[unat c := (ms ! unat c)(key \<mapsto>
       (if counted then (of_nat (j + n), v) else if preimage \<or> n = 0 then (1, v) else (1, [])))]"
proof (induction n arbitrary: ms j v)
  case 0
  then have "(ms ! unat c)(key \<mapsto> (if counted then (of_nat (j + 0), v) else if preimage \<or> (0 :: nat) = 0 then (1, v) else (1, []))) =
      ms ! unat c"
    by (intro fun_upd_idem) auto
  then show ?case by (simp only: list_update_id ref_ops.simps fold.simps id_apply)
next
  case (Suc n)
  let ?j = "if counted then Suc j else 1" and ?v = "if counted \<or> preimage then v else []"
  let ?ms = "ms[unat c := (ms ! unat c)(key \<mapsto> (of_nat ?j, ?v))]"
  have one: "(of_nat (Suc 0) :: u32) = 1" by simp
  have "count_up (of_nat j) = of_nat (Suc j)" using Suc.prems(3) by (intro count_up_Suc) simp
  then have "apply_op ks (c, key, Some []) ms = ?ms"
    using Suc.prems(2,4) assms [symmetric] one by (auto simp: apply_op_def column_update_def Let_def simp del: of_nat_Suc)
  then have "fold (apply_op ks) (ref_ops (Suc n) c key []) ms = fold (apply_op ks) (ref_ops n c key []) ?ms" by simp
  also have "\<dots> = ?ms[unat c := (?ms ! unat c)(key \<mapsto>
      (if counted then (of_nat (?j + n), ?v) else if preimage \<or> n = 0 then (1, ?v) else (1, [])))]"
    using Suc.prems by (intro Suc.IH) (auto simp del: of_nat_Suc)
  also have "\<dots> = ms[unat c := (ms ! unat c)(key \<mapsto>
      (if counted then (of_nat (j + Suc n), v) else if preimage \<or> Suc n = 0 then (1, v) else (1, [])))]"
    using Suc.prems(1) by (auto simp del: of_nat_Suc)
  finally show ?case .
qed

lemma item_ops_apply:
  assumes "unat c < length ms" and "(ms ! unat c) (is_key x) = None" and "0 < is_rc x"
  shows "fold (apply_op ks) (item_ops c x) ms =
     ms[unat c := (ms ! unat c)(is_key x \<mapsto> migrated_value (ks ! unat c) (is_rc x, is_value x))]"
proof -
  obtain counted preimage r where k: "(counted, preimage, r) = ks ! unat c" by (metis prod_cases3)
  let ?m = "(ms ! unat c)(is_key x \<mapsto> (of_nat 1, is_value x))"
  obtain n where n: "unat (is_rc x) = Suc n" using assms(3) by (metis gr0_implies_Suc word_less_nat_alt unat_0)
  have rc: "of_nat (1 + n) = is_rc x" using arg_cong [OF n, of "of_nat :: nat \<Rightarrow> u32"] by simp
  moreover have "is_rc x = 1 \<longleftrightarrow> n = 0"
    using n rc by (metis One_nat_def Suc_inject add_0_right of_nat_1 unat_1)
  moreover have "1 + n < 2 ^ 32" using unsigned_less [of "is_rc x", where 'a = nat] n by simp
  moreover have "apply_op ks (c, is_key x, Some (is_value x)) ms = ms[unat c := ?m]"
    using assms(2) by (auto simp: apply_op_def column_update_def Let_def split: prod.split)
  ultimately show ?thesis
    using ref_ops_again [OF k, of "ms[unat c := ?m]" "is_key x" 1 "is_value x" n] assms(1)
    by (auto simp: item_ops_def n k [symmetric] migrated_value_def Let_def simp del: of_nat_Suc of_nat_add)
qed

definition put_item :: "kind \<Rightarrow> IterState \<Rightarrow> column_map \<Rightarrow> column_map" where
  "put_item k x m = m(is_key x \<mapsto> migrated_value k (is_rc x, is_value x))"

lemma items_apply:
  assumes "unat c < length ms" and "distinct (map is_key items)"
    and "\<forall>x \<in> set items. (ms ! unat c) (is_key x) = None \<and> 0 < is_rc x"
  shows "fold (apply_op ks) (concat (map (item_ops c) items)) ms =
     ms[unat c := fold (put_item (ks ! unat c)) items (ms ! unat c)]"
  using assms
proof (induction items arbitrary: ms)
  case (Cons x items)
  let ?ms = "ms[unat c := put_item (ks ! unat c) x (ms ! unat c)]"
  have "fold (apply_op ks) (item_ops c x) ms = ?ms"
    using item_ops_apply [of c ms x ks] Cons.prems by (simp add: put_item_def)
  moreover have "\<forall>y \<in> set items. (?ms ! unat c) (is_key y) = None \<and> 0 < is_rc y"
    using Cons.prems by (auto simp: put_item_def) (metis image_eqI)
  ultimately show ?case using Cons.IH [of ?ms] Cons.prems by simp
qed simp

lemma put_items:
  "distinct (map is_key items) \<Longrightarrow>
     fold (put_item kd) items m k = Some y \<longleftrightarrow>
       (\<exists>x \<in> set items. is_key x = k \<and> y = migrated_value kd (is_rc x, is_value x)) \<or>
       (k \<notin> is_key ` set items \<and> m k = Some y)"
proof (induction items arbitrary: m)
  case (Cons x items)
  then show ?case by (auto simp: put_item_def)
qed simp

text \<open>The map of a migrated column.\<close>

definition migrated :: "kind \<Rightarrow> column_map \<Rightarrow> column_map" where
  "migrated kd m k = (if length k = KEY_LEN then map_option (migrated_value kd) (m k) else None)"

lemma put_items_migrated:
  assumes "distinct (map is_key items)" and len: "\<And>x. x \<in> set items \<Longrightarrow> length (is_key x) = KEY_LEN"
    and m: "\<And>k n v. length k = KEY_LEN \<Longrightarrow>
      m k = Some (n, v) \<longleftrightarrow> (\<exists>x \<in> set items. is_key x = k \<and> is_rc x = n \<and> is_value x = v)"
  shows "fold (put_item kd) items Map.empty = migrated kd m"
proof
  fix k
  have "fold (put_item kd) items Map.empty k = Some y \<longleftrightarrow> migrated kd m k = Some y" for y
  proof (cases "length k = KEY_LEN")
    case True
    then have "migrated kd m k = Some y \<longleftrightarrow> (\<exists>n v. m k = Some (n, v) \<and> y = migrated_value kd (n, v))"
      by (auto simp: migrated_def)
    also have "\<dots> \<longleftrightarrow> (\<exists>x \<in> set items. is_key x = k \<and> y = migrated_value kd (is_rc x, is_value x))"
      using m [OF True] by auto
    finally show ?thesis using put_items [OF assms(1)] by simp
  next
    case False
    then show ?thesis using put_items [OF assms(1), of kd Map.empty k y] len by (auto simp: migrated_def)
  qed
  then show "fold (put_item kd) items Map.empty k = migrated kd m k" by (metis option.exhaust)
qed

lemma holds_count_pos:
  assumes "column_holds cd c w m" and k: "length k = KEY_LEN" and "m k = Some (n, v)"
  shows "0 < n"
proof -
  obtain S M where rep: "column_rep cd c w S M" and "m k = stored_view cd (col_compression c) (M k)"
    using assms(1) k unfolding column_holds_def by blast
  then obtain u where u: "M k = Some u" "st_rc u = n" using assms(3) by (cases "M k") (auto simp: stored_view_def)
  note r = column_repD [OF rep]
  obtain i a where "hit (lookups (table_index c) (LogWriter_query w)) (stores (table_values c) S) k i a u"
    using holdsD [OF r(6) k] u(1) by blast
  then have "unat (Address_size_tier a) < length (table_values c)" "S (unat (Address_size_tier a)) (Address_offset a) = Some u"
    by (auto simp: hit_def stores_def split: if_splits)
  then show ?thesis using stored_pos [OF tables_rep_at(1) [OF r(1)]] u(2) by blast
qed

lemma fold_apply_length [simp]: "length (fold (apply_op ks) xs ms) = length ms"
  by (induction xs arbitrary: ms) (auto simp: apply_op_def Let_def split: prod.split)

lemma pending_length: "pending cr ks dest commit ms \<Longrightarrow> length ms = length ks"
  by (auto simp: pending_def dest_holds_def db_holds_def columns_hold_def Let_def)

text \<open>A column the migration reads by its index, and whose place in the destination is empty.\<close>

definition migratable :: "DbInner \<Rightarrow> kind list \<Rightarrow> column_map list \<Rightarrow> ColId \<Rightarrow> bool" where
  "migratable src ks ms c \<longleftrightarrow>
     unat c < length (db_columns src) \<and> \<not> col_preimage (db_columns src ! unat c) \<and>
     4 \<le> col_db_version (db_columns src ! unat c) \<and> unat c < length ks \<and> ms ! unat c = Map.empty"

lemma iterate_column_pending:
  assumes bg: "workers_keep cr ks bg" and src: "db_holds cr (dd_inner (mi_source r)) sms"
    and c: "migratable (dd_inner (mi_source r)) ks ms c" and p: "pending cr ks (mi_dest r) (mi_commit r) ms"
  shows "\<exists>r'. iterate_column cr bg c r = Inr r' \<and> mi_source r' = mi_source r \<and>
     pending cr ks (mi_dest r') (mi_commit r') (ms[unat c := migrated (ks ! unat c) (sms ! unat c)])"
proof -
  let ?d = "dd_inner (mi_source r)" let ?c = "db_columns ?d ! unat c" and ?m = "sms ! unat c"
  have cc: "unat c < length (db_columns ?d)" "\<not> col_preimage ?c" "4 \<le> col_db_version ?c" "unat c < length ks"
      "ms ! unat c = Map.empty" using c by (simp_all add: migratable_def)
  have hold: "column_holds (cr_codecs cr) ?c (db_writer ?d) ?m"
    using src cc(1) by (simp add: db_holds_def columns_hold_def)
  obtain items where it:
    "\<And>f (s :: MigrateState). Column_iter_while (cr_codecs cr) (cr_blake2b cr) ?c (LogWriter_query (db_writer ?d)) f s =
        Inr (snd (run_items f items s))"
    "distinct (map is_key items)" "\<And>x. x \<in> set items \<Longrightarrow> length (is_key x) = KEY_LEN"
    "\<And>k n v. length k = KEY_LEN \<Longrightarrow>
       ?m k = Some (n, v) \<longleftrightarrow> (\<exists>x \<in> set items. is_key x = k \<and> is_rc x = n \<and> is_value x = v)"
    by (rule column_items [OF hold cc(2,3), of "cr_blake2b cr"]) blast
  let ?s = "\<lparr>mg_dest = mi_dest r, mg_commit = mi_commit r, mg_ncommits = mi_ncommits r, mg_fault = None\<rparr>"
  obtain s where s: "run_items (migrate_item bg c) items ?s = (True, s)" "mg_fault s = None"
      "pending cr ks (mg_dest s) (mg_commit s) (fold (apply_op ks) (concat (map (item_ops c) items)) ms)"
    using migrate_items_pending [OF bg cc(4), of ?s ms items] p by auto
  have "\<forall>x \<in> set items. (ms ! unat c) (is_key x) = None \<and> 0 < is_rc x"
    using it(3,4) holds_count_pos [OF hold] cc(5) by (metis (no_types))
  then have "fold (apply_op ks) (concat (map (item_ops c) items)) ms = ms[unat c := migrated (ks ! unat c) ?m]"
    using items_apply [OF _ it(2)] put_items_migrated [OF it(2,3,4)] pending_length [OF p] cc(4,5) by simp
  then show ?thesis
    using s it(1) [of "migrate_item bg c" ?s] cc(1)
    by (simp add: iterate_column_def Db_iter_column_while_def DbInner_iter_column_while_def column_at_def)
qed

lemma migrate_columns_pending:
  assumes bg: "workers_keep cr ks bg"
  shows "db_holds cr (dd_inner (mi_source r)) sms \<Longrightarrow> pending cr ks (mi_dest r) (mi_commit r) ms \<Longrightarrow>
     \<forall>c \<in> set cs. c \<in> to_migrate \<and> migratable (dd_inner (mi_source r)) ks ms c \<Longrightarrow> distinct cs \<Longrightarrow>
     \<exists>r'. migrate_columns cr random join bg to False to_migrate cs r = Inr r' \<and>
       pending cr ks (mi_dest r') (mi_commit r')
         (fold (\<lambda>c ms. ms[unat c := migrated (ks ! unat c) (sms ! unat c)]) cs ms)"
proof (induction cs arbitrary: r ms)
  case (Cons c cs)
  let ?ms = "ms[unat c := migrated (ks ! unat c) (sms ! unat c)]"
  obtain r1 where r1: "iterate_column cr bg c r = Inr r1" "mi_source r1 = mi_source r"
      "pending cr ks (mi_dest r1) (mi_commit r1) ?ms"
    using iterate_column_pending [OF bg Cons.prems(1) _ Cons.prems(2)] Cons.prems(3) by auto
  have "?ms ! unat c' = ms ! unat c'" if "c' \<in> set cs" for c'
  proof -
    have "unat c \<noteq> unat c'" using that Cons.prems(4) by (metis distinct.simps(2) unsigned_word_eqI)
    then show ?thesis by simp
  qed
  then have "\<forall>c \<in> set cs. c \<in> to_migrate \<and> migratable (dd_inner (mi_source r1)) ks ?ms c"
    using Cons.prems(3) r1(2) by (simp add: migratable_def)
  from Cons.IH [OF _ r1(3) this] Cons.prems r1 show ?case by (simp add: migrate_column_def)
qed simp

section \<open>Moving files\<close>

text \<open>A column moves with all of its files, and no file of another column is touched.\<close>

lemma move_column_files:
  assumes "move_column c from' to = (from1, to1)"
  shows "dk_index to1 tid = (if ITableId_col tid = c \<and> dk_index from' tid \<noteq> None then dk_index from' tid else dk_index to tid)"
    and "dk_value to1 vid = (if VTableId_col vid = c \<and> dk_value from' vid \<noteq> None then dk_value from' vid else dk_value to vid)"
    and "dk_index from1 tid = (if ITableId_col tid = c then None else dk_index from' tid)"
    and "dk_value from1 vid = (if VTableId_col vid = c then None else dk_value from' vid)"
  using assms by (auto simp: move_column_def deplace_column_def Let_def ITableId_file_name_column VTableId_file_name_column)

section \<open>A sample migration\<close>

definition dest_db :: Db where
  "dest_db = sample_db\<lparr>dd_inner := sample_store\<rparr>"

lemma sample_dest: "dest_holds cr [kind_of sample_col] dest_db [Map.empty]"
  using sample_store_holds [of cr] by (auto simp: dest_holds_def Let_def dest_db_def sample_store_def sample_inner_def)

lemma sample_source:
  "\<exists>d. db_holds sample_crates d [[sample_hash \<mapsto> (1, [1, 2, 3])]] \<and> map kind_of (db_columns d) = [kind_of sample_col]"
proof -
  let ?commit = "\<lparr>cm_id = 2, cm_bytes = 35, cm_changeset = sample_ops\<rparr>"
  have cd: "codecs_ok (cr_codecs sample_crates)" by (simp add: sample_crates_def)
  have c: "db_columns sample_store = [sample_col]" by (simp add: sample_store_def)
  have "ops_ready (cr_codecs sample_crates) (cm_changeset ?commit) (db_columns sample_store) (db_writer sample_store) [Map.empty]"
    using sample_ops_ready [OF cd] by (simp add: c sample_store_writer)
  from process_commit_holds [OF cd sample_store_holds this]
  obtain d where "db_holds sample_crates d (fold (apply_op (map kind_of (db_columns sample_store))) sample_ops [Map.empty])"
      "map kind_of (db_columns d) = map kind_of (db_columns sample_store)" by auto
  then show ?thesis
    by (auto simp: c sample_ops_def apply_op_def Let_def kind_of_def column_update_def sample_col_def)
qed

section \<open>Properties\<close>



end
