(* ===== verification/Size_Pool.thy ===== *)
theory Size_Pool
  imports Index_Table Bench_Sizes
begin

text \<open>
  The keys and values of the stress test (\<open>SizePool\<close> of \<open>admin/src/bench/mod.rs\<close>): they are made from a
  seed, and the size of a value is drawn from the table of sizes. The generator \<open>SmallRng\<close> is a parameter.
\<close>

section \<open>Keys and values\<close>

record 'g Rng =
  seed_from_u64 :: "u64 \<Rightarrow> 'g"
  next_u64 :: "'g \<Rightarrow> u64 \<times> 'g"
  fill_bytes :: "'g \<Rightarrow> nat \<Rightarrow> bytes \<times> 'g"

text \<open>A \<open>BTreeMap\<close> as the list of its entries in the order of their keys.\<close>

type_synonym btree = "(u32 \<times> u32) list"

fun btree_insert :: "u32 \<Rightarrow> u32 \<Rightarrow> btree \<Rightarrow> btree" where
  "btree_insert k v [] = [(k, v)]"
| "btree_insert k v ((k', v') # xs) =
     (if k < k' then (k, v) # (k', v') # xs else if k = k' then (k, v) # xs else (k', v') # btree_insert k v xs)"

definition btree_range :: "u32 \<Rightarrow> btree \<Rightarrow> btree" where
  "btree_range from' xs = filter (\<lambda>(k, _). from' \<le> k) xs"

record SizePool =
  sp_distribution :: btree
  sp_total :: u32

definition SizePool_from_histogram :: "(u32 \<times> u32) list \<Rightarrow> SizePool" where
  "SizePool_from_histogram h =
     fold (\<lambda>(sz, count) p.
        let total = sp_total p + count
        in \<lparr>sp_distribution = btree_insert total sz (sp_distribution p), sp_total = total\<rparr>) h
       \<lparr>sp_distribution = [], sp_total = 0\<rparr>"

definition SizePool_value :: "'g Rng \<Rightarrow> SizePool \<Rightarrow> u64 \<Rightarrow> bool \<Rightarrow> bytes res" where
  "SizePool_value rg pool seed compressable =
     (let rng = seed_from_u64 rg seed; (x, rng) = next_u64 rg rng
      in if sp_total pool = 0 then Inl (Panic ''attempt to calculate the remainder with a divisor of zero'')
         else
           let sr = ucast (x mod ucast (sp_total pool)) :: u32
           in case btree_range sr (sp_distribution pool) of
                [] \<Rightarrow> Inl (Panic ''called `Option::unwrap()` on a `None` value'')
              | (_, sz) # _ \<Rightarrow>
                  let sz = unat sz;
                      v = replicate sz 0;
                      fill = if \<not> compressable then sz else sz div 2
                  in Inr (overwrite 0 (fst (fill_bytes rg rng fill)) v))"

definition SizePool_key :: "'g Rng \<Rightarrow> u64 \<Rightarrow> Key" where
  "SizePool_key rg seed = fst (fill_bytes rg (seed_from_u64 rg seed) 32)"


section \<open>Values exist\<close>

lemma btree_insert_mem: "(k, v) \<in> set (btree_insert k v xs)"
  by (induction k v xs rule: btree_insert.induct) auto

lemma histogram_total:
  assumes "sp_total (SizePool_from_histogram h) \<noteq> 0"
  shows "\<exists>sz. (sp_total (SizePool_from_histogram h), sz) \<in> set (sp_distribution (SizePool_from_histogram h))"
proof (cases h rule: rev_cases)
  case Nil
  then show ?thesis using assms by (simp add: SizePool_from_histogram_def)
next
  case (snoc xs x)
  then show ?thesis
    using btree_insert_mem by (cases x) (auto simp: SizePool_from_histogram_def Let_def)
qed

text \<open>The \<open>unwrap\<close> of \<open>value\<close> never fails: the number drawn is below the total, which is a key of the map.\<close>

lemma pool_value:
  assumes "sp_total (SizePool_from_histogram h) \<noteq> 0"
  shows "\<exists>v. SizePool_value rg (SizePool_from_histogram h) seed compressable = Inr v"
proof -
  let ?p = "SizePool_from_histogram h"
  obtain x g where x: "next_u64 rg (seed_from_u64 rg seed) = (x, g)" by fastforce
  define sr where "sr = (ucast (x mod ucast (sp_total ?p)) :: u32)"
  have "unat (x mod ucast (sp_total ?p)) < unat (sp_total ?p)"
    using assms by (simp add: unat_mod_distrib unat_ucast_up unat_gt_0)
  then have "sr \<le> sp_total ?p"
    unfolding sr_def word_le_nat_alt unsigned_ucast_eq using take_bit_nat_less_eq_self le_trans less_imp_le_nat by blast
  then have "btree_range sr (sp_distribution ?p) \<noteq> []"
    using histogram_total [OF assms] by (auto simp: btree_range_def filter_empty_conv)
  then show ?thesis
    using assms x
    by (auto simp: SizePool_value_def Let_def sr_def [symmetric] neq_Nil_conv split: prod.split)
qed

section \<open>How sizes are drawn\<close>

text \<open>The keys of the map are the sums of the counts; the number drawn finds the first row whose sum it does not exceed.\<close>

fun row_sums :: "u32 \<Rightarrow> (u32 \<times> u32) list \<Rightarrow> btree" where
  "row_sums t [] = []"
| "row_sums t ((sz, c) # h) = (t + c, sz) # row_sums (t + c) h"

definition count_sum :: "(u32 \<times> u32) list \<Rightarrow> nat" where
  "count_sum h = sum_list (map (\<lambda>(_, c). unat c) h)"

lemma count_sum_simps [simp]:
  "count_sum [] = 0" "count_sum ((s, c) # h) = unat c + count_sum h"
  "count_sum (xs @ ys) = count_sum xs + count_sum ys"
  by (simp_all add: count_sum_def)

definition proper_rows :: "(u32 \<times> u32) list \<Rightarrow> bool" where
  "proper_rows h \<longleftrightarrow> count_sum h < 2 ^ 32 \<and> (\<forall>(_, c) \<in> set h. c \<noteq> 0)"

lemma btree_insert_last: "\<forall>(k', _) \<in> set xs. k' < k \<Longrightarrow> btree_insert k v xs = xs @ [(k, v)]"
  by (induction xs) (auto dest: less_not_sym)

lemma unat_add_small: "unat (a :: u32) + unat b < 2 ^ 32 \<Longrightarrow> unat (a + b) = unat a + unat b"
  by (simp add: unat_plus_simple word_le_nat_alt unat_word_ariths)

lemma fold_rows:
  assumes "\<forall>(k, _) \<in> set xs. k \<le> t" and "unat t + count_sum h < 2 ^ 32" and "\<forall>(_, c) \<in> set h. c \<noteq> 0"
  shows "fold (\<lambda>(sz, count) p.
        let total = sp_total p + count
        in \<lparr>sp_distribution = btree_insert total sz (sp_distribution p), sp_total = total\<rparr>) h
       \<lparr>sp_distribution = xs, sp_total = t\<rparr> =
     \<lparr>sp_distribution = xs @ row_sums t h, sp_total = t + of_nat (count_sum h)\<rparr>"
  using assms
proof (induction h arbitrary: xs t)
  case (Cons x h)
  obtain sz c where x: "x = (sz, c)" by (cases x)
  have t: "unat (t + c) = unat t + unat c" by (rule unat_add_small) (use Cons.prems(2) x in simp)
  have lt: "t < t + c" using t Cons.prems(3) x by (simp add: word_less_nat_alt unat_gt_0)
  then have "btree_insert (t + c) sz xs = xs @ [(t + c, sz)]"
    using Cons.prems(1) by (intro btree_insert_last) (auto intro: le_less_trans)
  moreover have "\<forall>(k, _) \<in> set (xs @ [(t + c, sz)]). k \<le> t + c"
    using Cons.prems(1) lt by (auto dest: less_imp_le order_trans)
  ultimately show ?case
    using Cons.IH [of "xs @ [(t + c, sz)]" "t + c"] Cons.prems(2,3) t by (simp add: x add.assoc Let_def)
qed simp

lemma histogram_rows:
  assumes "proper_rows h"
  shows "SizePool_from_histogram h = \<lparr>sp_distribution = row_sums 0 h, sp_total = of_nat (count_sum h)\<rparr>"
  using fold_rows [of "[]" 0 h] assms by (simp add: SizePool_from_histogram_def proper_rows_def)

lemma row_sums_append: "row_sums t (xs @ ys) = row_sums t xs @ row_sums (t + of_nat (count_sum xs)) ys"
  by (induction t xs rule: row_sums.induct) (simp_all add: add.assoc)

lemma length_row_sums [simp]: "length (row_sums t h) = length h"
  by (induction t h rule: row_sums.induct) simp_all

text \<open>The keys of the rows, as numbers.\<close>

lemma row_sums_keys:
  assumes "unat t + count_sum h < 2 ^ 32"
  shows "(k, s) \<in> set (row_sums t h) \<Longrightarrow> unat t \<le> unat k \<and> unat k \<le> unat t + count_sum h"
  using assms
proof (induction t h rule: row_sums.induct)
  case (2 t sz c h)
  have t: "unat (t + c) = unat t + unat c" by (rule unat_add_small) (use 2(3) in simp)
  from 2 t show ?case by auto
qed simp

text \<open>Row \<open>i\<close> is found by the numbers above the sum of the rows before it and up to its own sum, the first row also by 0.\<close>

lemma range_row:
  assumes h: "proper_rows (xs @ (s, c) # ys)"
  shows "btree_range sr (row_sums 0 (xs @ (s, c) # ys)) = drop (length xs) (row_sums 0 (xs @ (s, c) # ys)) \<longleftrightarrow>
     (xs = [] \<or> count_sum xs < unat sr) \<and> unat sr \<le> count_sum xs + unat c"
proof -
  let ?t = "of_nat (count_sum xs) :: u32"
  have sum: "count_sum xs + unat c + count_sum ys < 2 ^ 32" using h by (simp add: proper_rows_def)
  have t: "unat ?t = count_sum xs" using sum by (simp add: unat_of_nat_small)
  have tc: "unat (?t + c) = count_sum xs + unat c" using unat_add_small [of ?t c] sum t by simp
  have split: "row_sums 0 (xs @ (s, c) # ys) = row_sums 0 xs @ (?t + c, s) # row_sums (?t + c) ys"
    by (simp add: row_sums_append)
  have low: "unat k \<le> count_sum xs" if "(k, v) \<in> set (row_sums 0 xs)" for k v
    using row_sums_keys [of 0 xs k v] sum that by simp
  have high: "count_sum xs + unat c \<le> unat k" if "(k, v) \<in> set (row_sums (?t + c) ys)" for k v
    using row_sums_keys [of "?t + c" ys k v] sum that tc by simp
  have last_key: "\<exists>v. (?t, v) \<in> set (row_sums 0 xs)" if "xs \<noteq> []"
  proof -
    obtain xs' s' c' where "xs = xs' @ [(s', c')]" using \<open>xs \<noteq> []\<close> by (metis rev_exhaust surj_pair)
    then show ?thesis by (auto simp: row_sums_append)
  qed
  show ?thesis
  proof
    assume eq: "btree_range sr (row_sums 0 (xs @ (s, c) # ys)) = drop (length xs) (row_sums 0 (xs @ (s, c) # ys))"
    then have "(?t + c, s) \<in> set (btree_range sr (row_sums 0 (xs @ (s, c) # ys)))" by (simp add: split)
    then have le: "unat sr \<le> count_sum xs + unat c" using tc by (auto simp: btree_range_def word_le_nat_alt)
    have "xs = [] \<or> count_sum xs < unat sr"
    proof (rule ccontr)
      assume n: "\<not> ?thesis"
      have "length (filter (\<lambda>(k, _). sr \<le> k) (row_sums 0 xs)) + length (filter (\<lambda>(k, _). sr \<le> k) ((?t + c, s) # row_sums (?t + c) ys)) =
          Suc (length ys)"
        using arg_cong [OF eq, of length] by (simp add: btree_range_def split)
      moreover have "filter (\<lambda>(k, _). sr \<le> k) ((?t + c, s) # row_sums (?t + c) ys) = (?t + c, s) # row_sums (?t + c) ys"
        using high tc le by (auto simp: filter_id_conv word_le_nat_alt intro: order_trans)
      moreover obtain v where "(?t, v) \<in> set (row_sums 0 xs)" using last_key n by blast
      then have "(?t, v) \<in> set (filter (\<lambda>(k, _). sr \<le> k) (row_sums 0 xs))" using n t by (simp add: word_le_nat_alt)
      then have "filter (\<lambda>(k, _). sr \<le> k) (row_sums 0 xs) \<noteq> []" by (metis empty_iff list.set(1))
      ultimately show False by simp
    qed
    with le show "(xs = [] \<or> count_sum xs < unat sr) \<and> unat sr \<le> count_sum xs + unat c" by simp
  next
    assume a: "(xs = [] \<or> count_sum xs < unat sr) \<and> unat sr \<le> count_sum xs + unat c"
    have "filter (\<lambda>(k, _). sr \<le> k) (row_sums 0 xs) = []"
      using low a by (fastforce simp: filter_empty_conv word_le_nat_alt)
    moreover have "filter (\<lambda>(k, _). sr \<le> k) (row_sums (?t + c) ys) = row_sums (?t + c) ys"
      using high a by (fastforce simp: filter_id_conv word_le_nat_alt)
    ultimately show "btree_range sr (row_sums 0 (xs @ (s, c) # ys)) = drop (length xs) (row_sums 0 (xs @ (s, c) # ys))"
      using a tc by (simp add: btree_range_def split word_le_nat_alt)
  qed
qed

text \<open>How many of the numbers that can be drawn find row \<open>i\<close>.\<close>

lemma card_u32_between:
  assumes "b < 2 ^ 32"
  shows "card {sr :: u32. a \<le> unat sr \<and> unat sr \<le> b} = Suc b - a"
proof -
  have "unat ` {sr :: u32. a \<le> unat sr \<and> unat sr \<le> b} = {a..b}"
  proof (intro set_eqI iffI)
    fix n assume n: "n \<in> {a..b}"
    then have "unat (of_nat n :: u32) = n" using assms by (simp add: unat_of_nat_small)
    then show "n \<in> unat ` {sr :: u32. a \<le> unat sr \<and> unat sr \<le> b}" using n by (intro image_eqI [of _ _ "of_nat n"]) auto
  qed auto
  moreover have "inj_on unat {sr :: u32. a \<le> unat sr \<and> unat sr \<le> b}" by (rule inj_onI) (erule unsigned_word_eqI)
  ultimately show ?thesis using card_image by fastforce
qed

lemma draws_of_row:
  assumes h: "proper_rows h" and i: "i < length h"
  shows "card {sr. sr < sp_total (SizePool_from_histogram h) \<and>
       btree_range sr (sp_distribution (SizePool_from_histogram h)) = drop i (sp_distribution (SizePool_from_histogram h))} =
     unat (snd (h ! i)) + (if i = 0 then 1 else 0) - (if i = length h - 1 then 1 else 0)"
proof -
  obtain s c where sc: "h ! i = (s, c)" by (cases "h ! i")
  define xs ys where "xs = take i h" and "ys = drop (Suc i) h"
  have split: "h = xs @ (s, c) # ys" using id_take_nth_drop [OF i] sc by (simp add: xs_def ys_def)
  have len: "length xs = i" using i by (simp add: xs_def)
  have sum: "count_sum xs + unat c + count_sum ys < 2 ^ 32" and c: "0 < unat c"
    using h split by (simp_all add: proper_rows_def unat_gt_0)
  have ys: "0 < count_sum ys" if "ys \<noteq> []"
    using that h split by (cases ys) (auto simp: proper_rows_def unat_gt_0)
  have total: "unat (of_nat (count_sum h) :: u32) = count_sum xs + unat c + count_sum ys"
    using sum by (subst unat_of_nat_small) (simp_all add: split)
  have "{sr. sr < sp_total (SizePool_from_histogram h) \<and>
        btree_range sr (sp_distribution (SizePool_from_histogram h)) = drop i (sp_distribution (SizePool_from_histogram h))} =
      {sr :: u32. (if xs = [] then 0 else Suc (count_sum xs)) \<le> unat sr \<and>
         unat sr \<le> (if ys = [] then count_sum xs + unat c - 1 else count_sum xs + unat c)}"
    (is "?L = ?R")
  proof (intro set_eqI)
    fix sr
    have "sr \<in> ?L \<longleftrightarrow> unat sr < count_sum xs + unat c + count_sum ys \<and>
        (xs = [] \<or> count_sum xs < unat sr) \<and> unat sr \<le> count_sum xs + unat c"
      using range_row [of xs s c ys sr, folded split, OF h] total len by (simp add: histogram_rows [OF h] word_less_nat_alt)
    also have "\<dots> \<longleftrightarrow> sr \<in> ?R" using ys c by (cases "xs = []"; cases "ys = []") auto
    finally show "sr \<in> ?L \<longleftrightarrow> sr \<in> ?R" .
  qed
  also have "card \<dots> = Suc (if ys = [] then count_sum xs + unat c - 1 else count_sum xs + unat c)
      - (if xs = [] then 0 else Suc (count_sum xs))"
    by (rule card_u32_between) (use sum in auto)
  also have "\<dots> = unat c + (if xs = [] then 1 else 0) - (if ys = [] then 1 else 0)" using c by auto
  finally have "card {sr. sr < sp_total (SizePool_from_histogram h) \<and>
        btree_range sr (sp_distribution (SizePool_from_histogram h)) = drop i (sp_distribution (SizePool_from_histogram h))} =
      unat c + (if xs = [] then 1 else 0) - (if ys = [] then 1 else 0)" .
  moreover have "xs = [] \<longleftrightarrow> i = 0" using len by auto
  moreover have "ys = [] \<longleftrightarrow> i = length h - 1" using i by (auto simp: ys_def)
  ultimately show ?thesis by (simp only: sc snd_conv)
qed

section \<open>The table\<close>

lemma axiatest_proper: "proper_rows AXIATEST_STATE_DISTRIBUTION"
  and axiatest_total: "count_sum AXIATEST_STATE_DISTRIBUTION = 46562841"
  using check_rows_sound [OF axiatest_rows] by (auto simp: proper_rows_def count_sum_def)

lemma axiatest_pool:
  "SizePool_from_histogram AXIATEST_STATE_DISTRIBUTION =
     \<lparr>sp_distribution = row_sums 0 AXIATEST_STATE_DISTRIBUTION, sp_total = 46562841\<rparr>"
  by (simp add: histogram_rows [OF axiatest_proper] axiatest_total)

lemmas axiatest_value = pool_value [of AXIATEST_STATE_DISTRIBUTION, unfolded axiatest_pool, simplified, folded axiatest_pool]

lemma row_sums_sizes: "(k, sz) \<in> set (row_sums t h) \<Longrightarrow> \<exists>c. (sz, c) \<in> set h"
  by (induction t h rule: row_sums.induct) auto

lemma row_sums_last: "h \<noteq> [] \<Longrightarrow> \<exists>sz. (t + of_nat (count_sum h), sz) \<in> set (row_sums t h)"
  by (cases h rule: rev_cases) (auto simp: row_sums_append add.assoc)

text \<open>The number drawn is below the total, so it finds a row before the last one, whose count is 1.\<close>

lemma axiatest_row:
  assumes "unat sr < 46562841"
  shows "\<exists>k sz rest c. btree_range sr (row_sums 0 AXIATEST_STATE_DISTRIBUTION) = (k, sz) # rest \<and>
     (sz, c) \<in> set AXIATEST_STATE_DISTRIBUTION \<and> 0 < unat sz \<and> unat sz < 1605821"
proof -
  define b where "b = butlast AXIATEST_STATE_DISTRIBUTION"
  have T: "AXIATEST_STATE_DISTRIBUTION = b @ [(1605821, 1)]" using axiatest_last b_def by simp
  have "count_sum (b @ [(1605821, 1)]) = 46562841" using axiatest_total by (simp only: T)
  then have sum: "count_sum b = 46562840" by simp
  then have "b \<noteq> []" by auto
  then obtain s where "(of_nat (count_sum b), s) \<in> set (row_sums 0 b)" using row_sums_last [of b 0] by auto
  then have "(of_nat 46562840, s) \<in> set (btree_range sr (row_sums 0 b))"
    using assms by (simp add: sum btree_range_def word_le_nat_alt)
  then obtain k sz rest where r: "btree_range sr (row_sums 0 b) = (k, sz) # rest"
    by (cases "btree_range sr (row_sums 0 b)") auto
  then have "(k, sz) \<in> set (btree_range sr (row_sums 0 b))" by simp
  then have "(k, sz) \<in> set (row_sums 0 b)" by (simp add: btree_range_def)
  then obtain c where c: "(sz, c) \<in> set b" using row_sums_sizes by blast
  have "sorted_wrt (\<lambda>x y. fst x < fst y) (b @ [(1605821, 1)])" "0 < unat sz"
    using check_rows_sound [OF axiatest_rows] c by (auto simp: T)
  then have "sz < 1605821" using c by (auto simp: sorted_wrt_append)
  then have "unat sz < 1605821" by (simp add: word_less_nat_alt)
  with \<open>0 < unat sz\<close> c r show ?thesis by (auto simp: T row_sums_append btree_range_def)
qed

section \<open>Properties\<close>

text \<open>
  C14: the values of the stress test. The total of the table does not wrap around, and of the numbers that can be
  drawn a row is found by as many as its count says, but the first row by one more and the last row by one
  less. Making a value never panics, for any seed, and gives a value of a size of the table. It is never
  the largest one, 1605821, whose count is 1.
\<close>

theorem axiatest_sizes:
  assumes fill: "\<And>g n. length (fst (fill_bytes rg g n)) = n"
  shows "let pool = SizePool_from_histogram AXIATEST_STATE_DISTRIBUTION in
      sp_total pool = 46562841 \<and>
      (\<forall>i < length AXIATEST_STATE_DISTRIBUTION.
         card {sr. sr < sp_total pool \<and> btree_range sr (sp_distribution pool) = drop i (sp_distribution pool)} =
         unat (snd (AXIATEST_STATE_DISTRIBUTION ! i)) + (if i = 0 then 1 else 0)
           - (if i = length AXIATEST_STATE_DISTRIBUTION - 1 then 1 else 0)) \<and>
      (\<exists>v c. SizePool_value rg pool seed compressable = Inr v \<and> (of_nat (length v), c) \<in> set AXIATEST_STATE_DISTRIBUTION \<and>
         length v < 1605821)"
proof -
  let ?p = "SizePool_from_histogram AXIATEST_STATE_DISTRIBUTION"
  obtain x g where x: "next_u64 rg (seed_from_u64 rg seed) = (x, g)" by fastforce
  define sr where "sr = (ucast (x mod 46562841) :: u32)"
  have "unat (x mod 46562841) < 46562841" by (simp add: unat_mod_distrib)
  then have "unat sr < 46562841"
    unfolding sr_def unsigned_ucast_eq using take_bit_nat_less_eq_self le_less_trans by blast
  then obtain k sz rest c where row: "btree_range sr (row_sums 0 AXIATEST_STATE_DISTRIBUTION) = (k, sz) # rest"
      "(sz, c) \<in> set AXIATEST_STATE_DISTRIBUTION" "unat sz < 1605821" using axiatest_row by blast
  define n where "n = (if compressable then unat sz div 2 else unat sz)"
  have "n \<le> unat sz" by (simp add: n_def)
  then have "length (overwrite 0 (fst (fill_bytes rg g n)) (replicate (unat sz) 0)) = unat sz"
    using fill by (simp add: overwrite_def)
  moreover have "SizePool_value rg ?p seed compressable = Inr (overwrite 0 (fst (fill_bytes rg g n)) (replicate (unat sz) 0))"
    using x row(1) by (simp add: SizePool_value_def axiatest_pool n_def sr_def [symmetric] Let_def)
  ultimately have "\<exists>v c. SizePool_value rg ?p seed compressable = Inr v \<and> (of_nat (length v), c) \<in> set AXIATEST_STATE_DISTRIBUTION \<and>
      length v < 1605821"
    using row by auto
  then show ?thesis using draws_of_row [OF axiatest_proper] axiatest_pool by (simp add: Let_def)
qed

text \<open>A generator that returns its seed.\<close>

definition sample_rng :: "u64 Rng" where
  "sample_rng = \<lparr>seed_from_u64 = id, next_u64 = (\<lambda>g. (g, g)),
     fill_bytes = (\<lambda>g n. (take n (to_be 8 g @ replicate n 0), g))\<rparr>"

theorem axiatest_sizes_witness:
  "\<exists>v. SizePool_value sample_rng (SizePool_from_histogram AXIATEST_STATE_DISTRIBUTION) 7 False = Inr v \<and> length v < 1605821"
proof -
  have "length (fst (fill_bytes sample_rng g n)) = n" for g n by (simp add: sample_rng_def)
  from axiatest_sizes [OF this, of 7 False] show ?thesis by (auto simp: Let_def)
qed

end
