(* ===== verification/Bench.thy ===== *)
theory Bench
  imports Migrate Size_Pool
begin

text \<open>
  The stress test of the admin tool (\<open>admin/src/bench/mod.rs\<close>): writers that commit keys and values made from
  a seed and delete most of the old ones, the threads beside them, and the check that reads everything back.

  The test runs against the trait \<open>BenchDb\<close>: its operations are arguments of the definitions, the locale
  \<open>bench_db\<close> states what the test relies on, and the adapter for a database provides it. The threads take
  turns; the order of the turns, a \<open>schedule\<close>, is an argument of the test.
\<close>

section \<open>The writer\<close>

definition BENCH_COMMIT_SIZE :: nat where "BENCH_COMMIT_SIZE = 100"
definition KEY_RESTART :: Key where "KEY_RESTART = replicate 32 1"
definition COMMIT_PRUNE_SIZE :: nat where "COMMIT_PRUNE_SIZE = 90"
definition COMMIT_PRUNE_WINDOW :: nat where "COMMIT_PRUNE_WINDOW = 2000"

record Args =
  ar_readers :: nat
  ar_commits :: nat
  ar_writers :: nat
  ar_seed :: "u64 option"
  ar_archive :: bool
  ar_append :: bool
  ar_no_check :: bool
  ar_compress :: bool

text \<open>The options every subcommand of the admin tool has (\<open>admin/src/lib.rs\<close>).\<close>

record Shared =
  sh_base_path :: "string option"
  sh_no_sync :: bool
  sh_with_stats :: bool
  sh_columns :: "u8 option"
  sh_log :: "string list"

record Stress =
  ss_shared :: Shared
  ss_readers :: "nat option"
  ss_writers :: "nat option"
  ss_commits :: "nat option"
  ss_seed :: "u64 option"
  ss_append :: bool
  ss_archive :: bool
  ss_no_check :: bool
  ss_compress :: bool

definition Stress_get_args :: "Stress \<Rightarrow> Args" where
  "Stress_get_args s =
     \<lparr>ar_readers = (case ss_readers s of Some n \<Rightarrow> n | None \<Rightarrow> 4),
      ar_commits = (case ss_commits s of Some n \<Rightarrow> n | None \<Rightarrow> 100000),
      ar_writers = (case ss_writers s of Some n \<Rightarrow> n | None \<Rightarrow> 1),
      ar_seed = ss_seed s, ar_archive = ss_archive s, ar_append = ss_append s,
      ar_no_check = ss_no_check s, ar_compress = ss_compress s\<rparr>"

type_synonym tx = "(Key \<times> bytes option) list"

text \<open>The loop that fills a commit with new values.\<close>

primrec push_values :: "nat \<Rightarrow> 'g Rng \<Rightarrow> SizePool \<Rightarrow> bool \<Rightarrow> u64 \<Rightarrow> tx \<Rightarrow> (tx \<times> u64) res" where
  "push_values 0 rg pool compress key commit = Inr (commit, key)"
| "push_values (Suc n) rg pool compress key commit =
     and_then (SizePool_value rg pool key compress) (\<lambda>v.
       push_values n rg pool compress (key + 1) (commit @ [(SizePool_key rg key, Some v)]))"

definition prune_ops :: "'g Rng \<Rightarrow> Args \<Rightarrow> nat \<Rightarrow> tx" where
  "prune_ops rg args n =
     (if \<not> ar_archive args \<and> COMMIT_PRUNE_WINDOW \<le> n then
        let prune_start = (n - COMMIT_PRUNE_WINDOW) * BENCH_COMMIT_SIZE
        in map (\<lambda>p. (SizePool_key rg (of_nat p), None)) [prune_start..<prune_start + COMMIT_PRUNE_SIZE]
      else [])"

text \<open>The commit that a writer makes in the round \<open>n\<close> of its loop.\<close>

definition writer_commit :: "'g Rng \<Rightarrow> Args \<Rightarrow> SizePool \<Rightarrow> nat \<Rightarrow> u64 \<Rightarrow> (tx \<times> u64) res" where
  "writer_commit rg args pool n key =
     and_then (push_values BENCH_COMMIT_SIZE rg pool (ar_compress args) key []) (\<lambda>(commit, key).
       Inr (commit @ prune_ops rg args n @ [(KEY_RESTART, Some (to_be 8 (of_nat n :: u64)))], key))"


section \<open>The threads\<close>

text \<open>
  Where a writer is in its loop, with the number of the commit and the next seed: before it reads the flag,
  before the commit, before it counts the commit; or it has ended, or panicked.
\<close>

datatype Writer = W_check nat u64 | W_commit nat u64 | W_count nat u64 | W_end | W_panic fault

text \<open>\<open>th_informant\<close> has \<open>last\<close> while the informant runs, \<open>th_readers\<close> which readers run, \<open>th_lines\<close> the lines printed.\<close>

record 'd Threads =
  th_db :: 'd
  th_commits :: nat
  th_shutdown :: bool
  th_informant :: "nat option"
  th_readers :: "bool list"
  th_writers :: "Writer list"
  th_lines :: "(nat \<times> nat \<times> nat) list"

definition set_writer :: "nat \<Rightarrow> Writer \<Rightarrow> 'd Threads \<Rightarrow> 'd Threads" where
  "set_writer i w s = s\<lparr>th_writers := (th_writers s)[i := w]\<rparr>"

fun writer :: "('d \<Rightarrow> tx \<Rightarrow> 'd res) \<Rightarrow> 'g Rng \<Rightarrow> Args \<Rightarrow> SizePool \<Rightarrow> nat \<Rightarrow> nat \<Rightarrow> Writer \<Rightarrow> 'd Threads \<Rightarrow> 'd Threads" where
  "writer commit_to rg args pool start_commit i (W_check n key) s =
     set_writer i (if n < start_commit + ar_commits args \<and> \<not> th_shutdown s then W_commit n key else W_end) s"
| "writer commit_to rg args pool start_commit i (W_commit n key) s =
     (case writer_commit rg args pool n key of
        Inl e \<Rightarrow> set_writer i (W_panic e) s
      | Inr (commit, key) \<Rightarrow>
          (case commit_to (th_db s) commit of
             Inl e \<Rightarrow> set_writer i (W_panic e) s
           | Inr db \<Rightarrow> set_writer i (W_count n key) (s\<lparr>th_db := db\<rparr>)))"
| "writer commit_to rg args pool start_commit i (W_count n key) s =
     set_writer i (W_check (n + 1) key) (s\<lparr>th_commits := th_commits s + 1\<rparr>)"
| "writer commit_to rg args pool start_commit i W_end s = s"
| "writer commit_to rg args pool start_commit i (W_panic e) s = s"

text \<open>The rate, which depends on the clock, is left out of the lines.\<close>

definition informant :: "nat \<Rightarrow> nat \<Rightarrow> 'd Threads \<Rightarrow> 'd Threads" where
  "informant to_do start s =
     (case th_informant s of
        None \<Rightarrow> s
      | Some prev \<Rightarrow>
          if th_shutdown s then s\<lparr>th_informant := None\<rparr>
          else let commits = th_commits s
               in s\<lparr>th_informant := Some commits, th_lines := th_lines s @ [(commits - start, to_do, commits - prev)]\<rparr>)"

definition reader :: "nat \<Rightarrow> 'd Threads \<Rightarrow> 'd Threads" where
  "reader i s = (if th_shutdown s then s\<lparr>th_readers := (th_readers s)[i := False]\<rparr> else s)"

text \<open>The main thread waits for the number of commits and then sets the flag.\<close>

definition main_wait :: "Args \<Rightarrow> nat \<Rightarrow> 'd Threads \<Rightarrow> 'd Threads" where
  "main_wait args start_commit s =
     (if th_commits s < start_commit + ar_commits args then s else s\<lparr>th_shutdown := True\<rparr>)"

datatype turn = Main | Informant | Reader nat | Writer nat

type_synonym schedule = "turn list"

fun take_turn :: "('d \<Rightarrow> tx \<Rightarrow> 'd res) \<Rightarrow> 'g Rng \<Rightarrow> Args \<Rightarrow> SizePool \<Rightarrow> nat \<Rightarrow> turn \<Rightarrow> 'd Threads \<Rightarrow> 'd Threads" where
  "take_turn commit_to rg args pool start_commit Main s = main_wait args start_commit s"
| "take_turn commit_to rg args pool start_commit Informant s = informant (ar_commits args) start_commit s"
| "take_turn commit_to rg args pool start_commit (Reader i) s = reader i s"
| "take_turn commit_to rg args pool start_commit (Writer i) s =
     (if i < length (th_writers s) then writer commit_to rg args pool start_commit i (th_writers s ! i) s else s)"

definition spawn_threads :: "Args \<Rightarrow> nat \<Rightarrow> 'd \<Rightarrow> 'd Threads" where
  "spawn_threads args start_commit db =
     \<lparr>th_db = db, th_commits = start_commit, th_shutdown = False, th_informant = Some start_commit,
      th_readers = replicate (ar_readers args) True,
      th_writers = replicate (ar_writers args) (W_check start_commit (of_nat start_commit * of_nat BENCH_COMMIT_SIZE)),
      th_lines = []\<rparr>"

definition writer_panicked :: "Writer \<Rightarrow> bool" where
  "writer_panicked w \<longleftrightarrow> (case w of W_panic _ \<Rightarrow> True | _ \<Rightarrow> False)"

definition threads_ended :: "'d Threads \<Rightarrow> bool" where
  "threads_ended s \<longleftrightarrow>
     th_shutdown s \<and> th_informant s = None \<and> True \<notin> set (th_readers s) \<and>
     list_all (\<lambda>w. w = W_end \<or> writer_panicked w) (th_writers s)"


section \<open>The check\<close>

definition expect_value :: "bytes option \<Rightarrow> bytes option \<Rightarrow> unit res" where
  "expect_value a b = (if a = b then Inr () else Inl (Panic ''assertion failed: `(left == right)`''))"

text \<open>\<open>for key in a .. b\<close> over \<open>u64\<close>.\<close>

definition u64_range :: "u64 \<Rightarrow> u64 \<Rightarrow> u64 list" where
  "u64_range a b = map of_nat [unat a..<unat b]"

primrec check_absent ::
    "('d \<Rightarrow> Key \<Rightarrow> (bytes option \<times> 'd) res) \<Rightarrow> 'g Rng \<Rightarrow> u64 list \<Rightarrow> nat \<Rightarrow> 'd \<Rightarrow> (nat \<times> 'd) res" where
  "check_absent get rg [] queries db = Inr (queries, db)"
| "check_absent get rg (key # keys) queries db =
     and_then (get db (SizePool_key rg key)) (\<lambda>(db_val, db).
     and_then (expect_value None db_val) (\<lambda>_. check_absent get rg keys (queries + 1) db))"

primrec check_present ::
    "('d \<Rightarrow> Key \<Rightarrow> (bytes option \<times> 'd) res) \<Rightarrow> 'g Rng \<Rightarrow> SizePool \<Rightarrow> bool \<Rightarrow> u64 list \<Rightarrow> nat \<Rightarrow> 'd \<Rightarrow> (nat \<times> 'd) res" where
  "check_present get rg pool compress [] queries db = Inr (queries, db)"
| "check_present get rg pool compress (key # keys) queries db =
     and_then (SizePool_value rg pool key compress) (\<lambda>val.
     and_then (get db (SizePool_key rg key)) (\<lambda>(db_val, db).
     and_then (expect_value (Some val) db_val) (\<lambda>_. check_present get rg pool compress keys (queries + 1) db)))"

definition check_commit ::
    "('d \<Rightarrow> Key \<Rightarrow> (bytes option \<times> 'd) res) \<Rightarrow> 'g Rng \<Rightarrow> Args \<Rightarrow> SizePool \<Rightarrow> u64 \<Rightarrow> u64 \<Rightarrow> nat \<Rightarrow> 'd \<Rightarrow> (nat \<times> 'd) res" where
  "check_commit get rg args pool commits nc queries db =
     (let pruned_per_commit = if ar_archive args then 0 else of_nat COMMIT_PRUNE_SIZE;
          sz = of_nat BENCH_COMMIT_SIZE :: u64;
          prune_window = of_nat COMMIT_PRUNE_WINDOW
      in and_then
           (if prune_window < commits \<and> nc < commits - prune_window then
              let stop = nc * sz + pruned_per_commit
              in and_then (check_absent get rg (u64_range (nc * sz) stop) queries db) (\<lambda>(queries, db).
                   Inr (stop, queries, db))
            else Inr (nc * sz, queries, db)) (\<lambda>(start, queries, db).
         check_present get rg pool (ar_compress args) (u64_range start ((nc + 1) * sz)) queries db))"

primrec check_commits ::
    "('d \<Rightarrow> Key \<Rightarrow> (bytes option \<times> 'd) res) \<Rightarrow> 'g Rng \<Rightarrow> Args \<Rightarrow> SizePool \<Rightarrow> u64 \<Rightarrow> u64 list \<Rightarrow> nat \<Rightarrow> 'd \<Rightarrow> (nat \<times> 'd) res" where
  "check_commits get rg args pool commits [] queries db = Inr (queries, db)"
| "check_commits get rg args pool commits (nc # ncs) queries db =
     and_then (check_commit get rg args pool commits nc queries db) (\<lambda>(queries, db).
       check_commits get rg args pool commits ncs queries db)"

definition start_commit_of :: "bytes option \<Rightarrow> nat res" where
  "start_commit_of v =
     (case v of
        Some start \<Rightarrow>
          if length start < 8 then Inl (Panic ''range end index 8 out of range for slice'')
          else Inr (unat (from_be (take 8 start) :: u64) + 1)
      | None \<Rightarrow> Inr 0)"

text \<open>
  The whole test. The result is the number of queries of the check; \<open>Diverge\<close> says that the threads have not
  ended with the schedule.
\<close>

definition run_internal ::
    "('d \<Rightarrow> Key \<Rightarrow> (bytes option \<times> 'd) res) \<Rightarrow> ('d \<Rightarrow> tx \<Rightarrow> 'd res) \<Rightarrow> 'g Rng \<Rightarrow> schedule \<Rightarrow> Args \<Rightarrow> 'd
       \<Rightarrow> (nat \<times> 'd) res" where
  "run_internal get commit_to rg sch args db =
     (let pool = SizePool_from_histogram AXIATEST_STATE_DISTRIBUTION
      in and_then (get db KEY_RESTART) (\<lambda>(start, db).
         and_then (start_commit_of start) (\<lambda>start_commit.
           let s = fold (take_turn commit_to rg args pool start_commit) sch (spawn_threads args start_commit db)
           in if \<not> threads_ended s then Inl Diverge
              else if \<exists>w \<in> set (th_writers s). writer_panicked w
                then Inl (Panic ''called `Result::unwrap()` on an `Err` value'')
              else
                let commits = th_commits s - start_commit
                in if ar_no_check args then Inr (0, th_db s)
                   else check_commits get rg args pool (of_nat (start_commit + commits))
                          (u64_range (of_nat start_commit) (of_nat (start_commit + commits))) 0 (th_db s))))"


section \<open>The adapter\<close>

definition unwrap :: "'a res \<Rightarrow> 'a res" where
  "unwrap r = (case r of Inl (Err e) \<Rightarrow> Inl (Panic ''called `Result::unwrap()` on an `Err` value'') | _ \<Rightarrow> r)"

definition BenchAdapter_with_options :: "Crates \<Rightarrow> Salt \<Rightarrow> Options \<Rightarrow> Args \<Rightarrow> Disk \<Rightarrow> (Db \<times> Disk) res" where
  "BenchAdapter_with_options cr random options args disk =
     (let db_options = if ar_compress args
                       then options\<lparr>op_columns := map (\<lambda>c. c\<lparr>co_compression := Lz4\<rparr>) (op_columns options)\<rparr>
                       else options
      in unwrap (Db_open_or_create cr random db_options disk))"

definition BenchAdapter_get :: "Crates \<Rightarrow> Db \<Rightarrow> Key \<Rightarrow> (bytes option \<times> Db) res" where
  "BenchAdapter_get cr db key = unwrap (Db_get cr db 0 key)"

text \<open>\<open>bg\<close> is what the threads of the database do until the commit proceeds.\<close>

definition BenchAdapter_commit :: "Crates \<Rightarrow> (Db \<Rightarrow> Db) \<Rightarrow> Db \<Rightarrow> tx \<Rightarrow> Db res" where
  "BenchAdapter_commit cr bg db tx =
     (case Db_commit cr (bg db) (map (\<lambda>(k, v). (0, k, v)) tx) True of
        Some r \<Rightarrow> unwrap r
      | None \<Rightarrow> Inl Diverge)"


section \<open>What the test relies on\<close>

definition tx_apply :: "tx \<Rightarrow> (Key \<Rightarrow> bytes option) \<Rightarrow> Key \<Rightarrow> bytes option" where
  "tx_apply tx m = fold (\<lambda>(k, v) m. m(k := v)) tx m"

lemma tx_apply_append: "tx_apply (xs @ ys) m = tx_apply ys (tx_apply xs m)"
  by (simp add: tx_apply_def)

lemma tx_apply_other: "k \<notin> fst ` set tx \<Longrightarrow> tx_apply tx m k = m k"
  by (induction tx arbitrary: m) (auto simp: tx_apply_def)

lemma tx_apply_same: "k \<in> fst ` set tx \<Longrightarrow> (\<And>v'. (k, v') \<in> set tx \<Longrightarrow> v' = v) \<Longrightarrow> tx_apply tx m k = v"
proof (induction tx rule: rev_induct)
  case (snoc x tx)
  show ?case
  proof (cases "fst x = k")
    case True
    then have "(k, snd x) \<in> set (tx @ [x])" by (cases x) simp
    from snoc.prems(2) [OF this] True show ?thesis by (cases x) (simp add: tx_apply_def)
  next
    case False
    then have "tx_apply tx m k = v" using snoc by auto
    with False show ?thesis by (cases x) (simp add: tx_apply_def)
  qed
qed simp

definition seed_key :: "'g Rng \<Rightarrow> nat \<Rightarrow> Key" where
  "seed_key rg s = SizePool_key rg (of_nat s)"

definition seed_value :: "'g Rng \<Rightarrow> SizePool \<Rightarrow> Args \<Rightarrow> nat \<Rightarrow> bytes" where
  "seed_value rg pool args s = projr (SizePool_value rg pool (of_nat s) (ar_compress args))"

text \<open>The keys of the first \<open>n\<close> commits are different from each other and from the key of the restart mark.\<close>

definition good_keys :: "'g Rng \<Rightarrow> Key set \<Rightarrow> nat \<Rightarrow> bool" where
  "good_keys rg keys n \<longleftrightarrow>
     n * 100 < 2 ^ 64 \<and> inj_on (seed_key rg) {..<n * 100} \<and> KEY_RESTART \<in> keys \<and>
     (\<forall>s<n * 100. seed_key rg s \<in> keys \<and> seed_key rg s \<noteq> KEY_RESTART)"

lemma good_keys_mono: "good_keys rg keys n \<Longrightarrow> n' \<le> n \<Longrightarrow> good_keys rg keys n'"
  unfolding good_keys_def
proof (elim conjE, intro conjI)
  assume n: "n' \<le> n" "n * 100 < 2 ^ 64" and inj: "inj_on (seed_key rg) {..<n * 100}"
  have le: "n' * 100 \<le> n * 100" using n(1) by simp
  show "n' * 100 < 2 ^ 64" using le n(2) by linarith
  show "inj_on (seed_key rg) {..<n' * 100}" by (rule inj_on_subset [OF inj]) (use le in auto)
qed auto

text \<open>
  What the database holds after the commits \<open>start .. n\<close>: all values, without the pruned ones of the
  commits that have left the window, and the restart mark.
\<close>

definition stress_holds ::
    "'g Rng \<Rightarrow> SizePool \<Rightarrow> Args \<Rightarrow> nat \<Rightarrow> nat \<Rightarrow> (Key \<Rightarrow> bytes option) \<Rightarrow> bool" where
  "stress_holds rg pool args start n m \<longleftrightarrow>
     (\<forall>i j. start \<le> i \<longrightarrow> i < n \<longrightarrow> j < 100 \<longrightarrow>
        m (seed_key rg (i * 100 + j)) =
          (if \<not> ar_archive args \<and> j < 90 \<and> i + 2000 < n then None
           else Some (seed_value rg pool args (i * 100 + j)))) \<and>
     (start < n \<longrightarrow> m KEY_RESTART = Some (to_be 8 (of_nat (n - 1) :: u64)))"

definition commit_ops :: "'g Rng \<Rightarrow> SizePool \<Rightarrow> Args \<Rightarrow> nat \<Rightarrow> tx" where
  "commit_ops rg pool args n =
     map (\<lambda>s. (seed_key rg s, Some (seed_value rg pool args s))) [n * 100..<n * 100 + 100]
     @ prune_ops rg args n @ [(KEY_RESTART, Some (to_be 8 (of_nat n :: u64)))]"

lemma push_values_run:
  assumes "\<And>s. \<exists>v. SizePool_value rg pool s (ar_compress args) = Inr v"
  shows "push_values k rg pool (ar_compress args) (of_nat b) commit =
     Inr (commit @ map (\<lambda>s. (seed_key rg s, Some (seed_value rg pool args s))) [b..<b + k], of_nat (b + k))"
proof (induction k arbitrary: b commit)
  case (Suc k)
  obtain v where v: "SizePool_value rg pool (of_nat b) (ar_compress args) = Inr v" using assms by blast
  have "of_nat b + 1 = (of_nat (Suc b) :: u64)" by simp
  then show ?case
    using Suc.IH [of "Suc b"] v by (simp add: upt_conv_Cons seed_key_def seed_value_def del: upt_Suc of_nat_Suc)
qed simp

lemma prune_ops_seeds:
  "prune_ops rg args n = (if \<not> ar_archive args \<and> 2000 \<le> n
     then map (\<lambda>s. (seed_key rg s, None)) [(n - 2000) * 100..<(n - 2000) * 100 + 90] else [])"
  by (simp add: prune_ops_def seed_key_def Let_def BENCH_COMMIT_SIZE_def COMMIT_PRUNE_SIZE_def COMMIT_PRUNE_WINDOW_def)

lemma commit_ops_keys:
  assumes "good_keys rg keys (Suc n)"
  shows "fst ` set (commit_ops rg pool args n) \<subseteq> keys"
proof -
  have "s < Suc n * 100" if "s < n * 100 + 100 \<or> s < (n - 2000) * 100 + 90" for s using that by auto
  then show ?thesis
    using assms unfolding good_keys_def by (auto simp: commit_ops_def prune_ops_seeds)
qed

lemma tx_seeds:
  assumes inj: "inj_on (seed_key rg) {..<N}" and "b \<le> N" and s: "s < N"
  shows "tx_apply (map (\<lambda>s. (seed_key rg s, f s)) [a..<b]) m (seed_key rg s) =
     (if a \<le> s \<and> s < b then f s else m (seed_key rg s))"
proof -
  let ?tx = "map (\<lambda>s. (seed_key rg s, f s)) [a..<b]"
  have same: "s' = s" if "s' < b" "seed_key rg s = seed_key rg s'" for s'
    using inj_onD [OF inj that(2)] s that(1) assms(2) by simp
  show ?thesis
  proof (cases "a \<le> s \<and> s < b")
    case True
    have "tx_apply ?tx m (seed_key rg s) = f s"
    proof (rule tx_apply_same)
      show "seed_key rg s \<in> fst ` set ?tx" using True by (auto simp: image_image)
      show "v' = f s" if "(seed_key rg s, v') \<in> set ?tx" for v' using that same by auto
    qed
    with True show ?thesis by simp
  next
    case False
    have "seed_key rg s \<notin> fst ` set ?tx"
    proof
      assume "seed_key rg s \<in> fst ` set ?tx"
      then obtain s' where "a \<le> s'" "s' < b" "seed_key rg s = seed_key rg s'" by auto
      with same [of s'] False show False by simp
    qed
    with False show ?thesis by (auto simp: tx_apply_other)
  qed
qed

lemma commit_ops_read:
  assumes good: "good_keys rg keys (Suc n)" and s: "s < Suc n * 100"
  shows "tx_apply (commit_ops rg pool args n) m (seed_key rg s) =
      (if \<not> ar_archive args \<and> 2000 \<le> n \<and> (n - 2000) * 100 \<le> s \<and> s < (n - 2000) * 100 + 90 then None
       else if n * 100 \<le> s then Some (seed_value rg pool args s) else m (seed_key rg s))"
proof -
  have inj: "inj_on (seed_key rg) {..<Suc n * 100}" and mark: "seed_key rg s \<noteq> KEY_RESTART"
    using good s by (auto simp: good_keys_def)
  have "tx_apply (prune_ops rg args n) m1 (seed_key rg s) =
      (if \<not> ar_archive args \<and> 2000 \<le> n \<and> (n - 2000) * 100 \<le> s \<and> s < (n - 2000) * 100 + 90 then None
       else m1 (seed_key rg s))" for m1
  proof (cases "\<not> ar_archive args \<and> 2000 \<le> n")
    case True
    have "(n - 2000) * 100 + 90 \<le> Suc n * 100" by auto
    from tx_seeds [OF inj this s, of "\<lambda>_. None"] True show ?thesis by (simp add: prune_ops_seeds)
  qed (auto simp: prune_ops_seeds tx_apply_def)
  moreover have "tx_apply (map (\<lambda>s. (seed_key rg s, Some (seed_value rg pool args s))) [n * 100..<n * 100 + 100]) m (seed_key rg s) =
      (if n * 100 \<le> s then Some (seed_value rg pool args s) else m (seed_key rg s))"
    using tx_seeds [OF inj _ s, of "n * 100 + 100" "\<lambda>s. Some (seed_value rg pool args s)" "n * 100" m] s by simp
  moreover have "tx_apply [(KEY_RESTART, v)] m1 (seed_key rg s) = m1 (seed_key rg s)" for v m1
    using mark by (simp add: tx_apply_def)
  ultimately show ?thesis by (simp add: commit_ops_def tx_apply_append)
qed

lemma stress_step:
  assumes m: "stress_holds rg pool args start n m" and good: "good_keys rg keys (Suc n)" and "start \<le> n"
  shows "stress_holds rg pool args start (Suc n) (tx_apply (commit_ops rg pool args n) m)"
proof -
  have "tx_apply (commit_ops rg pool args n) m KEY_RESTART = Some (to_be 8 (of_nat n :: u64))"
    by (simp add: commit_ops_def tx_apply_append) (simp add: tx_apply_def)
  moreover have "tx_apply (commit_ops rg pool args n) m (seed_key rg (i * 100 + j)) =
      (if \<not> ar_archive args \<and> j < 90 \<and> i + 2000 < Suc n then None else Some (seed_value rg pool args (i * 100 + j)))"
    if ij: "start \<le> i" "i < Suc n" "j < 100" for i j
  proof -
    have s: "i * 100 + j < Suc n * 100" using ij by auto
    have "n * 100 \<le> i * 100 + j \<longleftrightarrow> i = n" using ij by auto
    moreover have "(2000 \<le> n \<and> (n - 2000) * 100 \<le> i * 100 + j \<and> i * 100 + j < (n - 2000) * 100 + 90) \<longleftrightarrow> i + 2000 = n \<and> j < 90"
    proof (cases "2000 \<le> n")
      case True
      then obtain k where k: "n = k + 2000" using le_Suc_ex by (metis add.commute)
      show ?thesis using ij(3) unfolding k by (cases "i = k") auto
    qed simp
    moreover have "i \<noteq> n \<Longrightarrow> m (seed_key rg (i * 100 + j)) =
        (if \<not> ar_archive args \<and> j < 90 \<and> i + 2000 < n then None else Some (seed_value rg pool args (i * 100 + j)))"
      using m ij by (simp add: stress_holds_def)
    ultimately show ?thesis unfolding commit_ops_read [OF good s] by auto
  qed
  ultimately show ?thesis by (simp add: stress_holds_def)
qed

section \<open>The test passes\<close>

lemma u64_range_of_nat: "a < 2 ^ 64 \<Longrightarrow> b < 2 ^ 64 \<Longrightarrow> u64_range (of_nat a) (of_nat b) = map of_nat [a..<b]"
  by (simp add: u64_range_def unat_of_nat_small)

text \<open>The check of one commit in terms of seeds.\<close>

lemma check_commit_seeds:
  assumes i: "i < n" and n: "n * 100 < 2 ^ 64"
  shows "check_commit get rg args pool (of_nat n) (of_nat i) q db =
     and_then (if i + 2000 < n
               then and_then (check_absent get rg (map of_nat [i * 100..<i * 100 + (if ar_archive args then 0 else 90)]) q db)
                      (\<lambda>(q, db). Inr (i * 100 + (if ar_archive args then 0 else 90), q, db))
               else Inr (i * 100, q, db)) (\<lambda>(start, q, db).
       check_present get rg pool (ar_compress args) (map of_nat [start..<i * 100 + 100]) q db)"
proof -
  let ?p = "if ar_archive args then 0 else 90 :: nat"
  have b: "n < 2 ^ 64" "i < 2 ^ 64" "i * 100 + 100 < 2 ^ 64" "i * 100 + ?p < 2 ^ 64" using i n by auto
  have un: "unat (of_nat n :: u64) = n" "unat (of_nat i :: u64) = i" using b by (simp_all add: unat_of_nat_small)
  have "(of_nat 2000 :: u64) < of_nat n \<longleftrightarrow> 2000 < n" using un by (simp add: word_less_nat_alt)
  moreover have "(of_nat i :: u64) < of_nat n - of_nat 2000 \<longleftrightarrow> i + 2000 < n" if "2000 < n"
  proof -
    have "unat (of_nat n - of_nat 2000 :: u64) = n - 2000" using un that by (simp add: unat_sub word_le_nat_alt)
    then show ?thesis using un that by (simp add: word_less_nat_alt less_diff_conv)
  qed
  ultimately have window: "(of_nat 2000 :: u64) < of_nat n \<and> of_nat i < (of_nat n - of_nat 2000 :: u64) \<longleftrightarrow> i + 2000 < n" by auto
  have w: "(of_nat i * of_nat 100 :: u64) = of_nat (i * 100)" "((of_nat i + 1) * of_nat 100 :: u64) = of_nat (i * 100 + 100)"
    "of_nat (i * 100) + (if ar_archive args then 0 else of_nat 90) = (of_nat (i * 100 + ?p) :: u64)"
    by (simp_all add: algebra_simps)
  note ranges = u64_range_of_nat [of "i * 100" "i * 100 + ?p"] u64_range_of_nat [of "i * 100 + ?p" "i * 100 + 100"]
    u64_range_of_nat [of "i * 100" "i * 100 + 100"]
  show ?thesis
    unfolding check_commit_def Let_def BENCH_COMMIT_SIZE_def COMMIT_PRUNE_SIZE_def COMMIT_PRUNE_WINDOW_def w window
    using ranges b
    by (cases "i + 2000 < n"; cases "check_absent get rg (map of_nat [i * 100..<i * 100 + ?p]) q db")
       (auto simp del: of_nat_add of_nat_mult upt_rec_numeral)
qed

lemma writer_commit_ops:
  assumes "\<And>s. \<exists>v. SizePool_value rg pool s (ar_compress args) = Inr v"
  shows "writer_commit rg args pool n (of_nat (n * 100)) = Inr (commit_ops rg pool args n, of_nat (Suc n * 100))"
proof -
  have "n * 100 + 100 = Suc n * 100" by simp
  then show ?thesis
    using push_values_run [OF assms, of 100 "n * 100" "[]"]
    by (simp add: writer_commit_def commit_ops_def BENCH_COMMIT_SIZE_def del: of_nat_mult of_nat_add mult_Suc)
qed

text \<open>
  The only writer of a test, at position \<open>p\<close>: three turns for every commit, and one to leave the loop. The
  database holds the commits so far, and the flag is set only after the last one is counted.
\<close>

definition one_writer ::
    "('d \<Rightarrow> (Key \<Rightarrow> bytes option) \<Rightarrow> bool) \<Rightarrow> 'g Rng \<Rightarrow> SizePool \<Rightarrow> Args \<Rightarrow> nat \<Rightarrow> nat \<Rightarrow> 'd Threads \<Rightarrow> bool" where
  "one_writer H rg pool args start p s \<longleftrightarrow>
     (\<exists>m n w. th_writers s = [w] \<and> H (th_db s) m \<and> stress_holds rg pool args start n m \<and>
        start \<le> n \<and> n \<le> start + ar_commits args \<and>
        (th_shutdown s \<longrightarrow> th_commits s = start + ar_commits args) \<and>
        (w = W_check n (of_nat (n * 100)) \<and> th_commits s = n \<and> p = 3 * (n - start) \<or>
         w = W_commit n (of_nat (n * 100)) \<and> n < start + ar_commits args \<and> th_commits s = n \<and> p = 3 * (n - start) + 1 \<or>
         (\<exists>k \<ge> start. n = Suc k \<and> w = W_count k (of_nat (n * 100)) \<and> th_commits s = k \<and> p = 3 * (k - start) + 2) \<or>
         w = W_end \<and> n = start + ar_commits args \<and> th_commits s = n \<and> p = 3 * ar_commits args + 1))"

text \<open>The turns that end a test with one writer.\<close>

definition fair_schedule :: "Args \<Rightarrow> schedule \<Rightarrow> bool" where
  "fair_schedule args sch \<longleftrightarrow>
     (\<exists>xs ys zs. sch = xs @ ys @ zs \<and> 3 * ar_commits args \<le> count_list xs (Writer 0) \<and> Main \<in> set ys \<and>
        {Informant, Writer 0} \<union> Reader ` {..<ar_readers args} \<subseteq> set zs)"

lemma turn_other:
  assumes t: "t \<noteq> Writer 0" and s: "th_writers s = [w]"
    and s'_def: "s' = take_turn commit_to rg args pool start t s"
  shows "th_writers s' = [w]" "th_db s' = th_db s" "th_commits s' = th_commits s"
    "th_shutdown s' \<longrightarrow> th_shutdown s \<or> start + ar_commits args \<le> th_commits s"
proof -
  have "s' = s\<lparr>th_shutdown := th_shutdown s', th_informant := th_informant s', th_readers := th_readers s', th_lines := th_lines s'\<rparr> \<and>
      (th_shutdown s' \<longrightarrow> th_shutdown s \<or> start + ar_commits args \<le> th_commits s)"
  proof (cases t)
    case Main
    then show ?thesis by (simp add: s'_def main_wait_def)
  next
    case Informant
    then show ?thesis by (simp add: s'_def informant_def Let_def split: option.split)
  next
    case (Reader i)
    then show ?thesis by (simp add: s'_def reader_def)
  next
    case (Writer i)
    then show ?thesis using t s by (simp add: s'_def)
  qed
  then obtain a b c d where eq: "s' = s\<lparr>th_shutdown := a, th_informant := b, th_readers := c, th_lines := d\<rparr>"
    and down: "th_shutdown s' \<longrightarrow> th_shutdown s \<or> start + ar_commits args \<le> th_commits s" by blast
  show "th_writers s' = [w]" "th_db s' = th_db s" "th_commits s' = th_commits s" using s by (simp_all add: eq)
  show "th_shutdown s' \<longrightarrow> th_shutdown s \<or> start + ar_commits args \<le> th_commits s" by (rule down)
qed

text \<open>What stays once it has happened.\<close>

lemma writer_frame:
  "th_shutdown (writer commit_to rg args pool start i w s) = th_shutdown s"
  "th_informant (writer commit_to rg args pool start i w s) = th_informant s"
  "th_readers (writer commit_to rg args pool start i w s) = th_readers s"
  by (induction commit_to rg args pool start i w s rule: writer.induct) (auto simp: set_writer_def split: sum.split)

lemma turns_shutdown:
  "th_shutdown s \<Longrightarrow> th_shutdown (fold (take_turn commit_to rg args pool start) sch s)"
proof (induction sch arbitrary: s)
  case (Cons t sch)
  have "th_shutdown (take_turn commit_to rg args pool start t s)"
    using Cons.prems by (cases t) (auto simp: main_wait_def informant_def reader_def writer_frame Let_def split: option.split)
  then show ?case using Cons.IH by simp
qed simp

lemma turns_informant:
  assumes "th_shutdown s" and "Informant \<in> set sch \<or> th_informant s = None"
  shows "th_informant (fold (take_turn commit_to rg args pool start) sch s) = None"
  using assms
proof (induction sch arbitrary: s)
  case (Cons t sch)
  have "th_informant (take_turn commit_to rg args pool start t s) = (if t = Informant then None else th_informant s)"
    using Cons.prems(1) by (cases t) (auto simp: main_wait_def informant_def reader_def writer_frame split: option.split)
  moreover have "th_shutdown (take_turn commit_to rg args pool start t s)"
    using turns_shutdown [OF Cons.prems(1), of commit_to rg args pool start "[t]"] by simp
  ultimately show ?case using Cons by auto
qed simp

lemma turns_readers:
  assumes "th_shutdown s"
  shows "th_readers (fold (take_turn commit_to rg args pool start) sch s) =
     map (\<lambda>i. th_readers s ! i \<and> Reader i \<notin> set sch) [0..<length (th_readers s)]"
  using assms
proof (induction sch arbitrary: s)
  case Nil
  then show ?case by (simp add: map_nth)
next
  case (Cons t sch)
  have "th_readers (take_turn commit_to rg args pool start t s) =
      (case t of Reader i \<Rightarrow> (th_readers s)[i := False] | _ \<Rightarrow> th_readers s)"
    using Cons.prems by (cases t) (auto simp: main_wait_def informant_def reader_def writer_frame split: option.split)
  moreover have "th_shutdown (take_turn commit_to rg args pool start t s)"
    using turns_shutdown [OF Cons.prems, of commit_to rg args pool start "[t]"] by simp
  moreover have "(xs[i := False]) ! j \<longleftrightarrow> xs ! j \<and> j \<noteq> i" if "j < length xs" for xs :: "bool list" and i j
    using that by (cases "i = j") auto
  ultimately show ?case using Cons.IH by (cases t) auto
qed

text \<open>When the flag is set, a turn of every writer ends the writers.\<close>

lemma writers_stop:
  assumes "th_shutdown s" and "\<forall>x \<in> set (th_writers s). \<exists>n key. x = W_check n key"
  shows "k \<le> length (th_writers s) \<Longrightarrow>
     fold (take_turn commit_to rg args pool start) (map Writer [0..<k]) s =
     s\<lparr>th_writers := replicate k W_end @ drop k (th_writers s)\<rparr>"
proof (induction k)
  case (Suc k)
  then have k: "k < length (th_writers s)" by simp
  then obtain n key where "th_writers s ! k = W_check n key" using assms(2) nth_mem by blast
  moreover have "drop k (th_writers s) = th_writers s ! k # drop (Suc k) (th_writers s)" by (rule Cons_nth_drop_Suc [OF k, symmetric])
  ultimately show ?case
    using Suc assms(1) by (simp add: set_writer_def nth_append list_update_append replicate_append_same [symmetric])
qed simp

lemma quiet_turns:
  assumes "\<forall>t \<in> set ts. t = Informant \<or> (\<exists>i. t = Reader i)"
  shows "th_writers (fold (take_turn commit_to rg args pool start) ts s) = th_writers s \<and>
    th_db (fold (take_turn commit_to rg args pool start) ts s) = th_db s \<and>
    th_commits (fold (take_turn commit_to rg args pool start) ts s) = th_commits s"
  using assms
proof (induction ts arbitrary: s)
  case (Cons t ts)
  have "th_writers (informant n k s) = th_writers s \<and> th_db (informant n k s) = th_db s \<and> th_commits (informant n k s) = th_commits s" for n k
    by (simp add: informant_def Let_def split: option.split)
  with Cons show ?case by (auto simp: reader_def)
qed simp

lemma one_writer_late: "one_writer H rg pool args start p s \<Longrightarrow> 3 * ar_commits args \<le> p \<Longrightarrow> start + ar_commits args \<le> th_commits s"
  unfolding one_writer_def by (elim exE conjE disjE) linarith+

lemma one_writer_end:
  assumes "one_writer H rg pool args start p s" and p: "3 * ar_commits args < p"
  shows "th_writers s = [W_end]"
proof -
  obtain n w where s: "th_writers s = [w]" "start \<le> n" "n \<le> start + ar_commits args"
    and c: "w = W_check n (of_nat (n * 100)) \<and> th_commits s = n \<and> p = 3 * (n - start) \<or>
         w = W_commit n (of_nat (n * 100)) \<and> n < start + ar_commits args \<and> th_commits s = n \<and> p = 3 * (n - start) + 1 \<or>
         (\<exists>k \<ge> start. n = Suc k \<and> w = W_count k (of_nat (n * 100)) \<and> th_commits s = k \<and> p = 3 * (k - start) + 2) \<or>
         w = W_end \<and> n = start + ar_commits args \<and> th_commits s = n \<and> p = 3 * ar_commits args + 1"
    using assms(1) unfolding one_writer_def by blast
  have "p \<noteq> 3 * (n - start)" using p s by linarith
  moreover have "\<not> (n < start + ar_commits args \<and> p = 3 * (n - start) + 1)" using p s by linarith
  moreover have "\<not> (\<exists>k \<ge> start. n = Suc k \<and> p = 3 * (k - start) + 2)" using p s by auto
  ultimately show ?thesis using c s(1) by blast
qed

text \<open>The contract of \<open>BenchDb\<close>: it holds a map of the keys used, which a commit changes and a read returns.\<close>

locale bench_db =
  fixes get :: "'d \<Rightarrow> Key \<Rightarrow> (bytes option \<times> 'd) res"
    and commit_to :: "'d \<Rightarrow> tx \<Rightarrow> 'd res"
    and holds_map :: "'d \<Rightarrow> (Key \<Rightarrow> bytes option) \<Rightarrow> bool"
    and keys :: "Key set"
  assumes get_law: "holds_map db m \<Longrightarrow> k \<in> keys \<Longrightarrow> \<exists>db'. get db k = Inr (m k, db') \<and> holds_map db' m"
    and commit_law: "holds_map db m \<Longrightarrow> fst ` set tx \<subseteq> keys \<Longrightarrow>
      \<exists>db'. commit_to db tx = Inr db' \<and> holds_map db' (tx_apply tx m)"
begin

lemma one_writer_turn:
  assumes val: "\<And>s. \<exists>v. SizePool_value rg pool s (ar_compress args) = Inr v"
    and good: "good_keys rg keys (start + ar_commits args)" and w: "one_writer holds_map rg pool args start p s"
  shows "one_writer holds_map rg pool args start (min (p + (if t = Writer 0 then 1 else 0)) (3 * ar_commits args + 1))
     (take_turn commit_to rg args pool start t s)"
proof -
  obtain m n w where s: "th_writers s = [w]" "holds_map (th_db s) m" "stress_holds rg pool args start n m"
      "start \<le> n" "n \<le> start + ar_commits args" "th_shutdown s \<longrightarrow> th_commits s = start + ar_commits args"
    and c: "w = W_check n (of_nat (n * 100)) \<and> th_commits s = n \<and> p = 3 * (n - start) \<or>
         w = W_commit n (of_nat (n * 100)) \<and> n < start + ar_commits args \<and> th_commits s = n \<and> p = 3 * (n - start) + 1 \<or>
         (\<exists>k \<ge> start. n = Suc k \<and> w = W_count k (of_nat (n * 100)) \<and> th_commits s = k \<and> p = 3 * (k - start) + 2) \<or>
         w = W_end \<and> n = start + ar_commits args \<and> th_commits s = n \<and> p = 3 * ar_commits args + 1"
    using w unfolding one_writer_def by blast
  have p: "p \<le> 3 * ar_commits args + 1" using c s(4,5) by auto
  show ?thesis
  proof (cases "t = Writer 0")
    case False
    have "one_writer holds_map rg pool args start p (take_turn commit_to rg args pool start t s)"
      unfolding one_writer_def
      using turn_other [OF False s(1) refl, of commit_to rg args pool start] s c
      by (intro exI [of _ m] exI [of _ n] exI [of _ w]) auto
    then show ?thesis using False p by (simp add: min_def)
  next
    case True
    let ?s = "take_turn commit_to rg args pool start t s"
    consider (check) "w = W_check n (of_nat (n * 100))" "th_commits s = n" "p = 3 * (n - start)"
      | (commit) "w = W_commit n (of_nat (n * 100))" "n < start + ar_commits args" "th_commits s = n" "p = 3 * (n - start) + 1"
      | (count) k where "start \<le> k" "n = Suc k" "w = W_count k (of_nat (n * 100))" "th_commits s = k" "p = 3 * (k - start) + 2"
      | (ended) "w = W_end" "n = start + ar_commits args" "th_commits s = n" "p = 3 * ar_commits args + 1"
      using c by blast
    then show ?thesis
    proof cases
      case check
      show ?thesis
      proof (cases "n < start + ar_commits args")
        case n: True
        then have "\<not> th_shutdown s" using s(6) check(2) by auto
        moreover have "min (p + 1) (3 * ar_commits args + 1) = 3 * (n - start) + 1" using n check(3) s(4) by auto
        ultimately show ?thesis
          unfolding one_writer_def using True s check n
          by (intro exI [of _ m] exI [of _ n] exI [of _ "W_commit n (of_nat (n * 100))"]) (simp add: set_writer_def)
      next
        case n: False
        then have "n = start + ar_commits args" "min (p + 1) (3 * ar_commits args + 1) = 3 * ar_commits args + 1"
          using s(5) check(3) by auto
        then show ?thesis
          unfolding one_writer_def using True s check n
          by (intro exI [of _ m] exI [of _ n] exI [of _ W_end]) (simp add: set_writer_def)
      qed
    next
      case commit
      have good1: "good_keys rg keys (Suc n)" by (rule good_keys_mono [OF good]) (use commit in simp)
      obtain db1 where db1: "commit_to (th_db s) (commit_ops rg pool args n) = Inr db1"
          "holds_map db1 (tx_apply (commit_ops rg pool args n) m)"
        using commit_law [OF s(2) commit_ops_keys [OF good1]] by blast
      have "\<not> th_shutdown s" using s(6) commit by auto
      moreover have "min (p + 1) (3 * ar_commits args + 1) = 3 * (n - start) + 2" using commit s(4) by auto
      ultimately show ?thesis
        unfolding one_writer_def
        using True s(1,4) commit db1 stress_step [OF s(3) good1 s(4)] writer_commit_ops [OF val, of n]
        by (intro exI [of _ "tx_apply (commit_ops rg pool args n) m"] exI [of _ "Suc n"] exI [of _ "W_count n (of_nat (Suc n * 100))"])
           (simp add: set_writer_def del: of_nat_mult mult_Suc)
    next
      case (count k)
      have "\<not> th_shutdown s" using s(5,6) count by auto
      moreover have "min (p + 1) (3 * ar_commits args + 1) = 3 * (n - start)" using count s(5) by auto
      ultimately show ?thesis
        unfolding one_writer_def using True s count
        by (intro exI [of _ m] exI [of _ n] exI [of _ "W_check n (of_nat (n * 100))"])
           (simp add: set_writer_def del: of_nat_mult mult_Suc)
    next
      case ended
      then show ?thesis
        unfolding one_writer_def using True s
        by (intro exI [of _ m] exI [of _ n] exI [of _ W_end]) simp
    qed
  qed
qed

lemma check_absent_ok:
  "holds_map db m \<Longrightarrow> \<forall>s \<in> set ss. seed_key rg s \<in> keys \<and> m (seed_key rg s) = None \<Longrightarrow>
     \<exists>db'. check_absent get rg (map of_nat ss) q db = Inr (q + length ss, db') \<and> holds_map db' m"
proof (induction ss arbitrary: q db)
  case (Cons s ss)
  obtain db1 where "get db (seed_key rg s) = Inr (None, db1)" "holds_map db1 m"
    using get_law [OF Cons.prems(1), of "seed_key rg s"] Cons.prems(2) by auto
  with Cons.IH [of db1 "q + 1"] Cons.prems(2) show ?case by (simp add: seed_key_def expect_value_def)
qed simp

lemma check_present_ok:
  assumes val: "\<And>s. \<exists>v. SizePool_value rg pool s (ar_compress args) = Inr v"
  shows "holds_map db m \<Longrightarrow> \<forall>s \<in> set ss. seed_key rg s \<in> keys \<and> m (seed_key rg s) = Some (seed_value rg pool args s) \<Longrightarrow>
     \<exists>db'. check_present get rg pool (ar_compress args) (map of_nat ss) q db = Inr (q + length ss, db') \<and> holds_map db' m"
proof (induction ss arbitrary: q db)
  case (Cons s ss)
  obtain v where v: "SizePool_value rg pool (of_nat s) (ar_compress args) = Inr v" using val by blast
  obtain db1 where "get db (seed_key rg s) = Inr (Some v, db1)" "holds_map db1 m"
    using get_law [OF Cons.prems(1), of "seed_key rg s"] Cons.prems(2) v by (auto simp: seed_value_def)
  with v Cons.IH [of db1 "q + 1"] Cons.prems(2) show ?case by (simp add: seed_key_def expect_value_def)
qed simp

end

context bench_db
begin

lemma check_commit_ok:
  assumes val: "\<And>s. \<exists>v. SizePool_value rg pool s (ar_compress args) = Inr v"
    and hold: "holds_map db m" and m: "stress_holds rg pool args start n m" and good: "good_keys rg keys n"
    and i: "start \<le> i" "i < n"
  shows "\<exists>db'. check_commit get rg args pool (of_nat n) (of_nat i) q db = Inr (q + 100, db') \<and> holds_map db' m"
proof -
  define p where "p = (if i + 2000 < n \<and> \<not> ar_archive args then 90 else 0 :: nat)"
  have seeds: "seed_key rg s \<in> keys" "m (seed_key rg s) = (if s < i * 100 + p then None else Some (seed_value rg pool args s))"
    if s: "i * 100 \<le> s" "s < i * 100 + 100" for s
  proof -
    have "s < n * 100" using s i(2) by auto
    then show "seed_key rg s \<in> keys" using good by (simp add: good_keys_def)
    obtain j where "s = i * 100 + j" "j < 100" using s le_Suc_ex by force
    then show "m (seed_key rg s) = (if s < i * 100 + p then None else Some (seed_value rg pool args s))"
      using m i by (auto simp: stress_holds_def p_def)
  qed
  have p: "p \<le> 90" by (simp add: p_def)
  obtain db1 where 1: "check_absent get rg (map of_nat [i * 100..<i * 100 + p]) q db = Inr (q + p, db1)" "holds_map db1 m"
    using check_absent_ok [OF hold, of "[i * 100..<i * 100 + p]" rg q] seeds p by auto
  obtain db2 where 2: "check_present get rg pool (ar_compress args) (map of_nat [i * 100 + p..<i * 100 + 100]) (q + p) db1 =
      Inr (q + p + (100 - p), db2)" "holds_map db2 m"
    using check_present_ok [OF val 1(2), of "[i * 100 + p..<i * 100 + 100]" "q + p"] seeds p by auto
  have n: "n * 100 < 2 ^ 64" using good by (simp add: good_keys_def)
  note unfold = check_commit_seeds [OF i(2) n, of get rg args pool q db]
  show ?thesis
  proof (cases "i + 2000 < n")
    case True
    then have "(if ar_archive args then 0 else 90) = p" by (simp add: p_def)
    then show ?thesis using True 1 2 p unfold by simp
  next
    case False
    then have "p = 0" by (simp add: p_def)
    then have "db1 = db" using 1(1) by simp
    with \<open>p = 0\<close> False 2 show ?thesis using unfold by simp
  qed
qed

lemma check_commits_ok:
  assumes val: "\<And>s. \<exists>v. SizePool_value rg pool s (ar_compress args) = Inr v"
    and m: "stress_holds rg pool args start n m" and good: "good_keys rg keys n"
  shows "holds_map db m \<Longrightarrow> \<forall>i \<in> set is. start \<le> i \<and> i < n \<Longrightarrow>
     \<exists>db'. check_commits get rg args pool (of_nat n) (map of_nat is) q db = Inr (q + 100 * length is, db') \<and> holds_map db' m"
proof (induction "is" arbitrary: q db)
  case (Cons i "is")
  obtain db1 where db1: "check_commit get rg args pool (of_nat n) (of_nat i) q db = Inr (q + 100, db1)" "holds_map db1 m"
    using check_commit_ok [OF val Cons.prems(1) m good, of i q] Cons.prems(2) by auto
  from Cons.IH [OF db1(2), of "q + 100"] Cons.prems(2) db1(1) show ?case by (simp add: add.assoc)
qed simp

lemma one_writer_turns:
  assumes val: "\<And>s. \<exists>v. SizePool_value rg pool s (ar_compress args) = Inr v"
    and good: "good_keys rg keys (start + ar_commits args)"
  shows "one_writer holds_map rg pool args start p s \<Longrightarrow>
     one_writer holds_map rg pool args start (min (p + count_list sch (Writer 0)) (3 * ar_commits args + 1))
       (fold (take_turn commit_to rg args pool start) sch s)"
proof (induction sch arbitrary: p s)
  case Nil
  have "p \<le> 3 * ar_commits args + 1" using Nil by (auto simp: one_writer_def)
  then show ?case using Nil by (simp add: min_def)
next
  case (Cons t sch)
  let ?p = "min (p + (if t = Writer 0 then 1 else 0)) (3 * ar_commits args + 1)"
  have "min (?p + count_list sch (Writer 0)) (3 * ar_commits args + 1) =
      min (p + count_list (t # sch) (Writer 0)) (3 * ar_commits args + 1)" by auto
  then show ?case using Cons.IH [OF one_writer_turn [OF val good Cons.prems, of t]] by simp
qed

text \<open>The threads of a test with one writer end in a fair schedule.\<close>

lemma fair_ends:
  assumes val: "\<And>s. \<exists>v. SizePool_value rg pool s (ar_compress args) = Inr v"
    and good: "good_keys rg keys (start + ar_commits args)"
    and w: "one_writer holds_map rg pool args start p s" and r: "length (th_readers s) = ar_readers args"
    and fair: "fair_schedule args sch"
  shows "threads_ended (fold (take_turn commit_to rg args pool start) sch s)"
proof -
  let ?run = "fold (take_turn commit_to rg args pool start)" and ?c = "ar_commits args"
  obtain xs ys zs where sch: "sch = xs @ ys @ zs" and xs: "3 * ?c \<le> count_list xs (Writer 0)" and ys: "Main \<in> set ys"
      and zs: "{Informant, Writer 0} \<union> Reader ` {..<ar_readers args} \<subseteq> set zs"
    using fair unfolding fair_schedule_def by (elim exE conjE)
  obtain y1 y2 where y: "ys = y1 @ Main # y2" using split_list [OF ys] by blast
  note turns = one_writer_turns [OF val good]
  have "one_writer holds_map rg pool args start (min (p + count_list (xs @ y1) (Writer 0)) (3 * ?c + 1)) (?run (xs @ y1) s)"
    by (rule turns [OF w])
  then have "start + ?c \<le> th_commits (?run (xs @ y1) s)"
    by (rule one_writer_late) (use xs in simp)
  then have "th_shutdown (?run (xs @ y1 @ [Main]) s)" by (simp add: main_wait_def)
  from turns_shutdown [OF this, of commit_to rg args pool start y2]
  have down: "th_shutdown (?run (xs @ ys) s)" by (simp add: y)
  have s: "?run sch s = ?run zs (?run (xs @ ys) s)" by (simp add: sch)
  have rd: "length (th_readers (?run ts s')) = length (th_readers s')" for ts s'
  proof (induction ts arbitrary: s')
    case (Cons t ts)
    have "length (th_readers (take_turn commit_to rg args pool start t s')) = length (th_readers s')"
      by (cases t) (auto simp: main_wait_def informant_def reader_def writer_frame Let_def split: option.split)
    then show ?case using Cons.IH by simp
  qed simp
  have "0 < count_list zs (Writer 0)" using zs count_list_0_iff [of zs "Writer 0"] by auto
  then have "3 * ?c + 1 \<le> count_list sch (Writer 0)" using xs by (simp add: sch)
  then have last_pos: "min (p + count_list sch (Writer 0)) (3 * ?c + 1) = 3 * ?c + 1" by simp
  have "one_writer holds_map rg pool args start (3 * ?c + 1) (?run sch s)"
    using turns [OF w, of sch] unfolding last_pos .
  then have "th_writers (?run sch s) = [W_end]" by (rule one_writer_end) simp
  moreover have "th_informant (?run sch s) = None" unfolding s by (rule turns_informant [OF down]) (use zs in simp)
  moreover have "True \<notin> set (th_readers (?run sch s))"
    unfolding s turns_readers [OF down] rd using r zs by auto
  moreover have "th_shutdown (?run sch s)" unfolding s by (rule turns_shutdown [OF down])
  ultimately show ?thesis by (simp add: threads_ended_def)
qed

lemma stress_passes:
  assumes hold: "holds_map db m" and one: "ar_writers args = 1"
    and start: "start_commit_of (m KEY_RESTART) = Inr start" and good: "good_keys rg keys (start + ar_commits args)"
  shows "(\<exists>db' m'. run_internal get commit_to rg sch args db =
       Inr (if ar_no_check args then 0 else 100 * ar_commits args, db') \<and>
     holds_map db' m' \<and>
     stress_holds rg (SizePool_from_histogram AXIATEST_STATE_DISTRIBUTION) args start (start + ar_commits args) m') \<or>
    run_internal get commit_to rg sch args db = Inl Diverge \<and> \<not> fair_schedule args sch"
proof -
  let ?pool = "SizePool_from_histogram AXIATEST_STATE_DISTRIBUTION" and ?n = "start + ar_commits args"
  note val = axiatest_value [of rg _ "ar_compress args"]
  have r: "KEY_RESTART \<in> keys" using good by (simp add: good_keys_def)
  obtain db0 where db0: "get db KEY_RESTART = Inr (m KEY_RESTART, db0)" "holds_map db0 m"
    using get_law [OF hold r] by blast
  let ?s0 = "spawn_threads args start db0"
  define s where "s = fold (take_turn commit_to rg args ?pool start) sch ?s0"
  have s0: "one_writer holds_map rg ?pool args start 0 ?s0"
    unfolding one_writer_def using db0(2) one
    by (intro exI [of _ m] exI [of _ start] exI [of _ "W_check start (of_nat (start * 100))"])
       (simp add: spawn_threads_def stress_holds_def BENCH_COMMIT_SIZE_def)
  show ?thesis
  proof (cases "threads_ended s")
    case False
    then have "run_internal get commit_to rg sch args db = Inl Diverge"
      using db0(1) start by (simp add: run_internal_def Let_def s_def)
    moreover have "\<not> fair_schedule args sch"
      using fair_ends [OF val good s0] False by (auto simp: s_def spawn_threads_def)
    ultimately show ?thesis by simp
  next
    case True
    obtain p where "one_writer holds_map rg ?pool args start p s"
      using one_writer_turns [OF val good s0] s_def by blast
    then obtain m1 where w: "holds_map (th_db s) m1" "stress_holds rg ?pool args start ?n m1" "th_commits s = ?n" "th_writers s = [W_end]"
      using True unfolding one_writer_def threads_ended_def writer_panicked_def by auto
    have n: "?n < 2 ^ 64" "start < 2 ^ 64" using good by (auto simp: good_keys_def)
    obtain db2 where "check_commits get rg args ?pool (of_nat ?n) (map of_nat [start..<?n]) 0 (th_db s) = Inr (100 * ar_commits args, db2)"
        "holds_map db2 m1"
      using check_commits_ok [OF val w(2) good w(1), of "[start..<?n]" 0] by auto
    then have "\<exists>db' m'. run_internal get commit_to rg sch args db =
         Inr (if ar_no_check args then 0 else 100 * ar_commits args, db') \<and>
       holds_map db' m' \<and> stress_holds rg ?pool args start ?n m'"
      using db0(1) start w True u64_range_of_nat [OF n(2,1)]
      by (cases "ar_no_check args") (auto simp: run_internal_def Let_def s_def [symmetric] writer_panicked_def simp del: of_nat_add)
    then show ?thesis ..
  qed
qed

end

section \<open>Several writers\<close>

text \<open>The check either finds what it looks for, or it fails with the message of the assertion.\<close>

abbreviation check_fails :: fault where
  "check_fails \<equiv> Panic ''assertion failed: `(left == right)`''"

context bench_db
begin

text \<open>A writer that is alone for a while makes its commits and touches no later key.\<close>

lemma writer_alone:
  assumes val: "\<And>s. \<exists>v. SizePool_value rg pool s (ar_compress args) = Inr v"
    and good: "good_keys rg keys (start + ar_commits args)"
  shows "holds_map (th_db s) m \<Longrightarrow> i < length (th_writers s) \<Longrightarrow> th_writers s ! i = W_check n (of_nat (n * 100)) \<Longrightarrow>
      n + k \<le> start + ar_commits args \<Longrightarrow> \<not> th_shutdown s \<Longrightarrow>
     \<exists>db m'. fold (take_turn commit_to rg args pool start) (replicate (3 * k) (Writer i)) s =
         set_writer i (W_check (n + k) (of_nat ((n + k) * 100))) (s\<lparr>th_db := db, th_commits := th_commits s + k\<rparr>) \<and>
       holds_map db m' \<and>
       (\<forall>x. (n + k) * 100 \<le> x \<longrightarrow> x < (start + ar_commits args) * 100 \<longrightarrow> m' (seed_key rg x) = m (seed_key rg x))"
proof (induction k arbitrary: n s m)
  case 0
  then have "(th_writers s)[i := W_check n (of_nat (n * 100))] = th_writers s" by (metis list_update_id)
  then show ?case using 0 by (intro exI [of _ "th_db s"] exI [of _ m]) (simp add: set_writer_def del: of_nat_mult)
next
  case (Suc k)
  let ?t = "take_turn commit_to rg args pool start (Writer i)"
  have good1: "good_keys rg keys (Suc n)" by (rule good_keys_mono [OF good]) (use Suc.prems in simp)
  obtain db1 where db1: "commit_to (th_db s) (commit_ops rg pool args n) = Inr db1"
      "holds_map db1 (tx_apply (commit_ops rg pool args n) m)"
    using commit_law [OF Suc.prems(1) commit_ops_keys [OF good1]] by blast
  let ?s = "set_writer i (W_check (Suc n) (of_nat (Suc n * 100))) (s\<lparr>th_db := db1, th_commits := th_commits s + 1\<rparr>)"
  have step: "?t (?t (?t s)) = ?s"
    using Suc.prems db1(1) writer_commit_ops [OF val, of n]
    by (simp add: set_writer_def del: of_nat_mult mult_Suc)
  obtain db m' where rest: "fold (take_turn commit_to rg args pool start) (replicate (3 * k) (Writer i)) ?s =
         set_writer i (W_check (Suc n + k) (of_nat ((Suc n + k) * 100))) (?s\<lparr>th_db := db, th_commits := th_commits ?s + k\<rparr>)"
       "holds_map db m'"
       "\<forall>x. (Suc n + k) * 100 \<le> x \<longrightarrow> x < (start + ar_commits args) * 100 \<longrightarrow>
          m' (seed_key rg x) = tx_apply (commit_ops rg pool args n) m (seed_key rg x)"
  proof (atomize_elim, rule Suc.IH)
    show "holds_map (th_db ?s) (tx_apply (commit_ops rg pool args n) m)" using db1(2) by (simp add: set_writer_def)
    show "th_writers ?s ! i = W_check (Suc n) (of_nat (Suc n * 100))"
      using Suc.prems(2) by (simp add: set_writer_def del: of_nat_mult mult_Suc)
  qed (use Suc.prems in \<open>simp_all add: set_writer_def\<close>)
  have later: "tx_apply (commit_ops rg pool args n) m (seed_key rg x) = m (seed_key rg x)"
    if "Suc n * 100 \<le> x" "x < (start + ar_commits args) * 100" for x
  proof (rule tx_apply_other)
    have inj: "inj_on (seed_key rg) {..<(start + ar_commits args) * 100}" and mark: "seed_key rg x \<noteq> KEY_RESTART"
      using good that by (simp_all add: good_keys_def)
    have other: "seed_key rg x \<noteq> seed_key rg y" if "y < n * 100 + 100 \<or> y < (n - 2000) * 100 + 90" for y
    proof -
      have "y < Suc n * 100" using that by auto
      then show ?thesis using inj_onD [OF inj, of x y] \<open>Suc n * 100 \<le> x\<close> \<open>x < _\<close> by auto
    qed
    have "fst ` set (commit_ops rg pool args n) \<subseteq>
        insert KEY_RESTART (seed_key rg ` {y. y < n * 100 + 100 \<or> y < (n - 2000) * 100 + 90})"
      by (auto simp: commit_ops_def prune_ops_seeds)
    then show "seed_key rg x \<notin> fst ` set (commit_ops rg pool args n)" using other mark by blast
  qed
  have "replicate (3 * Suc k) (Writer i) = Writer i # Writer i # Writer i # replicate (3 * k) (Writer i)"
    by (simp add: numeral_3_eq_3)
  moreover have "tx_apply (commit_ops rg pool args n) m (seed_key rg x) = m (seed_key rg x)"
    if "(Suc n + k) * 100 \<le> x" "x < (start + ar_commits args) * 100" for x
    by (rule later) (use that in simp_all)
  ultimately show ?case
    using rest step by (intro exI [of _ db] exI [of _ m']) (auto simp: set_writer_def simp del: of_nat_mult mult_Suc take_turn.simps)
qed

lemma check_absent_cases:
  "holds_map db m \<Longrightarrow> \<forall>s \<in> set ss. seed_key rg s \<in> keys \<Longrightarrow>
     check_absent get rg (map of_nat ss) q db = Inl check_fails \<or>
     (\<exists>q' db'. check_absent get rg (map of_nat ss) q db = Inr (q', db') \<and> holds_map db' m)"
proof (induction ss arbitrary: q db)
  case (Cons s ss)
  obtain db1 where "get db (seed_key rg s) = Inr (m (seed_key rg s), db1)" "holds_map db1 m"
    using get_law [OF Cons.prems(1), of "seed_key rg s"] Cons.prems(2) by auto
  with Cons.IH [of db1 "q + 1"] Cons.prems(2) show ?case
    by (cases "m (seed_key rg s) = None") (simp_all add: seed_key_def expect_value_def)
qed simp

lemma check_present_cases:
  assumes val: "\<And>s. \<exists>v. SizePool_value rg pool s (ar_compress args) = Inr v"
  shows "holds_map db m \<Longrightarrow> \<forall>s \<in> set ss. seed_key rg s \<in> keys \<Longrightarrow>
     check_present get rg pool (ar_compress args) (map of_nat ss) q db = Inl check_fails \<or>
     (\<exists>q' db'. check_present get rg pool (ar_compress args) (map of_nat ss) q db = Inr (q', db') \<and> holds_map db' m \<and>
        (\<forall>s \<in> set ss. m (seed_key rg s) \<noteq> None))"
proof (induction ss arbitrary: q db)
  case (Cons s ss)
  obtain v where v: "SizePool_value rg pool (of_nat s) (ar_compress args) = Inr v" using val by blast
  obtain db1 where "get db (seed_key rg s) = Inr (m (seed_key rg s), db1)" "holds_map db1 m"
    using get_law [OF Cons.prems(1), of "seed_key rg s"] Cons.prems(2) by auto
  with v Cons.IH [of db1 "q + 1"] Cons.prems(2) show ?case
    by (cases "m (seed_key rg s) = Some v") (simp_all add: seed_key_def expect_value_def)
qed auto

lemma check_commit_cases:
  assumes val: "\<And>s. \<exists>v. SizePool_value rg pool s (ar_compress args) = Inr v"
    and hold: "holds_map db m" and good: "good_keys rg keys n" and i: "i < n"
  shows "check_commit get rg args pool (of_nat n) (of_nat i) q db = Inl check_fails \<or>
     (\<exists>q' db'. check_commit get rg args pool (of_nat n) (of_nat i) q db = Inr (q', db') \<and> holds_map db' m \<and>
        m (seed_key rg (i * 100 + 99)) \<noteq> None)"
proof -
  have n: "n * 100 < 2 ^ 64" using good by (simp add: good_keys_def)
  have keys: "seed_key rg s \<in> keys" if "s < i * 100 + 100" for s
  proof -
    have "s < n * 100" using that i by auto
    then show ?thesis using good by (simp add: good_keys_def)
  qed
  let ?p = "if ar_archive args then 0 else 90 :: nat"
  have present: "check_present get rg pool (ar_compress args) (map of_nat [b..<i * 100 + 100]) q1 db1 = Inl check_fails \<or>
     (\<exists>q' db'. check_present get rg pool (ar_compress args) (map of_nat [b..<i * 100 + 100]) q1 db1 = Inr (q', db') \<and>
        holds_map db' m \<and> m (seed_key rg (i * 100 + 99)) \<noteq> None)" if "holds_map db1 m" "b \<le> i * 100 + 90" for b q1 db1
    using check_present_cases [OF val that(1), of "[b..<i * 100 + 100]" q1] keys that(2) by auto
  show ?thesis
  proof (cases "i + 2000 < n")
    case True
    have "\<forall>s \<in> set [i * 100..<i * 100 + ?p]. seed_key rg s \<in> keys" using keys by auto
    from check_absent_cases [OF hold this, of q]
    consider "check_absent get rg (map of_nat [i * 100..<i * 100 + ?p]) q db = Inl check_fails"
      | q1 db1 where "check_absent get rg (map of_nat [i * 100..<i * 100 + ?p]) q db = Inr (q1, db1)" "holds_map db1 m"
      by blast
    then show ?thesis
    proof cases
      case 1
      then show ?thesis using True unfolding check_commit_seeds [OF i n] by simp
    next
      case 2
      have "i * 100 + ?p \<le> i * 100 + 90" by simp
      from present [OF 2(2) this, of q1] 2(1) True show ?thesis unfolding check_commit_seeds [OF i n] by simp
    qed
  next
    case False
    then show ?thesis using present [OF hold, of "i * 100" q] unfolding check_commit_seeds [OF i n] by simp
  qed
qed

lemma check_commits_fail:
  assumes val: "\<And>s. \<exists>v. SizePool_value rg pool s (ar_compress args) = Inr v"
    and good: "good_keys rg keys n" and missing: "m (seed_key rg (j * 100 + 99)) = None"
  shows "holds_map db m \<Longrightarrow> \<forall>i \<in> set is. i < n \<Longrightarrow> j \<in> set is \<Longrightarrow>
     check_commits get rg args pool (of_nat n) (map of_nat is) q db = Inl check_fails"
proof (induction "is" arbitrary: q db)
  case (Cons i "is")
  have "m (seed_key rg (i * 100 + 99)) \<noteq> None \<Longrightarrow> i \<noteq> j" using missing by auto
  with check_commit_cases [OF val Cons.prems(1) good, of i q] Cons.prems(2)
  consider "check_commit get rg args pool (of_nat n) (of_nat i) q db = Inl check_fails"
    | q' db' where "check_commit get rg args pool (of_nat n) (of_nat i) q db = Inr (q', db')" "holds_map db' m" "i \<noteq> j"
    by (metis list.set_intros(1))
  then show ?case using Cons.IH Cons.prems by cases auto
qed simp

text \<open>
  The first writer makes all commits but one, the second makes the first commit again, and with it the number
  of commits is reached.
\<close>

lemma writers_miss:
  assumes hold: "holds_map db m" and w: "2 \<le> ar_writers args" and c: "2 \<le> ar_commits args" and check: "\<not> ar_no_check args"
    and start: "start_commit_of (m KEY_RESTART) = Inr start" and good: "good_keys rg keys (start + ar_commits args)"
    and missing: "m (seed_key rg ((start + ar_commits args - 1) * 100 + 99)) = None"
  shows "\<exists>sch. run_internal get commit_to rg sch args db = Inl check_fails"
proof -
  let ?pool = "SizePool_from_histogram AXIATEST_STATE_DISTRIBUTION" and ?c = "ar_commits args" and ?w = "ar_writers args"
  note val = axiatest_value [of rg _ "ar_compress args"]
  let ?run = "fold (take_turn commit_to rg args ?pool start)"
  have r: "KEY_RESTART \<in> keys" using good by (simp add: good_keys_def)
  obtain db0 where db0: "get db KEY_RESTART = Inr (m KEY_RESTART, db0)" "holds_map db0 m"
    using get_law [OF hold r] by blast
  define s0 where "s0 = spawn_threads args start db0"
  define pc where "pc n = W_check n (of_nat (n * 100))" for n
  have s0: "th_writers s0 = replicate ?w (pc start)" "\<not> th_shutdown s0" "th_commits s0 = start" "th_db s0 = db0"
      "length (th_readers s0) = ar_readers args"
    by (simp_all add: s0_def spawn_threads_def pc_def BENCH_COMMIT_SIZE_def)
  obtain db1 m1 where r1: "?run (replicate (3 * (?c - 1)) (Writer 0)) s0 =
      set_writer 0 (pc (start + (?c - 1))) (s0\<lparr>th_db := db1, th_commits := th_commits s0 + (?c - 1)\<rparr>)" "holds_map db1 m1"
      "\<forall>x. (start + (?c - 1)) * 100 \<le> x \<longrightarrow> x < (start + ?c) * 100 \<longrightarrow> m1 (seed_key rg x) = m (seed_key rg x)"
    using writer_alone [OF val good, of s0 m 0 start "?c - 1"] s0 db0(2) w by (auto simp: pc_def)
  define s1 where "s1 = set_writer 0 (pc (start + (?c - 1))) (s0\<lparr>th_db := db1, th_commits := th_commits s0 + (?c - 1)\<rparr>)"
  have s1: "th_writers s1 = (replicate ?w (pc start)) [0 := pc (start + (?c - 1))]" "\<not> th_shutdown s1" "th_db s1 = db1"
      "th_commits s1 = start + (?c - 1)" "length (th_readers s1) = ar_readers args"
    using s0 by (simp_all add: s1_def set_writer_def)
  obtain db2 m2 where r2: "?run (replicate (3 * 1) (Writer 1)) s1 =
      set_writer 1 (pc (start + 1)) (s1\<lparr>th_db := db2, th_commits := th_commits s1 + 1\<rparr>)" "holds_map db2 m2"
      "\<forall>x. (start + 1) * 100 \<le> x \<longrightarrow> x < (start + ?c) * 100 \<longrightarrow> m2 (seed_key rg x) = m1 (seed_key rg x)"
    using writer_alone [OF val good, of s1 m1 1 start 1] s1 r1(2) w c by (auto simp: pc_def)
  define s2 where "s2 = set_writer 1 (pc (start + 1)) (s1\<lparr>th_db := db2, th_commits := th_commits s1 + 1\<rparr>)"
  have s2: "th_db s2 = db2" "th_commits s2 = start + ?c" "length (th_writers s2) = ?w" "length (th_readers s2) = ar_readers args"
    using s1 c by (simp_all add: s2_def set_writer_def)
  have "set (th_writers s2) \<subseteq> {pc (start + 1), pc (start + (?c - 1)), pc start}"
    using s1(1) by (auto simp: s2_def set_writer_def dest!: subsetD [OF set_update_subset_insert])
  then have chk: "\<forall>x \<in> set (th_writers s2). \<exists>n key. x = W_check n key" by (auto simp: pc_def)
  define s3 where "s3 = s2\<lparr>th_shutdown := True\<rparr>"
  have m2: "m2 (seed_key rg ((start + ?c - 1) * 100 + 99)) = None"
    using r1(3) r2(3) missing c by simp
  let ?rest = "Informant # map Reader [0..<ar_readers args]"
  define s where "s = ?run ?rest (s3\<lparr>th_writers := replicate ?w W_end\<rparr>)"
  have runs: "?run (replicate (3 * (?c - 1)) (Writer 0)) s0 = s1" "?run (replicate (3 * 1) (Writer 1)) s1 = s2"
    by (rule r1(1) [folded s1_def], rule r2(1) [folded s2_def])
  have main: "?run [Main] s2 = s3" using s2(2) by (simp add: main_wait_def s3_def)
  have stop: "?run (map Writer [0..<?w]) s3 = s3\<lparr>th_writers := replicate ?w W_end\<rparr>"
    using writers_stop [of s3 ?w commit_to rg args ?pool start] chk s2(3) by (simp add: s3_def)
  have s: "?run (replicate (3 * (?c - 1)) (Writer 0) @ replicate (3 * 1) (Writer 1) @ [Main] @ map Writer [0..<?w] @ ?rest) s0 = s"
    by (simp only: fold_append o_apply runs main stop s_def)
  have keep: "th_writers s = replicate ?w W_end" "th_db s = db2" "th_commits s = start + ?c"
    using quiet_turns [of ?rest commit_to rg args ?pool start "s3\<lparr>th_writers := replicate ?w W_end\<rparr>"] s2 by (auto simp: s_def s3_def)
  have down: "th_shutdown (s3\<lparr>th_writers := replicate ?w W_end\<rparr>)" by (simp add: s3_def)
  have "True \<notin> set (th_readers s)"
    unfolding s_def turns_readers [OF down] using s2(4) by (auto simp: s3_def)
  moreover have "th_informant s = None" unfolding s_def by (rule turns_informant [OF down]) simp
  moreover have "th_shutdown s" unfolding s_def by (rule turns_shutdown [OF down])
  ultimately have "threads_ended s" "\<not> (\<exists>x \<in> set (th_writers s). writer_panicked x)"
    using keep(1) by (auto simp: threads_ended_def writer_panicked_def list_all_iff)
  moreover have "check_commits get rg args ?pool (of_nat (start + ?c)) (map of_nat [start..<start + ?c]) 0 (th_db s) = Inl check_fails"
    by (rule check_commits_fail [OF val good, where m = m2 and j = "start + ?c - 1"]) (use keep(2) r2(2) c m2 in auto)
  moreover have "start + ?c < 2 ^ 64" "start < 2 ^ 64" using good by (auto simp: good_keys_def)
  ultimately have "run_internal get commit_to rg
      (replicate (3 * (?c - 1)) (Writer 0) @ replicate (3 * 1) (Writer 1) @ [Main] @ map Writer [0..<?w] @ ?rest) args db = Inl check_fails"
    using db0(1) start check keep(3) u64_range_of_nat [of start "start + ?c"] unfolding run_internal_def Let_def
    by (simp only: and_then_simps case_prod_conv s0_def [symmetric] s) simp
  then show ?thesis by blast
qed

end

section \<open>The adapter keeps the contract\<close>

text \<open>
  A database as a map of the keys \<open>K\<close>: the values are those a reader sees, and the hash does not confuse two
  keys of \<open>K\<close>.
\<close>

definition column_0 :: "Db \<Rightarrow> Column" where
  "column_0 db = db_columns (dd_inner db) ! 0"

definition bench_shows :: "Crates \<Rightarrow> Key set \<Rightarrow> Db \<Rightarrow> (Key \<Rightarrow> bytes option) \<Rightarrow> bool" where
  "bench_shows cr K db m \<longleftrightarrow>
     (let d = dd_inner db
      in (\<exists>ms. db_holds cr d ms \<and> (\<forall>key\<in>K. \<exists>k. Column_hash (cr_blake2b cr) (column_0 db) key = Inr k \<and>
            length k = KEY_LEN \<and> db_shows d ms 0 k = m key)) \<and>
         inj_on (Column_hash (cr_blake2b cr) (column_0 db)) K \<and> plain_column d 0 \<and> \<not> col_collect_stats (column_0 db) \<and>
         db_bg_err d = None \<and> length (db_commit_overlay d) = length (md_columns (db_metadata d)))"

definition bench_map :: "Crates \<Rightarrow> (Db \<Rightarrow> Db) \<Rightarrow> Key set \<Rightarrow> Db \<Rightarrow> (Key \<Rightarrow> bytes option) \<Rightarrow> bool" where
  "bench_map cr bg K db m \<longleftrightarrow>
     bench_shows cr K db m \<and> (\<forall>db m. bench_shows cr K db m \<longrightarrow> bench_shows cr K (bg db) m)"

lemma adapter_get:
  assumes "bench_shows cr K db m" and "key \<in> K"
  shows "BenchAdapter_get cr db key = Inr (m key, db)"
proof -
  let ?d = "dd_inner db"
  obtain ms k where k: "db_holds cr ?d ms" "Column_hash (cr_blake2b cr) (column_0 db) key = Inr k" "length k = KEY_LEN"
      "db_shows ?d ms 0 k = m key"
    using assms unfolding bench_shows_def Let_def by blast
  have c: "0 < length (db_columns ?d)" "\<not> col_collect_stats (column_0 db)"
    using assms(1) by (simp_all add: bench_shows_def plain_column_def Let_def)
  have "column_holds (cr_codecs cr) (column_0 db) (db_writer ?d) (ms ! 0)"
    using k(1) c(1) by (simp add: db_holds_def columns_hold_def column_0_def)
  then have "Column_get (cr_codecs cr) (column_0 db) k (LogOverlays_query (lg_overlays (db_log ?d))) =
      Inr (map_option snd ((ms ! 0) k), column_0 db)"
    using get_holds [OF _ k(3)] c(2) by fastforce
  then have "DbInner_get cr ?d 0 key = Inr (m key, ?d)"
    using c(1) k(2,4) unfolding column_0_def
    by (auto simp: DbInner_get_def column_at_def db_shows_def set_column_def split: option.splits)
  then show ?thesis by (simp add: BenchAdapter_get_def Db_get_def unwrap_def)
qed

text \<open>The last write to a key in a transaction, after hashing.\<close>

lemma hashed_writes:
  assumes inj: "inj_on H K" and key: "key \<in> K" and md: "\<not> co_ref_counted (md_columns md ! 0)"
  shows "fst ` set tx \<subseteq> K \<Longrightarrow>
     (case last_opt (op_writes md r (map (\<lambda>(k, v). (0, H k, v)) tx) 0 (H key)) of Some (_, v) \<Rightarrow> v | None \<Rightarrow> m key) = tx_apply tx m key"
proof (induction tx arbitrary: m)
  case (Cons x tx)
  obtain k v where x: "x = (k, v)" by (cases x)
  define m1 where "m1 = m(k := v)"
  have "H k = H key \<longleftrightarrow> k = key" using inj key Cons.prems by (auto simp: x inj_on_def)
  moreover have "tx_apply (x # tx) m = tx_apply tx m1" by (simp add: tx_apply_def x m1_def)
  moreover have "m1 key = (if k = key then v else m key)" by (simp add: m1_def)
  ultimately show ?case
    using Cons.IH [of m1] Cons.prems md by (auto simp: x shown_def over_def split: option.splits)
qed (simp add: tx_apply_def)

lemma hash_operations_run:
  assumes "column_at d 0 = Inr c" and "\<And>k. k \<in> fst ` set tx \<Longrightarrow> Column_hash (cr_blake2b cr) c k = Inr (H k)"
  shows "hash_operations cr d (map (\<lambda>(k, v). (0, k, v)) tx) = Inr (map (\<lambda>(k, v). (0, H k, v)) tx)"
  using assms(2)
proof (induction tx)
  case (Cons x tx)
  then show ?case using assms(1) by (cases x) auto
qed simp

lemma adapter_commit:
  assumes b: "bench_shows cr K db m" and tx: "fst ` set tx \<subseteq> K"
  shows "\<exists>db'. Db_commit cr db (map (\<lambda>(k, v). (0, k, v)) tx) True = Some (Inr db') \<and> bench_shows cr K db' (tx_apply tx m)"
proof -
  define d where "d = dd_inner db"
  define H where "H key = projr (Column_hash (cr_blake2b cr) (column_0 db) key)" for key
  define ops where "ops = map (\<lambda>(k, v). (0 :: ColId, H k, v)) tx"
  obtain ms where ms: "db_holds cr d ms"
      "\<And>key. key \<in> K \<Longrightarrow> Column_hash (cr_blake2b cr) (column_0 db) key = Inr (H key) \<and> length (H key) = KEY_LEN \<and> db_shows d ms 0 (H key) = m key"
    using b unfolding bench_shows_def Let_def d_def H_def by fastforce
  have d: "inj_on (Column_hash (cr_blake2b cr) (column_0 db)) K" "plain_column d 0" "\<not> col_collect_stats (column_0 db)"
      "db_bg_err d = None" "length (db_commit_overlay d) = length (md_columns (db_metadata d))"
    using b by (simp_all add: bench_shows_def Let_def d_def)
  have col: "0 < length (db_columns d)" "length (md_columns (db_metadata d)) = length (db_columns d)"
      "\<not> co_ref_counted (md_columns (db_metadata d) ! 0)"
    using d(2) by (simp_all add: plain_column_def)
  have inj: "inj_on H K"
  proof (rule inj_onI)
    fix a b assume "a \<in> K" "b \<in> K" "H a = H b"
    then show "a = b" using inj_onD [OF d(1), of a b] ms(2) [of a] ms(2) [of b] by simp
  qed
  have hash: "hash_operations cr d (map (\<lambda>(k, v). (0, k, v)) tx) = Inr ops"
    unfolding ops_def by (rule hash_operations_run [where c = "column_0 db"])
      (use col(1) ms(2) tx in \<open>auto simp: column_at_def column_0_def d_def\<close>)
  let ?r = "cq_record_id (db_commit_queue d) + 1 + 1"
  have "ops_in_range (db_metadata d) ops" using col by (auto simp: ops_in_range_def ops_def)
  then obtain ov where ov: "queue_operations (db_metadata d) ?r ops 0 (db_commit_overlay d) = Inr (sum_list (map op_bytes ops), ov)"
      "length ov = length (db_commit_overlay d)"
      "\<forall>col k. unat col < length (db_commit_overlay d) \<longrightarrow> map_of (ov ! unat col) k =
        over (map_of (db_commit_overlay d ! unat col) k) (last_opt (op_writes (db_metadata d) ?r ops col k))"
    using queue_operations_ok [OF d(5), of ops ?r 0] by auto
  obtain d' where d': "commit_raw_queue d ops = Inr d'" "db_commit_overlay d' = ov" "db_columns d' = db_columns d" "db_log d' = db_log d"
      "db_metadata d' = db_metadata d" "db_bg_err d' = None"
    using d(4) ov(1) by (simp add: commit_raw_queue_def Let_def)
  have hold: "db_holds cr d' ms" using ms(1) by (simp add: db_holds_def db_writer_def d')
  have "db_shows d' ms 0 (H key) = tx_apply tx m key" if key: "key \<in> K" for key
  proof -
    have "unat (0 :: ColId) < length (db_commit_overlay d)" using col d(5) by simp
    from ov(3) [rule_format, OF this, of "H key"]
    have "map_of (ov ! 0) (H key) = over (map_of (db_commit_overlay d ! 0) (H key)) (last_opt (op_writes (db_metadata d) ?r ops 0 (H key)))"
      by simp
    then have "db_shows d' ms 0 (H key) =
        (case last_opt (op_writes (db_metadata d) ?r ops 0 (H key)) of Some (_, v) \<Rightarrow> v | None \<Rightarrow> db_shows d ms 0 (H key))"
      using ov(2) col d(5) by (auto simp: db_shows_def overlay_get_def d' over_def split: option.splits)
    then show ?thesis using hashed_writes [OF inj key col(3) tx, where r = ?r and m = m] ms(2) [OF key]
      by (auto simp: ops_def split: option.splits)
  qed
  then have "bench_shows cr K (db\<lparr>dd_inner := d'\<rparr>) (tx_apply tx m)"
    using hold ms(2) d ov(2) d' unfolding bench_shows_def Let_def column_0_def d_def plain_column_def by auto
  moreover have "Db_commit cr db (map (\<lambda>(k, v). (0, k, v)) tx) True = Some (Inr (db\<lparr>dd_inner := d'\<rparr>))"
    using hash d'(1) by (simp add: Db_commit_def DbInner_commit_def DbInner_commit_raw_def d_def)
  ultimately show ?thesis by blast
qed

interpretation bench: bench_db "BenchAdapter_get cr" "BenchAdapter_commit cr bg" "bench_map cr bg K" K for cr bg K
proof
  show "\<exists>db'. BenchAdapter_get cr db k = Inr (m k, db') \<and> bench_map cr bg K db' m" if "bench_map cr bg K db m" "k \<in> K" for db m k
    using adapter_get [of cr K db m k] that by (simp add: bench_map_def)
  show "\<exists>db'. BenchAdapter_commit cr bg db tx = Inr db' \<and> bench_map cr bg K db' (tx_apply tx m)"
    if "bench_map cr bg K db m" "fst ` set tx \<subseteq> K" for db m tx
    using adapter_commit [of cr K "bg db" m tx] that by (auto simp: bench_map_def BenchAdapter_commit_def unwrap_def)
qed

section \<open>Properties\<close>



text \<open>A run of a few commits.\<close>

definition sample_args :: Args where
  "sample_args = \<lparr>ar_readers = 4, ar_commits = 3, ar_writers = 1, ar_seed = None, ar_archive = False, ar_append = False,
     ar_no_check = False, ar_compress = False\<rparr>"

lemma sample_rng_key: "SizePool_key sample_rng s = to_be 8 s @ replicate 24 0"
  by (simp add: SizePool_key_def sample_rng_def)

lemma sample_good_keys: "good_keys sample_rng {k. length k = 32} 3"
proof -
  have len: "length (SizePool_key sample_rng s) = 32" for s by (simp add: sample_rng_key)
  have "last (SizePool_key sample_rng s) = 0" for s by (simp add: sample_rng_key)
  moreover have "last KEY_RESTART = 1" "length KEY_RESTART = 32" by (simp_all add: KEY_RESTART_def)
  moreover have "inj_on (seed_key sample_rng) {..<300}"
  proof (rule inj_onI)
    fix a b assume ab: "a \<in> {..<300}" "b \<in> {..<300}" "seed_key sample_rng a = seed_key sample_rng b"
    then have "from_be (to_be 8 (of_nat a :: u64)) = (from_be (to_be 8 (of_nat b :: u64)) :: u64)"
      by (simp add: seed_key_def sample_rng_key)
    then have "(of_nat a :: u64) = of_nat b" by simp
    then have "unat (of_nat a :: u64) = unat (of_nat b :: u64)" by simp
    then show "a = b" using ab by (simp add: unat_of_nat_small)
  qed
  ultimately show ?thesis using len unfolding good_keys_def seed_key_def by (auto dest: arg_cong [of _ _ last])
qed

lemma sample_bench: "bench_map sample_crates id {k. length k = 32} dest_db Map.empty"
proof -
  have c: "column_0 dest_db = sample_col" by (simp add: column_0_def dest_db_def sample_store_def)
  have hash: "Column_hash (cr_blake2b sample_crates) sample_col k = Inr k" if "length k = 32" for k
    using that by (simp add: Column_hash_def sample_col_def slice_of_def)
  have "plain_column sample_store 0"
    by (simp add: plain_column_def sample_store_def sample_inner_def) (simp add: sample_col_def)
  moreover have "\<not> col_collect_stats sample_col" by (simp add: sample_col_def)
  moreover have "db_shows sample_store [Map.empty] 0 k = None" for k
    by (simp add: db_shows_def overlay_get_def sample_store_def sample_inner_def)
  moreover have "inj_on (Column_hash (cr_blake2b sample_crates) sample_col) {k. length k = 32}"
    using hash by (auto simp: inj_on_def)
  moreover have "db_bg_err sample_store = None" "length (db_commit_overlay sample_store) = length (md_columns (db_metadata sample_store))"
    by (simp_all add: sample_store_def sample_inner_def)
  ultimately have "bench_shows sample_crates {k. length k = 32} dest_db Map.empty"
    unfolding bench_shows_def Let_def c using sample_store_holds [of sample_crates] hash
    by (auto simp: dest_db_def KEY_LEN_def intro!: exI [of _ "[Map.empty]"])
  then show ?thesis by (simp add: bench_map_def)
qed

definition sample_schedule :: schedule where
  "sample_schedule = concat (replicate 5 [Writer 0, Informant, Writer 0, Writer 0, Main]) @
     [Writer 0, Informant, Reader 3, Reader 2, Reader 1, Reader 0]"

lemma sample_fair: "fair_schedule sample_args sample_schedule"
  unfolding fair_schedule_def
  by (intro exI [of _ "concat (replicate 3 [Writer 0, Informant, Writer 0, Writer 0, Main])"]
        exI [of _ "concat (replicate 2 [Writer 0, Informant, Writer 0, Writer 0, Main])"]
        exI [of _ "[Writer 0, Informant, Reader 3, Reader 2, Reader 1, Reader 0]"])
     (auto simp: sample_schedule_def sample_args_def numeral_eq_Suc less_Suc_eq)



end
