(* ===== verification/Admin.thy ===== *)
theory Admin
  imports Bench
begin

text \<open>
  The admin tool (\<open>admin/src/lib.rs\<close>): the options it builds for a database and what each subcommand does
  with it. The command line is given parsed, since the parser is derived by a library. A \<open>World\<close> has the
  directories by their paths, the metadata files that are named on the command line and what is printed.
\<close>

section \<open>The command line\<close>

record StatsCmd =
  sc_shared :: Shared
  sc_column :: "u8 option"
  sc_clear :: bool

record MigrateCmd =
  mc_shared :: Shared
  mc_force_columns :: "u8 list"
  mc_overwrite :: bool
  mc_clear_dest :: bool
  mc_dest_path :: string
  mc_dest_meta :: string

record FlushCmd =
  fc_shared :: Shared

record CheckCmd =
  kc_shared :: Shared
  kc_column :: "u8 option"
  kc_index_value :: bool
  kc_range_start :: "u64 option"
  kc_range_end :: "u64 option"
  kc_display :: bool
  kc_display_value_max :: "u64 option"

datatype SubCommand =
    StatsSub StatsCmd | MigrateSub MigrateCmd | FlushSub FlushCmd | CheckSub CheckCmd | StressSub Stress

record Cli =
  cl_subcommand :: SubCommand
  cl_validator :: bool

definition Cli_shared :: "Cli \<Rightarrow> Shared" where
  "Cli_shared cli =
     (case cl_subcommand cli of
        StatsSub stats \<Rightarrow> sc_shared stats
      | MigrateSub stats \<Rightarrow> mc_shared stats
      | FlushSub flush \<Rightarrow> fc_shared flush
      | CheckSub check \<Rightarrow> kc_shared check
      | StressSub bench \<Rightarrow> ss_shared bench)"


section \<open>The world\<close>

record World =
  wd_current_dir :: string
  wd_dir :: "string \<Rightarrow> Disk"
  wd_meta :: "string \<Rightarrow> string option"
  wd_out :: string
  wd_reports :: "report list"
  wd_queries :: nat

definition no_dir :: Disk where
  "no_dir = empty_dir\<lparr>dk_exists := False\<rparr>"

definition set_dir :: "World \<Rightarrow> string \<Rightarrow> Disk \<Rightarrow> World" where
  "set_dir w path disk = w\<lparr>wd_dir := (wd_dir w)(path := disk)\<rparr>"

text \<open>The errors of the tool are strings: a message, with the error of the database where there is one.\<close>

datatype admin_error = Message string "error option" | Fault fault

definition map_err :: "string \<Rightarrow> 'a res \<Rightarrow> admin_error + 'a" where
  "map_err msg r =
     (case r of Inl (Err e) \<Rightarrow> Inl (Message msg (Some e)) | Inl e \<Rightarrow> Inl (Fault e) | Inr x \<Rightarrow> Inr x)"

definition panics :: "'a res \<Rightarrow> admin_error + 'a" where
  "panics r = (case r of Inl e \<Rightarrow> Inl (Fault e) | Inr x \<Rightarrow> Inr x)"


section \<open>Options\<close>

definition admin_path :: "Cli \<Rightarrow> World \<Rightarrow> string" where
  "admin_path cli w = (case sh_base_path (Cli_shared cli) of Some p \<Rightarrow> p | None \<Rightarrow> wd_current_dir w)"

definition admin_options :: "Crates \<Rightarrow> Cli \<Rightarrow> World \<Rightarrow> admin_error + Options" where
  "admin_options cr cli w =
     (let shared = Cli_shared cli;
          db_path = admin_path cli w;
          nb_column = (case sh_columns shared of Some n \<Rightarrow> n | None \<Rightarrow> 1)
      in and_then (map_err ''Error resolving metas'' (Options_load_metadata (cr_hex_decode cr) (dk_metadata (wd_dir w db_path))))
           (\<lambda>metadata.
             let options = (case metadata of
                     Some metadata \<Rightarrow> (Options_with_columns db_path 0)
                       \<lparr>op_columns := md_columns metadata, op_salt := Some (md_salt metadata)\<rparr>
                   | None \<Rightarrow> Options_with_columns db_path nb_column)
             in Inr (options\<lparr>op_sync_wal := \<not> sh_no_sync shared, op_sync_data := \<not> sh_no_sync shared,
                             op_stats := sh_with_stats shared\<rparr>)))"


section \<open>The subcommands\<close>

text \<open>\<open>Db\<close> goes out of scope at the end of a subcommand.\<close>

definition close_db :: "Crates \<Rightarrow> (Db \<Rightarrow> Db) \<Rightarrow> string \<Rightarrow> Db \<Rightarrow> Disk \<Rightarrow> World \<Rightarrow> admin_error + World" where
  "close_db cr join path db disk w =
     and_then (panics (Db_drop cr join db disk)) (\<lambda>disk. Inr (set_dir w path disk))"

definition run_stats ::
    "Crates \<Rightarrow> Salt \<Rightarrow> (Db \<Rightarrow> Db) \<Rightarrow> Options \<Rightarrow> StatsCmd \<Rightarrow> World \<Rightarrow> admin_error + World" where
  "run_stats cr random join options stat w =
     and_then (map_err ''Invalid db'' (Db_open_read_only cr random options (wd_dir w (op_path options)))) (\<lambda>(db, disk).
       if sc_clear stat then
         and_then (panics (Db_clear_stats db (sc_column stat))) (\<lambda>db. close_db cr join (op_path options) db disk w)
       else
         and_then (panics (Db_collect_stats db (wd_out w) (sc_column stat))) (\<lambda>(db, out).
           close_db cr join (op_path options) db disk (w\<lparr>wd_out := out\<rparr>)))"

definition run_migrate ::
    "Crates \<Rightarrow> Salt \<Rightarrow> (Db \<Rightarrow> Db) \<Rightarrow> (Db \<Rightarrow> Db) \<Rightarrow> string \<Rightarrow> MigrateCmd \<Rightarrow> World \<Rightarrow> admin_error + World" where
  "run_migrate cr random join bg db_path args w =
     and_then (map_err ''Error loading dest metadata'' (Options_load_metadata (cr_hex_decode cr) (wd_meta w (mc_dest_meta args))))
       (\<lambda>dest_meta. case dest_meta of
          None \<Rightarrow> Inl (Message ''Error opening dest metadata file'' None)
        | Some dest_meta \<Rightarrow>
            let dest_columns = md_columns dest_meta;
                dest = mc_dest_path args;
                w = (if mc_clear_dest args \<and> dk_exists (wd_dir w dest) then set_dir w dest no_dir else w);
                w = set_dir w dest ((wd_dir w dest)\<lparr>dk_exists := True\<rparr>);
                dest_options = (Options_with_columns dest (of_nat (length dest_columns)))
                  \<lparr>op_columns := dest_columns, op_sync_wal := False, op_sync_data := False\<rparr>
            in and_then (map_err ''Migration error''
                 (migrate cr random join bg db_path (wd_dir w db_path) dest_options (wd_dir w dest) (mc_overwrite args)
                    (mc_force_columns args))) (\<lambda>m.
               and_then (close_db cr join dest (mi_dest m) (mi_to m) w) (\<lambda>w.
               and_then (close_db cr join db_path (mi_source m) (mi_from m) w) (\<lambda>w.
                 Inr (if mc_overwrite args \<and> dk_exists (wd_dir w dest) then set_dir w dest no_dir else w)))))"

definition run_check ::
    "Crates \<Rightarrow> Salt \<Rightarrow> (Db \<Rightarrow> Db) \<Rightarrow> Options \<Rightarrow> CheckCmd \<Rightarrow> World \<Rightarrow> admin_error + World" where
  "run_check cr random join options check w =
     and_then (map_err ''Invalid db'' (Db_open_read_only cr random options (wd_dir w (op_path options)))) (\<lambda>(db, disk).
       if \<not> kc_index_value check then Inl (Message ''Requires one of the following check flag: --index-value'' None)
       else
         let check_param = CheckOptions_new (kc_column check) (kc_range_start check) (kc_range_end check)
               (kc_display check) (kc_display_value_max check)
         in and_then (map_err ''Check error'' (Db_check_from_index cr db check_param)) (\<lambda>reports.
              close_db cr join (op_path options) db disk (w\<lparr>wd_reports := wd_reports w @ reports\<rparr>)))"

definition run_flush :: "Crates \<Rightarrow> Salt \<Rightarrow> (Db \<Rightarrow> Db) \<Rightarrow> Options \<Rightarrow> World \<Rightarrow> admin_error + World" where
  "run_flush cr random join options w =
     and_then (map_err ''Invalid db'' (Db_open cr random options (wd_dir w (op_path options)))) (\<lambda>(db, disk).
       close_db cr join (op_path options) db disk w)"

text \<open>The stress test up to the point where its database is closed; the number is that of the queries and \<open>sch\<close> the
  order in which its threads take turns.\<close>

definition stress_path :: "Options \<Rightarrow> string" where
  "stress_path options = op_path options @ ''/'' @ ''test_db_stress''"

definition stress_session ::
    "Crates \<Rightarrow> Salt \<Rightarrow> (Db \<Rightarrow> Db) \<Rightarrow> 'g Rng \<Rightarrow> schedule \<Rightarrow> Options \<Rightarrow> Args \<Rightarrow> World \<Rightarrow> (nat \<times> Db \<times> Disk) res" where
  "stress_session cr random bg rg sch options args w =
     (let path = stress_path options;
          disk = (if dk_exists (wd_dir w path) \<and> \<not> ar_append args then no_dir else wd_dir w path)
      in and_then (BenchAdapter_with_options cr random (options\<lparr>op_path := path\<rparr>) args disk) (\<lambda>(db, disk).
         and_then (run_internal (BenchAdapter_get cr) (BenchAdapter_commit cr bg) rg sch args db) (\<lambda>(queries, db).
           Inr (queries, db, disk))))"

definition run_stress ::
    "Crates \<Rightarrow> Salt \<Rightarrow> (Db \<Rightarrow> Db) \<Rightarrow> (Db \<Rightarrow> Db) \<Rightarrow> 'g Rng \<Rightarrow> schedule \<Rightarrow> Options \<Rightarrow> Stress \<Rightarrow> World
       \<Rightarrow> admin_error + World" where
  "run_stress cr random join bg rg sch options bench w =
     and_then (panics (stress_session cr random bg rg sch options (Stress_get_args bench) w)) (\<lambda>(queries, db, disk).
       close_db cr join (stress_path options) db disk (w\<lparr>wd_queries := queries\<rparr>))"

definition run ::
    "Crates \<Rightarrow> Salt \<Rightarrow> (Db \<Rightarrow> Db) \<Rightarrow> (Db \<Rightarrow> Db) \<Rightarrow> 'g Rng \<Rightarrow> schedule \<Rightarrow> Cli \<Rightarrow> World \<Rightarrow> admin_error + World" where
  "run cr random join bg rg sch cli w =
     and_then (admin_options cr cli w) (\<lambda>options.
       case cl_subcommand cli of
         StatsSub stat \<Rightarrow> run_stats cr random join options stat w
       | MigrateSub args \<Rightarrow> run_migrate cr random join bg (admin_path cli w) args w
       | CheckSub check \<Rightarrow> run_check cr random join options check w
       | FlushSub _ \<Rightarrow> run_flush cr random join options w
       | StressSub bench \<Rightarrow> run_stress cr random join bg rg sch options bench w)"

text \<open>\<open>main\<close> of \<open>admin/src/main.rs\<close>, which unwraps the result; raising the limit of open files has no effect on it.\<close>

definition admin_main ::
    "Crates \<Rightarrow> Salt \<Rightarrow> (Db \<Rightarrow> Db) \<Rightarrow> (Db \<Rightarrow> Db) \<Rightarrow> 'g Rng \<Rightarrow> schedule \<Rightarrow> Cli \<Rightarrow> World \<Rightarrow> World res" where
  "admin_main cr random join bg rg sch cli w =
     (case run cr random join bg rg sch cli w of
        Inl (Message _ _) \<Rightarrow> Inl (Panic ''called `Result::unwrap()` on an `Err` value'')
      | Inl (Fault e) \<Rightarrow> Inl e
      | Inr w \<Rightarrow> Inr w)"


section \<open>The stress test from the command line\<close>

text \<open>A database that has just been created, as a map of the keys of the test.\<close>

lemma fresh_bench:
  assumes disk: "empty_disk disk" and cols: "op_columns options \<noteq> []" "length (op_columns options) \<le> 256"
      "Options_is_valid options" "list_all sizes_ok (op_columns options)"
    and plain: "\<not> co_ref_counted (hd (op_columns options))" "\<not> co_preimage (hd (op_columns options))"
      "\<not> co_uniform (hd (op_columns options))" "\<not> op_stats options"
    and hash: "inj_on (cr_blake2b cr 32 (salt_of random options)) K"
      "\<And>k. k \<in> K \<Longrightarrow> length (cr_blake2b cr 32 (salt_of random options) k) = KEY_LEN"
  obtains db disk' where "Db_open_or_create cr random options disk = Inr (db, disk')" "bench_shows cr K db Map.empty"
proof -
  let ?n = "length (op_columns options)" and ?s = "salt_of random options"
  obtain db disk' where db: "Db_open_or_create cr random options disk = Inr (db, disk')"
      "db_holds cr (dd_inner db) (replicate ?n Map.empty)" "db_bg_err (dd_inner db) = None"
      "map kind_of (db_columns (dd_inner db)) =
         map (\<lambda>o'. (co_ref_counted o', co_preimage o', co_uniform o', ?s, CURRENT_VERSION)) (op_columns options)"
      "\<forall>c \<in> set (db_columns (dd_inner db)). col_collect_stats c = op_stats options"
      "md_columns (db_metadata (dd_inner db)) = op_columns options"
      "db_commit_overlay (dd_inner db) = map (\<lambda>_. []) (op_columns options)"
    by (rule create_fresh [OF disk cols(2-4), of cr random]) blast
  have len: "length (db_columns (dd_inner db)) = ?n" using arg_cong [OF db(4), of length] by simp
  have hd: "hd (op_columns options) = op_columns options ! 0" using cols(1) by (simp add: hd_conv_nth)
  have kind: "kind_of (column_0 db) = (False, False, False, ?s, CURRENT_VERSION)"
    using arg_cong [OF db(4), of "\<lambda>xs. xs ! 0"] cols(1) len plain hd by (simp add: column_0_def)
  have "column_0 db \<in> set (db_columns (dd_inner db))" using cols(1) len by (simp add: column_0_def)
  then have stats: "\<not> col_collect_stats (column_0 db)" using db(5) plain(4) by blast
  have H: "Column_hash (cr_blake2b cr) (column_0 db) k = Inr (cr_blake2b cr 32 ?s k)" for k
    using kind by (simp add: Column_hash_def kind_of_def)
  have "inj_on (Column_hash (cr_blake2b cr) (column_0 db)) K" using hash(1) by (simp add: inj_on_def H)
  moreover have "plain_column (dd_inner db) 0"
    using kind plain hd cols(1) len db(6) by (simp add: plain_column_def kind_of_def column_0_def)
  moreover have "db_shows (dd_inner db) (replicate ?n Map.empty) 0 k = None" for k
    using cols(1) by (simp add: db_shows_def overlay_get_def db(7))
  ultimately have "bench_shows cr K db Map.empty"
    unfolding bench_shows_def Let_def using db(2,3,6,7) stats hash(2) H by (auto intro!: exI [of _ "replicate ?n Map.empty"])
  then show thesis using that db(1) by blast
qed

lemma with_columns_default:
  "n \<noteq> 0 \<Longrightarrow> op_columns (Options_with_columns p n) \<noteq> [] \<and> hd (op_columns (Options_with_columns p n)) = ColumnOptions_default \<and>
     length (op_columns (Options_with_columns p n)) \<le> 256 \<and> set (op_columns (Options_with_columns p n)) \<subseteq> {ColumnOptions_default}"
  using unsigned_less [of n, where 'a = nat]
  by (auto simp: Options_with_columns_def hd_map unat_gt_0 [symmetric])

lemma bench_options:
  assumes n: "n \<noteq> 0" and o1: "op_columns o1 = op_columns (Options_with_columns p n)"
    and o2: "o2 = (if compress then o1\<lparr>op_columns := map (\<lambda>c. c\<lparr>co_compression := Lz4\<rparr>) (op_columns o1)\<rparr> else o1)"
  shows "op_columns o2 \<noteq> []" "length (op_columns o2) \<le> 256" "Options_is_valid o2" "list_all sizes_ok (op_columns o2)"
    "\<not> co_ref_counted (hd (op_columns o2))" "\<not> co_preimage (hd (op_columns o2))" "\<not> co_uniform (hd (op_columns o2))"
proof -
  note def = with_columns_default [OF n, of p]
  have "\<forall>c \<in> set (op_columns o2). ColumnOptions_is_valid c \<and> sizes_ok c"
    using def default_valid default_sizes_range by (auto simp: o2 o1 ColumnOptions_is_valid_def sizes_ok_def)
  then show "Options_is_valid o2" "list_all sizes_ok (op_columns o2)" by (simp_all add: Options_is_valid_def list_all_iff)
  show "op_columns o2 \<noteq> []" "length (op_columns o2) \<le> 256" using def by (simp_all add: o2 o1)
  show "\<not> co_ref_counted (hd (op_columns o2))" "\<not> co_preimage (hd (op_columns o2))" "\<not> co_uniform (hd (op_columns o2))"
    using def by (auto simp: o2 o1 hd_map ColumnOptions_default_def Let_def)
qed

section \<open>Properties\<close>


definition sample_shared :: Shared where
  "sample_shared = \<lparr>sh_base_path = Some ''db'', sh_no_sync = True, sh_with_stats = False, sh_columns = None, sh_log = []\<rparr>"

definition sample_stress :: Stress where
  "sample_stress = \<lparr>ss_shared = sample_shared, ss_readers = None, ss_writers = None, ss_commits = Some 3, ss_seed = None,
     ss_append = False, ss_archive = False, ss_no_check = False, ss_compress = True\<rparr>"

definition sample_cli :: Cli where
  "sample_cli = \<lparr>cl_subcommand = StressSub sample_stress, cl_validator = False\<rparr>"

definition sample_world :: World where
  "sample_world = \<lparr>wd_current_dir = ''here'', wd_dir = (\<lambda>_. no_dir), wd_meta = (\<lambda>_. None), wd_out = '''', wd_reports = [],
     wd_queries = 0\<rparr>"


end
